(* ===== verification/Prelude.thy ===== *)
theory Prelude
  imports Main "HOL-Library.Word"
begin

text \<open>
  Shared vocabulary of the development: Rust's machine integers, the outcome of a call
  that may panic, the overflow-checked arithmetic of the debug build (the Makefile links
  \<^verbatim>\<open>target/x86_64-lambda/debug\<close>, so an overflow panics and never wraps silently), the loops
  over iterators, and the generic facts the component theories share.

  A call of the kernel has the type \<open>'a res\<close>: \<open>Inr v\<close> when it returns \<open>v\<close>, \<open>Inl p\<close> when it
  panics. The target is compiled with \<^verbatim>\<open>panic-strategy = abort\<close> and
  \<^verbatim>\<open>runtime_glue.rs\<close> spins after a panic, so no state survives one and the model
  returns none.
\<close>

unbundle bit_operations_syntax

section \<open>Collections of rules\<close>

named_theorems res_simps \<open>rewriting calls that may panic\<close>
named_theorems word_unat \<open>reading words as natural numbers\<close>

section \<open>Machine integers\<close>

type_synonym u8 = "8 word"
type_synonym u16 = "16 word"
type_synonym u32 = "32 word"
type_synonym u64 = "64 word"
type_synonym usize = "64 word"

section \<open>Panics and results\<close>

text \<open>
  The ways a call can fail to return: the debug build's overflow check, a slice index out of
  range, a failed \<^verbatim>\<open>assert!\<close>, an explicit \<^verbatim>\<open>panic!\<close>, \<^verbatim>\<open>expect\<close> or \<^verbatim>\<open>unwrap\<close>,
  \<^verbatim>\<open>unimplemented!\<close>, a page fault (whose handler prints and spins), and a loop or recursion
  that never ends.
\<close>

datatype panic =
    Overflow
  | OutOfRange
  | Assertion string
  | Panic string
  | Unimplemented
  | PageFault usize
  | NoReturn

type_synonym 'a res = "panic + 'a"

definition rbind :: "'a res \<Rightarrow> ('a \<Rightarrow> 'b res) \<Rightarrow> 'b res" where
  "rbind r f = (case r of Inl e \<Rightarrow> Inl e | Inr x \<Rightarrow> f x)"

lemma rbind_Inl [simp]: "rbind (Inl e) f = Inl e"
  by (simp add: rbind_def)

lemma rbind_Inr [simp]: "rbind (Inr x) f = f x"
  by (simp add: rbind_def)

lemma rbind_eq_Inr [res_simps]: "rbind r f = Inr y \<longleftrightarrow> (\<exists>x. r = Inr x \<and> f x = Inr y)"
  by (cases r) auto

lemma rbind_assoc [res_simps]: "rbind (rbind r f) g = rbind r (\<lambda>x. rbind (f x) g)"
  by (cases r) auto

lemma rbind_cong [fundef_cong]:
  "r = r' \<Longrightarrow> (\<And>x. r' = Inr x \<Longrightarrow> f x = f' x) \<Longrightarrow> rbind r f = rbind r' f'"
  by (cases r') auto

definition rassert :: "bool \<Rightarrow> string \<Rightarrow> unit res" where
  "rassert b msg = (if b then Inr () else Inl (Assertion msg))"

lemma rassert_eq_Inr [res_simps]: "rassert b msg = Inr u \<longleftrightarrow> b"
  by (simp add: rassert_def)

lemma rassert_True [simp]: "rassert True msg = Inr ()"
  by (simp add: rassert_def)

definition rexpect :: "'a option \<Rightarrow> string \<Rightarrow> 'a res" where
  "rexpect v msg = (case v of None \<Rightarrow> Inl (Panic msg) | Some x \<Rightarrow> Inr x)"

lemma rexpect_simps [simp]: "rexpect (Some x) msg = Inr x" "rexpect None msg = Inl (Panic msg)"
  by (simp_all add: rexpect_def)

lemma rexpect_eq_Inr [res_simps]: "rexpect v msg = Inr x \<longleftrightarrow> v = Some x"
  by (cases v) auto

text \<open>A slice access: out of range it panics.\<close>

definition rnth :: "'a list \<Rightarrow> nat \<Rightarrow> 'a res" where
  "rnth xs i = (if i < length xs then Inr (xs ! i) else Inl OutOfRange)"

definition rupdate :: "'a list \<Rightarrow> nat \<Rightarrow> 'a \<Rightarrow> 'a list res" where
  "rupdate xs i x = (if i < length xs then Inr (xs[i := x]) else Inl OutOfRange)"

lemma rnth_eq_Inr [res_simps]: "rnth xs i = Inr x \<longleftrightarrow> i < length xs \<and> x = xs ! i"
  by (auto simp: rnth_def)

lemma rupdate_eq_Inr [res_simps]: "rupdate xs i x = Inr ys \<longleftrightarrow> i < length xs \<and> ys = xs[i := x]"
  by (auto simp: rupdate_def)

text \<open>A call that may also never return, as a plain result.\<close>

definition returns :: "'a res option \<Rightarrow> 'a res" where
  "returns v = (case v of None \<Rightarrow> Inl NoReturn | Some r \<Rightarrow> r)"

lemma returns_simps [simp]: "returns (Some r) = r" "returns None = Inl NoReturn"
  by (simp_all add: returns_def)

lemma returns_eq_Inr [res_simps]: "returns v = Inr x \<longleftrightarrow> v = Some (Inr x)"
  by (cases v) auto

section \<open>Overflow-checked arithmetic\<close>

definition checked_add :: "'a::len word \<Rightarrow> 'a word \<Rightarrow> 'a word res" where
  "checked_add a b = (if unat a + unat b < 2 ^ LENGTH('a) then Inr (a + b) else Inl Overflow)"

definition checked_sub :: "'a::len word \<Rightarrow> 'a word \<Rightarrow> 'a word res" where
  "checked_sub a b = (if b \<le> a then Inr (a - b) else Inl Overflow)"

definition checked_mul :: "'a::len word \<Rightarrow> 'a word \<Rightarrow> 'a word res" where
  "checked_mul a b = (if unat a * unat b < 2 ^ LENGTH('a) then Inr (a * b) else Inl Overflow)"

lemma checked_add_eq_Inr [res_simps]:
  "checked_add (a :: 'a::len word) b = Inr c \<longleftrightarrow> unat a + unat b < 2 ^ LENGTH('a) \<and> c = a + b"
  by (auto simp: checked_add_def)

lemma checked_sub_eq_Inr [res_simps]:
  "checked_sub a b = Inr c \<longleftrightarrow> b \<le> a \<and> c = a - b"
  by (auto simp: checked_sub_def)

lemma checked_mul_eq_Inr [res_simps]:
  "checked_mul (a :: 'a::len word) b = Inr c \<longleftrightarrow> unat a * unat b < 2 ^ LENGTH('a) \<and> c = a * b"
  by (auto simp: checked_mul_def)

lemma unat_add_small [word_unat]:
  "unat a + unat b < 2 ^ LENGTH('a) \<Longrightarrow> unat (a + b :: 'a::len word) = unat a + unat b"
  by (simp add: unat_add_lem)

lemma unat_sub_small [word_unat]:
  "b \<le> a \<Longrightarrow> unat (a - b :: 'a::len word) = unat a - unat b"
  by (rule unat_sub)

lemma unat_mul_small [word_unat]:
  "unat a * unat b < 2 ^ LENGTH('a) \<Longrightarrow> unat (a * b :: 'a::len word) = unat a * unat b"
  by (simp add: unat_mult_lem)

lemma checked_sub_zero [simp]: "checked_sub (a :: 'a::len word) 0 = Inr a"
  by (simp add: checked_sub_def)

lemma checked_add_zero [simp]: "checked_add (a :: 'a::len word) 0 = Inr a"
  by (simp add: checked_add_def)

lemma unat_bound [word_unat]: "unat (w :: 'a::len word) < 2 ^ LENGTH('a)"
  by (rule unsigned_less)

lemma unat_add_one_bound: "(a :: 'a::len word) \<noteq> -1 \<longleftrightarrow> unat a + 1 < 2 ^ LENGTH('a)"
proof -
  have "a = -1 \<longleftrightarrow> unat a = 2 ^ LENGTH('a) - 1"
    by (simp add: word_unat_eq_iff unsigned_minus_1_eq_mask mask_eq_exp_minus_1)
  moreover have "unat a < 2 ^ LENGTH('a)" by (rule unat_bound)
  ultimately show ?thesis by linarith
qed

lemma checked_add_one:
  "checked_add (a :: 'a::len word) 1 = (if a = -1 then Inl Overflow else Inr (a + 1))"
  using unat_add_one_bound [of a] by (auto simp: checked_add_def)

section \<open>Loops\<close>

text \<open>
  \<open>for x in xs { body }\<close>: the state passes from one round to the next, the first panic ends
  the loop.
\<close>

fun rfold :: "('a \<Rightarrow> 's \<Rightarrow> 's res) \<Rightarrow> 'a list \<Rightarrow> 's \<Rightarrow> 's res" where
  "rfold f [] s = Inr s"
| "rfold f (x # xs) s = rbind (f x s) (rfold f xs)"

lemma rfold_append: "rfold f (xs @ ys) s = rbind (rfold f xs s) (rfold f ys)"
  by (induction xs arbitrary: s) (auto simp: res_simps intro!: rbind_cong)

lemma rfold_snoc: "rfold f (xs @ [x]) s = rbind (rfold f xs s) (f x)"
proof -
  have "rfold f [] = Inr" by (rule ext) simp
  moreover have "rbind (f x t) Inr = f x t" for t by (cases "f x t") auto
  ultimately show ?thesis by (auto simp: rfold_append intro!: rbind_cong)
qed

text \<open>An invariant every round keeps holds after the loop, and the loop does not panic.\<close>

lemma rfold_map: "rfold f (map g xs) s = rfold (\<lambda>x. f (g x)) xs s"
  by (induction xs arbitrary: s) (auto intro!: rbind_cong)

lemma rfold_flat: "rfold f (concat xss) s = rfold (rfold f) xss s"
  by (induction xss arbitrary: s) (auto simp: rfold_append intro!: rbind_cong)

lemma rfold_cong_set: "(\<And>x s. x \<in> set xs \<Longrightarrow> f x s = g x s) \<Longrightarrow> rfold f xs s = rfold g xs s"
  by (induction xs arbitrary: s) (auto intro!: rbind_cong)

lemma rfold_total:
  assumes "I s" and "\<And>x s. x \<in> set xs \<Longrightarrow> I s \<Longrightarrow> \<exists>s'. f x s = Inr s' \<and> I s'"
  shows "\<exists>s'. rfold f xs s = Inr s' \<and> I s'"
  using assms
proof (induction xs arbitrary: s)
  case Nil
  then show ?case by simp
next
  case (Cons x xs)
  from Cons.prems(1) Cons.prems(2) [of x s] obtain t where "f x s = Inr t" "I t" by auto
  with Cons.IH [of t] Cons.prems(2) show ?case by auto
qed

lemma rfold_invariant:
  assumes "I s" and "rfold f xs s = Inr s'"
    and "\<And>x s t. x \<in> set xs \<Longrightarrow> I s \<Longrightarrow> f x s = Inr t \<Longrightarrow> I t"
  shows "I s'"
  using assms by (induction xs arbitrary: s) (auto simp: res_simps)

text \<open>A loop whose rounds each append to what a state shows.\<close>

lemma rfold_concat:
  assumes "\<And>x s. x \<in> set xs \<Longrightarrow> \<exists>s'. f x s = Inr s' \<and> view s' = view s @ g x"
  shows "\<exists>s'. rfold f xs s = Inr s' \<and> view s' = view s @ concat (map g xs)"
  using assms
proof (induction xs arbitrary: s)
  case (Cons x xs)
  obtain t where "f x s = Inr t" "view t = view s @ g x" using Cons.prems [of x s] by auto
  with Cons.IH [of t] Cons.prems show ?case by auto
qed simp

text \<open>\<^verbatim>\<open>Iterator::filter\<close> with a closure that may panic.\<close>

fun rfilter :: "('a \<Rightarrow> bool res) \<Rightarrow> 'a list \<Rightarrow> 'a list res" where
  "rfilter p [] = Inr []"
| "rfilter p (x # xs) =
     rbind (p x) (\<lambda>b. rbind (rfilter p xs) (\<lambda>ys. Inr (if b then x # ys else ys)))"

lemma rfilter_eq_Inr:
  "rfilter p xs = Inr ys \<Longrightarrow> ys = filter (\<lambda>x. p x = Inr True) xs \<and> (\<forall>x \<in> set xs. \<exists>b. p x = Inr b)"
  by (induction xs arbitrary: ys) (auto simp: res_simps)

lemma rfilter_pure: "(\<And>x. x \<in> set xs \<Longrightarrow> p x = Inr (q x)) \<Longrightarrow> rfilter p xs = Inr (filter q xs)"
  by (induction xs) auto

text \<open>\<^verbatim>\<open>Iterator::min_by_key\<close>: of several minimal elements the first.\<close>

fun min_by_key :: "('a \<Rightarrow> 'k::linorder) \<Rightarrow> 'a list \<Rightarrow> 'a option" where
  "min_by_key k [] = None"
| "min_by_key k (x # xs) =
     (case min_by_key k xs of None \<Rightarrow> Some x | Some y \<Rightarrow> Some (if k x \<le> k y then x else y))"

lemma min_by_key_None [simp]: "min_by_key k xs = None \<longleftrightarrow> xs = []"
  by (cases xs) (auto split: option.splits)

lemma min_by_key_Some:
  "min_by_key k xs = Some x \<Longrightarrow> x \<in> set xs \<and> (\<forall>y \<in> set xs. k x \<le> k y)"
  by (induction xs arbitrary: x) (auto split: option.splits if_splits)

section \<open>Iterators\<close>

text \<open>
  A Rust iterator is a \<open>next\<close> method on a mutable cursor. \<open>iter_collect\<close> drains it, as a
  \<open>for\<close> loop does; \<open>None\<close> is a loop that never ends. \<open>iter_nth\<close> is \<^verbatim>\<open>Iterator::nth\<close>.
\<close>

partial_function (option) iter_collect ::
  "('it \<Rightarrow> ('a option \<times> 'it) res) \<Rightarrow> 'it \<Rightarrow> 'a list res option" where
  "iter_collect nx it =
     (case nx it of
        Inl e \<Rightarrow> Some (Inl e)
      | Inr (v, it') \<Rightarrow>
          (case v of
             None \<Rightarrow> Some (Inr [])
           | Some x \<Rightarrow>
               Option.bind (iter_collect nx it') (\<lambda>r. Some (rbind r (\<lambda>xs. Inr (x # xs))))))"

fun iter_nth :: "('it \<Rightarrow> ('a option \<times> 'it) res) \<Rightarrow> nat \<Rightarrow> 'it \<Rightarrow> ('a option \<times> 'it) res" where
  "iter_nth nx 0 it = nx it"
| "iter_nth nx (Suc n) it =
     rbind (nx it) (\<lambda>(v, it').
       case v of None \<Rightarrow> Inr (None, it') | Some _ \<Rightarrow> iter_nth nx n it')"

end
