(* ===== verification/Io.thy ===== *)
theory Io
  imports Prelude
begin

text \<open>
  Port and memory-mapped input and output: \<^verbatim>\<open>device/io/cpuio.rs\<close> and \<^verbatim>\<open>device/io/mmio.rs\<close>. The
  devices are outside the program: a run is the trace of the instructions that reach them, and
  the value an \<^verbatim>\<open>in\<close> instruction returns is given by a parameter \<open>hw\<close>, a function of the trace so
  far and the port. Nothing is assumed of \<open>hw\<close> but where a theorem says so.
\<close>

section \<open>Ports\<close>

datatype io_event =
    In8 u16 u8
  | Out8 u16 u8
  | In16 u16 u16
  | Out16 u16 u16
  | In32 u16 u32
  | Out32 u16 u32
  | Cli
  | Sti

type_synonym hw = "io_event list \<Rightarrow> u16 \<Rightarrow> u32"

record io =
  trace :: "io_event list"

definition emit :: "io_event \<Rightarrow> 'a io_scheme \<Rightarrow> 'a io_scheme" where
  "emit e s = s\<lparr>trace := trace s @ [e]\<rparr>"

lemma emit_simps [simp]: "trace (emit e s) = trace s @ [e]" "io.more (emit e s) = io.more s"
  by (simp_all add: emit_def)

definition inb :: "hw \<Rightarrow> u16 \<Rightarrow> 'a io_scheme \<Rightarrow> u8 \<times> 'a io_scheme" where
  "inb hw port s = (let result = ucast (hw (trace s) port) in (result, emit (In8 port result) s))"

definition outb :: "u8 \<Rightarrow> u16 \<Rightarrow> 'a io_scheme \<Rightarrow> 'a io_scheme" where
  "outb v port s = emit (Out8 port v) s"

definition inw :: "hw \<Rightarrow> u16 \<Rightarrow> 'a io_scheme \<Rightarrow> u16 \<times> 'a io_scheme" where
  "inw hw port s = (let result = ucast (hw (trace s) port) in (result, emit (In16 port result) s))"

definition outw :: "u16 \<Rightarrow> u16 \<Rightarrow> 'a io_scheme \<Rightarrow> 'a io_scheme" where
  "outw v port s = emit (Out16 port v) s"

definition inl :: "hw \<Rightarrow> u16 \<Rightarrow> 'a io_scheme \<Rightarrow> u32 \<times> 'a io_scheme" where
  "inl hw port s = (let result = hw (trace s) port in (result, emit (In32 port result) s))"

definition outl :: "u32 \<Rightarrow> u16 \<Rightarrow> 'a io_scheme \<Rightarrow> 'a io_scheme" where
  "outl v port s = emit (Out32 port v) s"

text \<open>\<^verbatim>\<open>InOut\<close>: the instructions of a width, and a port of that width.\<close>

record ('v, 's) InOut =
  port_in :: "hw \<Rightarrow> u16 \<Rightarrow> 's \<Rightarrow> 'v \<times> 's"
  port_out :: "u16 \<Rightarrow> 'v \<Rightarrow> 's \<Rightarrow> 's"

definition u8_InOut :: "(u8, 'a io_scheme) InOut" where
  "u8_InOut = \<lparr>port_in = inb, port_out = (\<lambda>port v. outb v port)\<rparr>"

definition u16_InOut :: "(u16, 'a io_scheme) InOut" where
  "u16_InOut = \<lparr>port_in = inw, port_out = (\<lambda>port v. outw v port)\<rparr>"

definition u32_InOut :: "(u32, 'a io_scheme) InOut" where
  "u32_InOut = \<lparr>port_in = inl, port_out = (\<lambda>port v. outl v port)\<rparr>"

datatype Port = Port (port: u16)

definition port_read :: "('v, 's) InOut \<Rightarrow> hw \<Rightarrow> Port \<Rightarrow> 's \<Rightarrow> 'v \<times> 's" where
  "port_read T hw self = port_in T hw (port self)"

definition port_write :: "('v, 's) InOut \<Rightarrow> Port \<Rightarrow> 'v \<Rightarrow> 's \<Rightarrow> 's" where
  "port_write T self v = port_out T (port self) v"

datatype UnsafePort = UnsafePort (unsafe_port: u16)

definition unsafe_port_read :: "('v, 's) InOut \<Rightarrow> hw \<Rightarrow> UnsafePort \<Rightarrow> 's \<Rightarrow> 'v \<times> 's" where
  "unsafe_port_read T hw self = port_in T hw (unsafe_port self)"

definition unsafe_port_write :: "('v, 's) InOut \<Rightarrow> UnsafePort \<Rightarrow> 'v \<Rightarrow> 's \<Rightarrow> 's" where
  "unsafe_port_write T self v = port_out T (unsafe_port self) v"

definition port8_read :: "hw \<Rightarrow> Port \<Rightarrow> 'a io_scheme \<Rightarrow> u8 \<times> 'a io_scheme" where
  port8_read: "port8_read hw = port_read u8_InOut hw"

definition port8_write :: "Port \<Rightarrow> u8 \<Rightarrow> 'a io_scheme \<Rightarrow> 'a io_scheme" where
  port8_write: "port8_write = port_write u8_InOut"

definition port32_read :: "hw \<Rightarrow> Port \<Rightarrow> 'a io_scheme \<Rightarrow> u32 \<times> 'a io_scheme" where
  port32_read: "port32_read hw = port_read u32_InOut hw"

definition port32_write :: "Port \<Rightarrow> u32 \<Rightarrow> 'a io_scheme \<Rightarrow> 'a io_scheme" where
  port32_write: "port32_write = port_write u32_InOut"

lemma port8_read_def: "port8_read hw p s = inb hw (port p) s"
  and port8_write_def: "port8_write p v s = outb v (port p) s"
  and port32_read_def: "port32_read hw p t = inl hw (port p) t"
  and port32_write_def: "port32_write p w t = outl w (port p) t"
  by (simp_all add: port8_read port8_write port32_read port32_write port_read_def port_write_def u8_InOut_def u32_InOut_def)

lemmas port_defs = port8_read_def port8_write_def port32_read_def port32_write_def inb_def outb_def inl_def outl_def

section \<open>Polling\<close>

text \<open>\<^verbatim>\<open>while c() {}\<close>: a loop that may never end.\<close>

partial_function (option) poll_while :: "('s \<Rightarrow> bool \<times> 's) \<Rightarrow> 's \<Rightarrow> 's option" where
  "poll_while c s = (if fst (c s) then poll_while c (snd (c s)) else Some (snd (c s)))"

definition await :: "('s \<Rightarrow> bool \<times> 's) \<Rightarrow> 's \<Rightarrow> 's res" where
  "await c s = (case poll_while c s of None \<Rightarrow> Inl NoReturn | Some s \<Rightarrow> Inr s)"

lemma await_step: "await c s = (if fst (c s) then await c (snd (c s)) else Inr (snd (c s)))"
  unfolding await_def by (subst poll_while.simps) simp

text \<open>
  A status bit of a port that comes on within \<open>n\<close> accesses, whatever they are: then a loop that
  polls it while it is off returns, and has only read the port.
\<close>

definition comes_on :: "hw \<Rightarrow> u16 \<Rightarrow> nat \<Rightarrow> io_event list \<Rightarrow> nat \<Rightarrow> bool" where
  "comes_on hw p b tr n \<longleftrightarrow> (\<forall>ext. length ext = n \<longrightarrow> (\<exists>k \<le> n. bit (hw (tr @ take k ext) p) b))"

definition reads_of :: "u16 \<Rightarrow> io_event list \<Rightarrow> bool" where
  "reads_of p es \<longleftrightarrow> (\<forall>e \<in> set es. \<exists>v. e = In8 p v)"

lemma comes_on_Suc: "comes_on hw p b tr (Suc n) \<Longrightarrow> \<not> bit (hw tr p) b \<Longrightarrow> comes_on hw p b (tr @ [e]) n"
  unfolding comes_on_def
proof (intro allI impI)
  fix ext :: "io_event list"
  assume c: "\<forall>ext. length ext = Suc n \<longrightarrow> (\<exists>k \<le> Suc n. bit (hw (tr @ take k ext) p) b)"
    and off: "\<not> bit (hw tr p) b" and l: "length ext = n"
  from c l obtain k where k: "k \<le> Suc n" "bit (hw (tr @ take k (e # ext)) p) b" by (metis length_Cons)
  with off obtain j where "k = Suc j" by (cases k) auto
  with k show "\<exists>k \<le> n. bit (hw ((tr @ [e]) @ take k ext) p) b" by auto
qed

lemma await_returns:
  assumes "comes_on hw p b (trace s) n" and "b < 8"
    and c: "\<And>s. c s = (\<not> bit (ucast (hw (trace s) p) :: u8) b, emit (In8 p (ucast (hw (trace s) p))) s)"
  shows "\<exists>s'. await c s = Inr s' \<and> io.more s' = io.more s
     \<and> (\<exists>es. trace s' = trace s @ es \<and> es \<noteq> [] \<and> reads_of p es)"
  using assms(1)
proof (induction n arbitrary: s)
  case 0
  then have "bit (hw (trace s) p) b" by (simp add: comes_on_def)
  with assms(2) have "\<not> fst (c s)" by (simp add: c bit_simps)
  then show ?case by (subst await_step) (auto simp: c reads_of_def)
next
  case (Suc n)
  show ?case
  proof (cases "fst (c s)")
    case False
    then show ?thesis by (subst await_step) (auto simp: c reads_of_def)
  next
    case True
    with assms(2) have off: "\<not> bit (hw (trace s) p) b" by (simp add: c bit_simps)
    let ?e = "In8 p (ucast (hw (trace s) p))"
    have sc: "snd (c s) = emit ?e s" by (simp add: c)
    have "comes_on hw p b (trace (snd (c s))) n" using comes_on_Suc [OF Suc.prems off, of ?e] by (simp add: sc)
    from Suc.IH [OF this] obtain s' es where "await c (snd (c s)) = Inr s'" "io.more s' = io.more (snd (c s))"
      "trace s' = trace (snd (c s)) @ es" "reads_of p es" by blast
    then have "await c s = Inr s'" "io.more s' = io.more s" "trace s' = trace s @ ?e # es" "reads_of p (?e # es)"
      using True by (simp_all add: await_step [of c s] sc reads_of_def)
    then show ?thesis by blast
  qed
qed

section \<open>Writers\<close>

text \<open>
  \<^verbatim>\<open>core::fmt::Write\<close>: a writer takes a string byte by byte. What the bytes mean is the function
  \<open>step\<close> on what the writer's state stands for; a writer that takes one byte as promised takes a
  whole string so.
\<close>

locale byte_writer =
  fixes put :: "u8 \<Rightarrow> 's \<Rightarrow> 's res"
    and view :: "'s \<Rightarrow> 'v \<Rightarrow> bool"
    and step :: "u8 \<Rightarrow> 'v \<Rightarrow> 'v"
  assumes put_step: "view s v \<Longrightarrow> \<exists>s'. put c s = Inr s' \<and> view s' (step c v)"
begin

lemma write_all: "view s v \<Longrightarrow> \<exists>s'. rfold put bytes s = Inr s' \<and> view s' (fold step bytes v)"
proof (induction bytes arbitrary: s v)
  case (Cons c bytes)
  then obtain s1 where "put c s = Inr s1" "view s1 (step c v)" using put_step by blast
  with Cons.IH show ?case by simp
qed simp

end

section \<open>Memory-mapped cells\<close>

datatype 'a Mmio = Mmio (mmio_value: 'a)

definition mmio_read :: "'a::len word Mmio \<Rightarrow> 'a word" where
  "mmio_read m = mmio_value m"

definition mmio_write :: "'a::len word \<Rightarrow> 'a word Mmio \<Rightarrow> 'a word Mmio" where
  "mmio_write v m = Mmio v"

definition mmio_readf :: "'a::len word Mmio \<Rightarrow> 'a word \<Rightarrow> bool" where
  "mmio_readf m flags \<longleftrightarrow> mmio_value m AND flags = flags"

definition mmio_writef :: "'a::len word \<Rightarrow> bool \<Rightarrow> 'a word Mmio \<Rightarrow> 'a word Mmio" where
  "mmio_writef flags v m =
     mmio_write (if v then mmio_read m OR flags else mmio_read m AND NOT flags) m"

text \<open>
  Setting and clearing flags of a memory-mapped register (as long as the register holds what
  was written): after \<^verbatim>\<open>writef(flags, true)\<close> \<^verbatim>\<open>readf(flags)\<close> holds, after \<^verbatim>\<open>writef(flags, false)\<close> it
  holds only for no flags at all, and the bits outside the flags keep their values.
\<close>

theorem mmio_writef_readf:
  "mmio_readf (mmio_writef flags True m) flags
   \<and> (mmio_readf (mmio_writef flags False m) flags \<longleftrightarrow> flags = 0)
   \<and> mmio_read (mmio_writef flags v m) AND NOT flags = mmio_read m AND NOT flags"
proof (intro conjI)
  show "mmio_readf (mmio_writef flags True m) flags"
    unfolding mmio_readf_def mmio_writef_def mmio_write_def
    by (rule bit_word_eqI) (simp add: bit_simps)
  have "(mmio_value m AND NOT flags) AND flags = 0" by (rule bit_word_eqI) (simp add: bit_simps)
  then show "mmio_readf (mmio_writef flags False m) flags \<longleftrightarrow> flags = 0"
    by (auto simp: mmio_readf_def mmio_writef_def mmio_write_def mmio_read_def)
  show "mmio_read (mmio_writef flags v m) AND NOT flags = mmio_read m AND NOT flags"
    unfolding mmio_writef_def mmio_write_def mmio_read_def
    by (rule bit_word_eqI) (auto simp: bit_simps)
qed

end
