(* ===== verification/Serial.thy ===== *)
theory Serial
  imports Io
begin

text \<open>
  The serial port of \<^verbatim>\<open>device/serial.rs\<close>: its registers, set-up, and reading and writing of bytes by
  polling the line status. The port is an instance of \<open>byte_writer\<close>: under \<open>serial_ready\<close> it takes a
  string byte by byte, and \<open>serial_only\<close> says that it accesses nothing else meanwhile.
\<close>

section \<open>The serial port\<close>

datatype Register =
    DataOrBaudLsb | IntEnableOrMsb | InterruptIdentAndFifo | LineControl
  | ModemControl | LineStatus | ModemStatus | Scratch

fun register_number :: "Register \<Rightarrow> u16" where
  "register_number DataOrBaudLsb = 0"
| "register_number IntEnableOrMsb = 1"
| "register_number InterruptIdentAndFifo = 2"
| "register_number LineControl = 3"
| "register_number ModemControl = 4"
| "register_number LineStatus = 5"
| "register_number ModemStatus = 6"
| "register_number Scratch = 7"

record SerialPort =
  base :: u16
  is_initialized :: bool

definition serial_new :: "u16 \<Rightarrow> SerialPort" where
  "serial_new b = \<lparr>base = b, is_initialized = False\<rparr>"

definition COM1 :: SerialPort where
  "COM1 = serial_new 0x3f8"

definition serial_port :: "SerialPort \<Rightarrow> Register \<Rightarrow> Port res" where
  "serial_port self register =
     rbind (checked_add (base self) (register_number register)) (\<lambda>n. Inr (Port n))"

definition serial_out :: "SerialPort \<Rightarrow> Register \<Rightarrow> u8 \<Rightarrow> 'a io_scheme \<Rightarrow> 'a io_scheme res" where
  "serial_out self register v s = rbind (serial_port self register) (\<lambda>p. Inr (port8_write p v s))"

definition serial_do_init :: "SerialPort \<Rightarrow> 'a io_scheme \<Rightarrow> (SerialPort \<times> 'a io_scheme) res" where
  "serial_do_init self s =
     (if is_initialized self = True then Inr (self, s)
      else
        let self = self\<lparr>is_initialized := True\<rparr> in
        rbind (serial_out self IntEnableOrMsb 0x00 s) (\<lambda>s.
        rbind (serial_out self LineControl 0x80 s) (\<lambda>s.
        rbind (serial_out self DataOrBaudLsb 0x02 s) (\<lambda>s.
        rbind (serial_out self IntEnableOrMsb 0x00 s) (\<lambda>s.
        rbind (serial_out self LineControl 0x03 s) (\<lambda>s.
        rbind (serial_out self InterruptIdentAndFifo 0xc7 s) (\<lambda>s.
        rbind (serial_out self ModemControl 0x0b s) (\<lambda>s.
        Inr (self, s)))))))))"

definition serial_read :: "hw \<Rightarrow> SerialPort \<Rightarrow> 'a io_scheme \<Rightarrow> (u8 \<times> 'a io_scheme) res" where
  "serial_read hw self s =
     rbind (serial_port self LineStatus) (\<lambda>status.
     rbind (await (\<lambda>s. let (v, s) = port8_read hw status s in (v AND 1 = 0, s)) s) (\<lambda>s.
     rbind (serial_port self DataOrBaudLsb) (\<lambda>data.
     Inr (port8_read hw data s))))"

definition serial_write :: "hw \<Rightarrow> SerialPort \<Rightarrow> u8 \<Rightarrow> 'a io_scheme \<Rightarrow> 'a io_scheme res" where
  "serial_write hw self data s =
     rbind (serial_port self LineStatus) (\<lambda>status.
     rbind (await (\<lambda>s. let (v, s) = port8_read hw status s in (v AND 0x20 = 0, s)) s) (\<lambda>s.
     serial_out self DataOrBaudLsb data s))"

text \<open>\<^verbatim>\<open>write_str\<close> goes through the bytes of the string.\<close>

definition serial_write_str :: "hw \<Rightarrow> SerialPort \<Rightarrow> u8 list \<Rightarrow> 'a io_scheme \<Rightarrow> 'a io_scheme res" where
  "serial_write_str hw self bytes s = rfold (serial_write hw self) bytes s"

section \<open>Facts about the port\<close>

lemma port8_write_trace [simp]: "trace (port8_write p v s) = trace s @ [Out8 (port p) v]"
  "io.more (port8_write p v s) = io.more s"
  by (simp_all add: port_defs)

lemma and_bit_8: "(v :: u8) AND 1 = 0 \<longleftrightarrow> \<not> bit v 0" "v AND 2 = 0 \<longleftrightarrow> \<not> bit v 1" "v AND 0x20 = 0 \<longleftrightarrow> \<not> bit v 5"
proof -
  have b: "v AND push_bit n 1 = 0 \<longleftrightarrow> \<not> bit v n" if "n < 8" for n
  proof
    assume "v AND push_bit n 1 = 0"
    then have "\<not> bit (v AND push_bit n 1) n" by simp
    with that show "\<not> bit v n" by (simp add: bit_simps)
  next
    assume "\<not> bit v n"
    then show "v AND push_bit n 1 = 0" by (intro bit_word_eqI) (auto simp: bit_simps)
  qed
  show "v AND 1 = 0 \<longleftrightarrow> \<not> bit v 0" "v AND 2 = 0 \<longleftrightarrow> \<not> bit v 1" "v AND 0x20 = 0 \<longleftrightarrow> \<not> bit v 5"
    using b [of 0] b [of 1] b [of 5] by simp_all
qed

text \<open>The bytes a trace sends to a port.\<close>

fun sent :: "u16 \<Rightarrow> io_event list \<Rightarrow> u8 list" where
  "sent p [] = []"
| "sent p (Out8 q v # es) = (if q = p then v # sent p es else sent p es)"
| "sent p (e # es) = sent p es"

lemma sent_append: "sent p (es @ es') = sent p es @ sent p es'"
  by (induction p es rule: sent.induct) auto

lemma sent_reads: "reads_of q es \<Longrightarrow> sent p es = []"
  by (induction p es rule: sent.induct) (auto simp: reads_of_def)

lemma serial_write_ok:
  assumes "unat (base self) + 5 < 2 ^ 16" and "\<And>tr. \<exists>n. comes_on hw (base self + 5) 5 tr n"
  shows "\<exists>s'. serial_write hw self v s = Inr s' \<and> io.more s' = io.more s
     \<and> (\<exists>es. trace s' = trace s @ es @ [Out8 (base self) v] \<and> reads_of (base self + 5) es)"
proof -
  have p: "serial_port self LineStatus = Inr (Port (base self + 5))" "serial_port self DataOrBaudLsb = Inr (Port (base self))"
    using assms(1) by (simp_all add: serial_port_def checked_add_def)
  obtain n where n: "comes_on hw (base self + 5) 5 (trace s) n" using assms(2) by blast
  obtain s1 es where s1: "await (\<lambda>s. let (v, s) = port8_read hw (Port (base self + 5)) s in (v AND 0x20 = 0, s)) s = Inr s1"
    "io.more s1 = io.more s" "trace s1 = trace s @ es" "reads_of (base self + 5) es"
    using await_returns [OF n, of "\<lambda>s. let (v, s) = port8_read hw (Port (base self + 5)) s in (v AND 0x20 = 0, s)"]
    by (auto simp: port_defs Let_def and_bit_8)
  then show ?thesis
    using p by (intro exI [of _ "port8_write (Port (base self)) v s1"]) (auto simp: serial_write_def serial_out_def)
qed

text \<open>
  The serial port as a writer: it stands for the bytes it sent. The transmitter is expected to
  become empty again after every byte.
\<close>

definition serial_ready :: "hw \<Rightarrow> SerialPort \<Rightarrow> bool" where
  "serial_ready hw self \<longleftrightarrow> unat (base self) + 5 < 2 ^ 16 \<and> (\<forall>tr. \<exists>n. comes_on hw (base self + 5) 5 tr n)"

text \<open>A stretch of a trace that only polls the status of the port and sends bytes to it.\<close>

definition serial_only :: "u16 \<Rightarrow> io_event list \<Rightarrow> bool" where
  "serial_only b es \<longleftrightarrow> (\<forall>e \<in> set es. \<exists>v. e = In8 (b + 5) v \<or> e = Out8 b v)"

lemma serial_only_simps [simp]:
  "serial_only b []" "serial_only b (es @ es') \<longleftrightarrow> serial_only b es \<and> serial_only b es'"
  "serial_only b (Out8 b v # es) \<longleftrightarrow> serial_only b es"
  by (auto simp: serial_only_def)

lemma reads_serial_only: "reads_of (b + 5) es \<Longrightarrow> serial_only b es"
  by (auto simp: reads_of_def serial_only_def)

lemma sent_serial_only: "serial_only b es \<Longrightarrow> p \<noteq> b \<Longrightarrow> sent p es = []"
  by (induction p es rule: sent.induct) (auto simp: serial_only_def)

definition serial_view :: "hw \<Rightarrow> SerialPort \<Rightarrow> 'a io_scheme \<Rightarrow> 'a io_scheme \<Rightarrow> u8 list \<Rightarrow> bool" where
  "serial_view hw self s0 s v \<longleftrightarrow> serial_ready hw self \<and> io.more s = io.more s0
     \<and> (\<exists>es. trace s = trace s0 @ es \<and> serial_only (base self) es \<and> sent (base self) es = v)"

interpretation serial_writer: byte_writer "serial_write hw self" "serial_view hw self s0" "\<lambda>c v. v @ [c]" for hw self s0
proof
  fix s and v and c :: u8
  assume v: "serial_view hw self s0 s v"
  then have r: "unat (base self) + 5 < 2 ^ 16" "\<And>tr. \<exists>n. comes_on hw (base self + 5) 5 tr n"
    by (simp_all add: serial_view_def serial_ready_def)
  from v obtain es0 where 0: "trace s = trace s0 @ es0" "serial_only (base self) es0" "sent (base self) es0 = v" by (auto simp: serial_view_def)
  from serial_write_ok [OF r, of c s] obtain s' es where
    s': "serial_write hw self c s = Inr s'" "io.more s' = io.more s"
      "trace s' = trace s @ es @ [Out8 (base self) c]" "reads_of (base self + 5) es" by auto
  then have "trace s' = trace s0 @ (es0 @ es @ [Out8 (base self) c]) \<and> serial_only (base self) (es0 @ es @ [Out8 (base self) c])
      \<and> sent (base self) (es0 @ es @ [Out8 (base self) c]) = v @ [c]"
    using 0 by (simp add: sent_append sent_reads reads_serial_only)
  with s' v show "\<exists>s'. serial_write hw self c s = Inr s' \<and> serial_view hw self s0 s' (v @ [c])"
    unfolding serial_view_def by metis
qed

lemma fold_snoc: "fold (\<lambda>c v. v @ [c]) bytes v = v @ bytes"
  by (induction bytes arbitrary: v) auto

lemma serial_write_str_ok:
  assumes "serial_ready hw self"
  shows "\<exists>s' es. serial_write_str hw self bytes s = Inr s' \<and> trace s' = trace s @ es \<and> sent (base self) es = bytes
     \<and> serial_only (base self) es \<and> io.more s' = io.more s"
proof -
  have "serial_view hw self s s []" using assms by (auto simp: serial_view_def)
  from serial_writer.write_all [OF this, of bytes] show ?thesis
    by (auto simp: serial_write_str_def serial_view_def fold_snoc)
qed

text \<open>The byte a port was last sent: the mask a controller holds behind its data port.\<close>

definition last_sent :: "u16 \<Rightarrow> u8 \<Rightarrow> io_event list \<Rightarrow> u8" where
  "last_sent p v0 es = last (v0 # sent p es)"

lemma last_sent_append: "last_sent p v0 (es @ es') = last_sent p (last_sent p v0 es) es'"
  by (simp add: last_sent_def sent_append last_append)

section \<open>Properties\<close>

text \<open>
  A string written to the serial port is sent completely and in order: when the transmitter
  becomes empty again after every byte, \<^verbatim>\<open>write_str\<close> returns and exactly the bytes of the string
  were written to the data register.
\<close>

theorem serial_write_str_sends:
  assumes "unat (base self) + 5 < 2 ^ 16" and "\<forall>tr. \<exists>n. comes_on hw (base self + 5) 5 tr n"
  shows "\<exists>s' es. serial_write_str hw self bytes s = Inr s' \<and> trace s' = trace s @ es \<and> sent (base self) es = bytes
     \<and> io.more s' = io.more s"
  using serial_write_str_ok [of hw self bytes s] assms by (auto simp: serial_ready_def)

theorem serial_write_str_sends_witness:
  "\<exists>s' es. serial_write_str (\<lambda>tr p. 0x20) COM1 [0x48, 0x69] \<lparr>trace = []\<rparr> = Inr s' \<and> trace s' = es
     \<and> sent 0x3f8 es = [0x48, 0x69]"
proof -
  have "comes_on (\<lambda>tr p. 0x20) p 5 tr 0" for p tr by (simp add: comes_on_def)
  then show ?thesis
    using serial_write_str_sends [of COM1 "\<lambda>tr p. 0x20" "[0x48, 0x69]" "\<lparr>trace = []\<rparr>"]
    by (force simp: COM1_def serial_new_def)
qed


end
