(* ===== verification/Log.thy ===== *)
theory Log
  imports Serial
begin

text \<open>
  Messages: the macros \<^verbatim>\<open>print!\<close> and \<^verbatim>\<open>println!\<close> of \<^verbatim>\<open>macros.rs\<close>, which send formatted text to the first
  serial port, the formatting of numbers the messages use (\<^verbatim>\<open>{}\<close>, \<^verbatim>\<open>{:x}\<close>, \<^verbatim>\<open>{:#x}\<close> and widths with zeros), and
  the entry points of a panic in \<^verbatim>\<open>runtime_glue.rs\<close>. A text is a \<open>string\<close>, its bytes are its
  characters: every literal of the program is ASCII.
\<close>

section \<open>Formatting\<close>

definition digit :: "nat \<Rightarrow> char" where
  "digit d = char_of (if d < 10 then 48 + d else 87 + d)"

text \<open>The digits of a number to a base, without leading zeros.\<close>

fun number_text :: "nat \<Rightarrow> nat \<Rightarrow> string" where
  "number_text b n = (if b < 2 \<or> n < b then [digit n] else number_text b (n div b) @ [digit (n mod b)])"

declare number_text.simps [simp del]

lemma number_text_eval:
  "n < b \<Longrightarrow> number_text b n = [digit n]"
  "2 \<le> b \<Longrightarrow> b \<le> n \<Longrightarrow> number_text b n = number_text b (n div b) @ [digit (n mod b)]"
  by (simp_all add: number_text.simps [of b n])

lemma digit_eval:
  "digit 0 = CHR ''0''" "digit (Suc 0) = CHR ''1''" "digit 2 = CHR ''2''" "digit 3 = CHR ''3''"
  "digit 4 = CHR ''4''" "digit 5 = CHR ''5''" "digit 6 = CHR ''6''" "digit 7 = CHR ''7''"
  "digit 8 = CHR ''8''" "digit 9 = CHR ''9''" "digit 10 = CHR ''a''" "digit 11 = CHR ''b''"
  "digit 12 = CHR ''c''" "digit 13 = CHR ''d''" "digit 14 = CHR ''e''" "digit 15 = CHR ''f''"
  by (simp_all add: digit_def char_of_def bit_0)

definition fmt_display :: "'a::len word \<Rightarrow> string" where
  "fmt_display w = number_text 10 (unat w)"

definition fmt_lower_hex :: "'a::len word \<Rightarrow> string" where
  "fmt_lower_hex w = number_text 16 (unat w)"

definition fmt_alternate_hex :: "'a::len word \<Rightarrow> string" where
  "fmt_alternate_hex w = ''0x'' @ fmt_lower_hex w"

definition fmt_padded_hex :: "nat \<Rightarrow> 'a::len word \<Rightarrow> string" where
  "fmt_padded_hex width w =
     (let t = fmt_lower_hex w in replicate (width - length t) (CHR ''0'') @ t)"

section \<open>Printing\<close>

definition bytes_of :: "string \<Rightarrow> u8 list" where
  "bytes_of text = map of_char text"

definition newline :: char where "newline = CHR 0x0A"

definition print :: "hw \<Rightarrow> string \<Rightarrow> 'a io_scheme \<Rightarrow> 'a io_scheme res" where
  "print hw text s = serial_write_str hw COM1 (bytes_of text) s"

definition println :: "hw \<Rightarrow> string \<Rightarrow> 'a io_scheme \<Rightarrow> 'a io_scheme res" where
  "println hw text s = print hw (text @ [newline]) s"

section \<open>Panics\<close>

text \<open>
  \<^verbatim>\<open>panic_fmt\<close> is given the formatted message of the panic with its place. It prints and spins.
\<close>

definition panic_fmt :: "hw \<Rightarrow> string \<Rightarrow> string \<Rightarrow> u32 \<Rightarrow> 'a io_scheme \<Rightarrow> unit res" where
  "panic_fmt hw fmt file line s =
     rbind (println hw ([newline, newline] @ ''PANIC in '' @ file @ '' at line '' @ fmt_display line @ '':'') s) (\<lambda>s.
     rbind (println hw (''    '' @ fmt) s) (\<lambda>s.
     Inl NoReturn))"

definition eh_personality :: "'a io_scheme \<Rightarrow> 'a io_scheme" where
  "eh_personality s = s"

definition Unwind_Resume :: "'a io_scheme \<Rightarrow> unit res" where
  "Unwind_Resume s = Inl NoReturn"

section \<open>What printing does\<close>

lemma base_COM1 [simp]: "base COM1 = 0x3f8"
  by (simp add: COM1_def serial_new_def)

lemma bytes_of_append [simp]: "bytes_of (t @ t') = bytes_of t @ bytes_of t'" "bytes_of [] = []"
  by (simp_all add: bytes_of_def)

lemma io_trace_eq: "io.more s' = io.more s \<Longrightarrow> trace s' = t \<Longrightarrow> s' = s\<lparr>trace := t\<rparr>"
  by (cases s, cases s') simp

text \<open>The state after some lines were printed: only the trace grew, and the lines were sent.\<close>

definition lines :: "string list \<Rightarrow> u8 list" where
  "lines msgs = concat (map (\<lambda>m. bytes_of m @ [0x0A]) msgs)"

definition logged :: "string list \<Rightarrow> 'a io_scheme \<Rightarrow> 'a io_scheme \<Rightarrow> bool" where
  "logged msgs s s' \<longleftrightarrow> (\<exists>es. s' = s\<lparr>trace := trace s @ es\<rparr> \<and> serial_only 0x3f8 es \<and> sent 0x3f8 es = lines msgs)"

lemma lines_simps [simp]: "lines [] = []" "lines (m # ms) = bytes_of m @ 0x0A # lines ms" "lines (ms @ ms') = lines ms @ lines ms'"
  by (simp_all add: lines_def)

lemma println_ok:
  assumes "serial_ready hw COM1"
  obtains s' where "println hw m s = Inr s'" "logged [m] s s'"
proof -
  obtain s' es where s': "println hw m s = Inr s'" "trace s' = trace s @ es" "sent 0x3f8 es = bytes_of (m @ [newline])"
    "serial_only 0x3f8 es" "io.more s' = io.more s"
    using serial_write_str_ok [OF assms, of "bytes_of (m @ [newline])" s] by (auto simp: println_def print_def)
  have "sent 0x3f8 es = lines [m]" using s'(3) by (simp add: newline_def bytes_of_def)
  then have "logged [m] s s'" unfolding logged_def using s' io_trace_eq by blast
  with s'(1) show ?thesis by (rule that)
qed

lemma logged_refl [simp]: "logged [] s s"
  by (auto simp: logged_def intro: exI [of _ "[]"])

lemma logged_trans: "logged ms s s1 \<Longrightarrow> logged ms' s1 s2 \<Longrightarrow> logged (ms @ ms') s s2"
  by (fastforce simp: logged_def sent_append)

lemma logged_more: "logged ms s s' \<Longrightarrow> io.more s' = io.more s"
  by (auto simp: logged_def)

lemma logged_trace:
  assumes "logged ms s s'"
  obtains es where "trace s' = trace s @ es" "serial_only 0x3f8 es" "sent 0x3f8 es = lines ms"
  using assms by (auto simp: logged_def)

text \<open>The same without the lines.\<close>

definition printed :: "'a io_scheme \<Rightarrow> 'a io_scheme \<Rightarrow> bool" where
  "printed s s' \<longleftrightarrow> (\<exists>msgs. logged msgs s s')"

lemma printed_refl [simp]: "printed s s"
  unfolding printed_def by (rule exI [of _ "[]"]) simp

lemma printed_trans: "printed s s1 \<Longrightarrow> printed s1 s2 \<Longrightarrow> printed s s2"
  unfolding printed_def using logged_trans by blast

lemma printed_more: "printed s s' \<Longrightarrow> io.more s' = io.more s"
  by (auto simp: printed_def logged_more)

lemma println_printed:
  assumes "serial_ready hw COM1"
  obtains s' where "println hw m s = Inr s'" "printed s s'"
  using println_ok [OF assms] unfolding printed_def by metis

lemma rfold_printed:
  assumes "\<And>x s. x \<in> set xs \<Longrightarrow> \<exists>s'. f x s = Inr s' \<and> printed s s'"
  shows "\<exists>s'. rfold f xs s = Inr s' \<and> printed s s'"
  using assms
proof (induction xs arbitrary: s)
  case (Cons x xs)
  from Cons.prems [of x s] obtain s1 where s1: "f x s = Inr s1" "printed s s1" by auto
  from Cons.IH [of s1] Cons.prems obtain s' where "rfold f xs s1 = Inr s'" "printed s1 s'" by auto
  with s1 show ?case using printed_trans by auto
qed simp

lemma last_sent_logged: "logged ms s s' \<Longrightarrow> p \<noteq> 0x3f8 \<Longrightarrow> last_sent p v0 (trace s') = last_sent p v0 (trace s)"
  by (auto simp: logged_def last_sent_def sent_append sent_serial_only)

text \<open>Printing never panics: it returns, or it waits for ever for the transmitter.\<close>

lemma serial_write_stops: "serial_write hw COM1 v s = Inl e \<Longrightarrow> e = NoReturn"
  by (auto simp: serial_write_def serial_out_def serial_port_def COM1_def serial_new_def checked_add_def await_def
      res_simps split: option.splits)

lemma print_stops: "print hw t s = Inl e \<Longrightarrow> e = NoReturn"
proof -
  have "rfold (serial_write hw COM1) bs s = Inl e \<Longrightarrow> e = NoReturn" for bs
    by (induction bs arbitrary: s) (auto simp: rbind_def split: sum.splits dest: serial_write_stops)
  then show "print hw t s = Inl e \<Longrightarrow> e = NoReturn" by (simp add: print_def serial_write_str_def)
qed

lemma println_then_spin: "rbind (println hw t s) (\<lambda>s. Inl NoReturn) = Inl NoReturn"
  using print_stops by (cases "println hw t s") (auto simp: println_def)

section \<open>Numbers as text\<close>

definition digit_value :: "char \<Rightarrow> nat" where
  "digit_value c = (if of_char c < (58 :: nat) then of_char c - 48 else of_char c - 87)"

definition number_value :: "nat \<Rightarrow> string \<Rightarrow> nat" where
  "number_value b t = fold (\<lambda>c v. v * b + digit_value c) t 0"

lemma digit_value_digit: "d < 16 \<Longrightarrow> digit_value (digit d) = d"
  by (auto simp: digit_value_def digit_def of_char_of)

lemma number_value_text:
  assumes "2 \<le> b" and "b \<le> 16"
  shows "number_value b (number_text b n) = n"
proof (induction n rule: less_induct)
  case (less n)
  show ?case
  proof (cases "n < b")
    case True
    with assms show ?thesis by (simp add: number_text.simps number_value_def digit_value_digit)
  next
    case False
    with assms less.IH [of "n div b"] have "number_value b (number_text b (n div b)) = n div b" by simp
    moreover have "n mod b < 16" using assms mod_less_divisor [of b n] by linarith
    ultimately show ?thesis
      using False assms by (simp add: number_text.simps [of b n] number_value_def digit_value_digit)
  qed
qed

lemma number_value_zeros: "number_value b (replicate k (CHR ''0'') @ t) = number_value b t"
  by (induction k) (simp_all add: number_value_def digit_value_def)

section \<open>Properties\<close>

text \<open>
  Numbers in messages can be read back: the decimal text of a word, its hexadecimal text behind
  \<^verbatim>\<open>0x\<close> and its hexadecimal text filled with zeros each give the word's value, and the filled text has
  at least the width asked for.
\<close>

theorem number_text_roundtrip:
  "number_value 10 (fmt_display w) = unat w \<and> take 2 (fmt_alternate_hex w) = ''0x''
     \<and> number_value 16 (drop 2 (fmt_alternate_hex w)) = unat w
     \<and> number_value 16 (fmt_padded_hex k w) = unat w \<and> k \<le> length (fmt_padded_hex k w)"
  by (simp add: fmt_display_def fmt_alternate_hex_def fmt_padded_hex_def fmt_lower_hex_def number_value_text
      number_value_zeros Let_def)

text \<open>
  A panic is reported: with the serial port ready, \<^verbatim>\<open>panic_fmt\<close> sends the place of the panic and its
  message as two lines, the first after two empty ones, and accesses nothing but the serial port; then
  it spins for ever.
\<close>

theorem panic_fmt_reports:
  assumes "serial_ready hw COM1"
  shows "panic_fmt hw msg file line s = Inl NoReturn
     \<and> (\<exists>s1 s2. println hw ([newline, newline] @ ''PANIC in '' @ file @ '' at line '' @ fmt_display line @ '':'') s = Inr s1
          \<and> println hw (''    '' @ msg) s1 = Inr s2
          \<and> logged [[newline, newline] @ ''PANIC in '' @ file @ '' at line '' @ fmt_display line @ '':'', ''    '' @ msg] s s2)"
proof -
  let ?l1 = "[newline, newline] @ ''PANIC in '' @ file @ '' at line '' @ fmt_display line @ '':''"
  obtain s1 where 1: "println hw ?l1 s = Inr s1" "logged [?l1] s s1" by (rule println_ok [OF assms])
  obtain s2 where 2: "println hw (''    '' @ msg) s1 = Inr s2" "logged [''    '' @ msg] s1 s2"
    by (rule println_ok [OF assms])
  have "logged [?l1, ''    '' @ msg] s s2" using logged_trans [OF 1(2) 2(2)] by simp
  moreover have "panic_fmt hw msg file line s = Inl NoReturn"
    unfolding panic_fmt_def 1(1) by (simp add: println_then_spin)
  ultimately show ?thesis using 1(1) 2(1) by blast
qed

lemma example_serial_ready: "serial_ready (\<lambda>tr p. 0x20) COM1"
  by (auto simp: serial_ready_def comes_on_def)

theorem panic_fmt_reports_witness:
  "\<exists>s2. logged [[newline, newline] @ ''PANIC in '' @ ''a.rs'' @ '' at line '' @ fmt_display (7 :: u32) @ '':'', ''    stop!''] \<lparr>trace = []\<rparr> s2
     \<and> panic_fmt (\<lambda>tr p. 0x20) ''stop!'' ''a.rs'' 7 \<lparr>trace = []\<rparr> = Inl NoReturn"
  using panic_fmt_reports [OF example_serial_ready, of "''stop!''" "''a.rs''" 7 "\<lparr>trace = []\<rparr>"] by auto

end
