(* ===== verification/Devices.thy ===== *)
theory Devices
  imports Log
begin

text \<open>
  The legacy devices the kernel drives through ports: the pair of 8259 interrupt controllers
  (\<^verbatim>\<open>device/pic.rs\<close>), the timer (\<^verbatim>\<open>device/pit.rs\<close>) and the 8042 keyboard controller
  (\<^verbatim>\<open>device/ps2_8042.rs\<close>). An operation is the sequence of accesses it makes, those of its messages
  to the serial port included.
\<close>

section \<open>The interrupt controllers\<close>

definition CMD_INIT :: u8 where "CMD_INIT = 0x11"
definition CMD_END_OF_INTERRUPT :: u8 where "CMD_END_OF_INTERRUPT = 0x20"
definition MODE_8086 :: u8 where "MODE_8086 = 0x01"

record Pic =
  pic_offset :: u8
  pic_command :: Port
  pic_data :: Port

record ChainedPics =
  pic0 :: Pic
  pic1 :: Pic

definition chained_pics_new :: "u8 \<Rightarrow> u8 \<Rightarrow> ChainedPics" where
  "chained_pics_new offset1 offset2 =
     \<lparr>pic0 = \<lparr>pic_offset = offset1, pic_command = Port 0x20, pic_data = Port 0x21\<rparr>,
      pic1 = \<lparr>pic_offset = offset2, pic_command = Port 0xA0, pic_data = Port 0xA1\<rparr>\<rparr>"

definition PICS :: ChainedPics where
  "PICS = chained_pics_new 0x20 0x28"

definition pic_handles_interrupt :: "Pic \<Rightarrow> u8 \<Rightarrow> bool res" where
  "pic_handles_interrupt self interrupt_id =
     (if pic_offset self \<le> interrupt_id
      then rbind (checked_add (pic_offset self) 8) (\<lambda>e. Inr (interrupt_id < e))
      else Inr False)"

definition pic_end_of_interrupt :: "Pic \<Rightarrow> 'a io_scheme \<Rightarrow> 'a io_scheme" where
  "pic_end_of_interrupt self s = port8_write (pic_command self) CMD_END_OF_INTERRUPT s"

definition pic_wait :: "'a io_scheme \<Rightarrow> 'a io_scheme" where
  "pic_wait s = port8_write (Port 0x80) 0 s"

definition pics_init :: "hw \<Rightarrow> ChainedPics \<Rightarrow> 'a io_scheme \<Rightarrow> 'a io_scheme res" where
  "pics_init hw self s =
     (let s = port8_write (pic_command (pic0 self)) CMD_INIT s;
          s = pic_wait s;
          s = port8_write (pic_command (pic1 self)) CMD_INIT s;
          s = pic_wait s;
          s = port8_write (pic_data (pic0 self)) (pic_offset (pic0 self)) s;
          s = pic_wait s;
          s = port8_write (pic_data (pic1 self)) (pic_offset (pic1 self)) s;
          s = pic_wait s;
          s = port8_write (pic_data (pic0 self)) 4 s;
          s = pic_wait s;
          s = port8_write (pic_data (pic1 self)) 2 s;
          s = pic_wait s;
          s = port8_write (pic_data (pic0 self)) MODE_8086 s;
          s = pic_wait s;
          s = port8_write (pic_data (pic1 self)) MODE_8086 s in
      rbind (println hw ''[ dev ] Initialised master and slave 8259 PICs.'' s) (\<lambda>s.
      rbind (println hw (''[ dev ] PIC0 has vector offset: '' @ fmt_alternate_hex (pic_offset (pic0 self))) s) (\<lambda>s.
      println hw (''[ dev ] PIC1 has vector offset: '' @ fmt_alternate_hex (pic_offset (pic1 self))) s)))"

definition pics_handles_interrupt :: "ChainedPics \<Rightarrow> u8 \<Rightarrow> bool res" where
  "pics_handles_interrupt self interrupt_id =
     rbind (pic_handles_interrupt (pic0 self) interrupt_id) (\<lambda>b.
     if b then Inr True else pic_handles_interrupt (pic1 self) interrupt_id)"

definition notify_end_of_interrupt :: "ChainedPics \<Rightarrow> u8 \<Rightarrow> 'a io_scheme \<Rightarrow> 'a io_scheme res" where
  "notify_end_of_interrupt self interrupt_id s =
     rbind (pics_handles_interrupt self interrupt_id) (\<lambda>b.
     if b then
       rbind (pic_handles_interrupt (pic1 self) interrupt_id) (\<lambda>b1.
       let s = (if b1 then pic_end_of_interrupt (pic1 self) s else s) in
       Inr (pic_end_of_interrupt (pic0 self) s))
     else Inr s)"

definition disable_8259_pic :: "ChainedPics \<Rightarrow> 'a io_scheme \<Rightarrow> 'a io_scheme" where
  "disable_8259_pic self s =
     (let s = port8_write (pic_data (pic0 self)) 0xff s in port8_write (pic_data (pic1 self)) 0xff s)"

section \<open>The timer\<close>

definition PIT_SET :: u8 where "PIT_SET = 0x36"
definition DIVISOR :: u16 where "DIVISOR = 2685"

definition pit_init :: "hw \<Rightarrow> 'a io_scheme \<Rightarrow> 'a io_scheme res" where
  "pit_init hw s =
     rbind (println hw ''[ dev ] Setting pit mode.'' s) (\<lambda>s.
     let s = port8_write (Port 0x43) PIT_SET s in
     rbind (println hw ''[ dev ] Setting up frequency.'' s) (\<lambda>s.
     let s = port8_write (Port 0x40) (ucast (DIVISOR AND 0xFF)) s;
         s = port8_write (Port 0x40) (ucast (drop_bit 8 DIVISOR)) s;
         frequency = (1193182 div 2685 :: u32);
         irq0_int_timeout = (let val = 1 div frequency in val * 1000) in
     println hw (''[ dev ] Initialising PIT, setup to interrupt every '' @ fmt_display irq0_int_timeout @ '' ms'') s))"

section \<open>The keyboard controller\<close>

record Ps2 =
  ps2_controller :: Port
  ps2_device :: Port

definition ps2_new :: "u16 \<Rightarrow> u16 \<Rightarrow> Ps2" where
  "ps2_new controller device = \<lparr>ps2_controller = Port controller, ps2_device = Port device\<rparr>"

definition PS2 :: Ps2 where
  "PS2 = ps2_new 0x64 0x60"

definition ps2_wait_then_read :: "hw \<Rightarrow> Ps2 \<Rightarrow> 'a io_scheme \<Rightarrow> (u8 \<times> 'a io_scheme) res" where
  "ps2_wait_then_read hw self s =
     rbind (await (\<lambda>s. let (v, s) = port8_read hw (ps2_controller self) s in (v AND 0x1 = 0, s)) s) (\<lambda>s.
     Inr (port8_read hw (ps2_device self) s))"

definition ps2_wait_then_write :: "hw \<Rightarrow> Ps2 \<Rightarrow> u8 \<Rightarrow> 'a io_scheme \<Rightarrow> 'a io_scheme res" where
  "ps2_wait_then_write hw self data s =
     rbind (await (\<lambda>s. let (v, s) = port8_read hw (ps2_controller self) s in (v AND 0x2 = 1, s)) s) (\<lambda>s.
     Inr (port8_write (ps2_device self) data s))"

definition ps2_init :: "hw \<Rightarrow> Ps2 \<Rightarrow> 'a io_scheme \<Rightarrow> 'a io_scheme res" where
  "ps2_init hw self s =
     rbind (println hw ''[ dev ] Initialising PS/2 8042 controller.'' s) (\<lambda>s.
      let s = port8_write (ps2_controller self) 0xAD s;
          s = port8_write (ps2_controller self) 0xA7 s;
          (_, s) = port8_read hw (ps2_device self) s;
          s = port8_write (ps2_controller self) 0x20 s in
      rbind (ps2_wait_then_read hw self s) (\<lambda>(config_byte, s).
      let config_byte = config_byte AND NOT (push_bit 0 1);
          config_byte = config_byte AND NOT (push_bit 1 1);
          s = port8_write (ps2_controller self) 0x60 s in
      rbind (ps2_wait_then_write hw self config_byte s) (\<lambda>s.
      let s = port8_write (ps2_controller self) 0xAA s in
      rbind (ps2_wait_then_read hw self s) (\<lambda>(r, s).
      rbind (rassert (r = 0x55) ''PS/2 self test failed'') (\<lambda>_.
      let s = port8_write (ps2_controller self) 0xAB s in
      rbind (ps2_wait_then_read hw self s) (\<lambda>(r, s).
      rbind (rassert (r = 0x0) ''Interface tests failed'') (\<lambda>_.
      let s = port8_write (ps2_controller self) 0xAE s;
          s = port8_write (ps2_controller self) 0x20 s in
      rbind (ps2_wait_then_read hw self s) (\<lambda>(enable, s).
      let enable = enable OR push_bit 0 1;
          s = port8_write (ps2_controller self) 0x60 s in
      rbind (ps2_wait_then_write hw self enable s) (\<lambda>s.
      let (_, s) = port8_read hw (ps2_device self) s in
      println hw ''[ dev ] PS/2 8042 initialised.'' s)))))))))"

definition ps2_read_char :: "hw \<Rightarrow> Ps2 \<Rightarrow> 'a io_scheme \<Rightarrow> u8 \<times> 'a io_scheme" where
  "ps2_read_char hw self s = port8_read hw (ps2_device self) s"

definition read_char :: "hw \<Rightarrow> 'a io_scheme \<Rightarrow> u8 \<times> 'a io_scheme" where
  [simp]: "read_char hw s = ps2_read_char hw PS2 s"

section \<open>The keyboard controller's set-up\<close>

lemma status_bit_1: "\<not> (v AND 2 = (1 :: u8))"
proof
  assume "v AND 2 = 1"
  then have "bit (v AND 2) 0" by simp
  then show False by (simp add: bit_simps)
qed

lemma ps2_write_eq:
  "ps2_wait_then_write hw PS2 d s
     = Inr (s\<lparr>trace := trace s @ [In8 0x64 (ucast (hw (trace s) 0x64)), Out8 0x60 d]\<rparr>)"
  by (simp add: ps2_wait_then_write_def await_step port_defs Let_def status_bit_1 PS2_def ps2_new_def emit_def)

text \<open>
  A controller that works: the output buffer fills within some accesses, and the answers to the
  two test commands are the good ones.
\<close>

definition ps2_works :: "hw \<Rightarrow> bool" where
  "ps2_works hw \<longleftrightarrow> (\<forall>tr. \<exists>n. comes_on hw 0x64 0 tr n)
     \<and> (\<forall>tr. last_sent 0x64 0 tr = 0xAA \<longrightarrow> ucast (hw tr 0x60) = (0x55 :: u8))
     \<and> (\<forall>tr. last_sent 0x64 0 tr = 0xAB \<longrightarrow> ucast (hw tr 0x60) = (0 :: u8))"

text \<open>A stretch of a trace with no accesses but to the controller's two ports and the serial port.\<close>

definition ps2_only :: "io_event list \<Rightarrow> bool" where
  "ps2_only es \<longleftrightarrow> (\<forall>e \<in> set es. \<exists>v. e = In8 0x60 v \<or> e = In8 0x64 v \<or> e = Out8 0x60 v \<or> e = Out8 0x64 v
     \<or> e = In8 0x3fd v \<or> e = Out8 0x3f8 v)"

lemma ps2_only_simps [simp]:
  "ps2_only []" "ps2_only (es @ es') \<longleftrightarrow> ps2_only es \<and> ps2_only es'"
  "ps2_only (In8 p v # es) \<longleftrightarrow> (p = 0x60 \<or> p = 0x64 \<or> p = 0x3fd) \<and> ps2_only es"
  "ps2_only (Out8 p v # es) \<longleftrightarrow> (p = 0x60 \<or> p = 0x64 \<or> p = 0x3f8) \<and> ps2_only es"
  by (auto simp: ps2_only_def)

lemma reads_ps2_only: "reads_of 0x64 es \<Longrightarrow> ps2_only es"
  by (auto simp: reads_of_def ps2_only_def)

lemma serial_ps2_only: "serial_only 0x3f8 es \<Longrightarrow> ps2_only es"
  by (auto simp: serial_only_def ps2_only_def)

lemma ps2_read_ok:
  assumes "ps2_works hw"
  obtains s' es v where "ps2_wait_then_read hw PS2 s = Inr (v, s')" "io.more s' = io.more s"
    "trace s' = trace s @ es @ [In8 0x60 v]" "reads_of 0x64 es" "v = ucast (hw (trace s @ es) 0x60)"
proof -
  obtain n where n: "comes_on hw 0x64 0 (trace s) n" using assms unfolding ps2_works_def by blast
  obtain s1 es where s1: "await (\<lambda>s. let (v, s) = port8_read hw (Port 0x64) s in (v AND 1 = 0, s)) s = Inr s1"
    "io.more s1 = io.more s" "trace s1 = trace s @ es" "reads_of 0x64 es"
    using await_returns [OF n, of "\<lambda>s. let (v, s) = port8_read hw (Port 0x64) s in (v AND 1 = 0, s)"]
    by (auto simp: port_defs Let_def and_bit_8)
  let ?v = "ucast (hw (trace s1) 0x60)"
  show ?thesis
    by (rule that [of ?v "emit (In8 0x60 ?v) s1" es])
      (use s1 in \<open>simp_all add: ps2_wait_then_read_def PS2_def ps2_new_def port_defs Let_def\<close>)
qed

lemma ps2_test_ok:
  assumes "ps2_works hw" and "last_sent 0x64 0 (trace s) = c"
    and "\<forall>tr. last_sent 0x64 0 tr = c \<longrightarrow> ucast (hw tr 0x60) = r"
  obtains s' es where "ps2_wait_then_read hw PS2 s = Inr (r, s')" "io.more s' = io.more s"
    "trace s' = trace s @ es @ [In8 0x60 r]" "reads_of 0x64 es"
proof -
  obtain s' es v where s': "ps2_wait_then_read hw PS2 s = Inr (v, s')" "io.more s' = io.more s"
    "trace s' = trace s @ es @ [In8 0x60 v]" "reads_of 0x64 es" "v = ucast (hw (trace s @ es) 0x60)"
    by (rule ps2_read_ok [OF assms(1)])
  have "last_sent 0x64 0 (trace s @ es) = c" using assms(2) s'(4) by (simp add: last_sent_def sent_append sent_reads)
  with assms(3) s'(5) have "v = r" by simp
  with s' show ?thesis by (intro that) simp_all
qed

lemma ps2_init_ok:
  assumes w: "ps2_works hw" and sr: "serial_ready hw COM1"
  shows "\<exists>s' es c1 c2. ps2_init hw PS2 s = Inr s' \<and> io.more s' = io.more s \<and> trace s' = trace s @ es \<and> ps2_only es
     \<and> sent 0x64 es = [0xAD, 0xA7, 0x20, 0x60, 0xAA, 0xAB, 0xAE, 0x20, 0x60]
     \<and> sent 0x60 es = [c1 AND NOT 3, c2 OR 1]
     \<and> sent 0x3f8 es = lines [''[ dev ] Initialising PS/2 8042 controller.'', ''[ dev ] PS/2 8042 initialised.'']"
proof -
  have p: "ps2_controller PS2 = Port 0x64" "ps2_device PS2 = Port 0x60" by (simp_all add: PS2_def ps2_new_def)
  let ?m1 = "''[ dev ] Initialising PS/2 8042 controller.''" and ?m2 = "''[ dev ] PS/2 8042 initialised.''"
  obtain s0 where 0: "println hw ?m1 s = Inr s0" "logged [?m1] s s0" by (rule println_ok [OF sr])
  let ?cmd = "\<lambda>c. port8_write (Port 0x64) c"
  let ?s1 = "?cmd 0x20 (snd (port8_read hw (Port 0x60) (?cmd 0xA7 (?cmd 0xAD s0))))"
  obtain s2 e2 c1 where 2: "ps2_wait_then_read hw PS2 ?s1 = Inr (c1, s2)" "io.more s2 = io.more ?s1"
    "trace s2 = trace ?s1 @ e2 @ [In8 0x60 c1]" "reads_of 0x64 e2"
    by (rule ps2_read_ok [OF w])
  let ?c1 = "c1 AND NOT (push_bit 0 1) AND NOT (push_bit 1 1)"
  obtain s3 v3 where 3: "ps2_wait_then_write hw PS2 ?c1 (?cmd 0x60 s2) = Inr s3" "io.more s3 = io.more s2"
    "trace s3 = trace s2 @ [Out8 0x64 0x60, In8 0x64 v3, Out8 0x60 ?c1]"
    by (simp add: ps2_write_eq)
  obtain s4 e4 where 4: "ps2_wait_then_read hw PS2 (?cmd 0xAA s3) = Inr (0x55, s4)" "io.more s4 = io.more s3"
    "trace s4 = trace s3 @ Out8 0x64 0xAA # e4 @ [In8 0x60 0x55]" "reads_of 0x64 e4"
    by (rule ps2_test_ok [OF w, of "?cmd 0xAA s3" "0xAA" "0x55"])
      (use w in \<open>auto simp: ps2_works_def last_sent_append, simp add: last_sent_def\<close>)
  obtain s5 e5 where 5: "ps2_wait_then_read hw PS2 (?cmd 0xAB s4) = Inr (0, s5)" "io.more s5 = io.more s4"
    "trace s5 = trace s4 @ Out8 0x64 0xAB # e5 @ [In8 0x60 0]" "reads_of 0x64 e5"
    by (rule ps2_test_ok [OF w, of "?cmd 0xAB s4" "0xAB" "0"])
      (use w in \<open>auto simp: ps2_works_def last_sent_append, simp add: last_sent_def\<close>)
  obtain s6 e6 c2 where 6: "ps2_wait_then_read hw PS2 (?cmd 0x20 (?cmd 0xAE s5)) = Inr (c2, s6)" "io.more s6 = io.more s5"
    "trace s6 = trace s5 @ [Out8 0x64 0xAE, Out8 0x64 0x20] @ e6 @ [In8 0x60 c2]" "reads_of 0x64 e6"
    by (rule ps2_read_ok [OF w, of "?cmd 0x20 (?cmd 0xAE s5)"]) auto
  obtain s7 v7 where 7: "ps2_wait_then_write hw PS2 (c2 OR 1) (?cmd 0x60 s6) = Inr s7" "io.more s7 = io.more s6"
    "trace s7 = trace s6 @ [Out8 0x64 0x60, In8 0x64 v7, Out8 0x60 (c2 OR 1)]"
    by (simp add: ps2_write_eq)
  define s8 where "s8 = snd (port8_read hw (Port 0x60) s7)"
  then have 8: "io.more s8 = io.more s7" "\<exists>v8. trace s8 = trace s7 @ [In8 0x60 v8]"
    by (simp_all add: port_defs Let_def)
  obtain v1 where 1: "trace ?s1 = trace s0 @ [Out8 0x64 0xAD, Out8 0x64 0xA7, In8 0x60 v1, Out8 0x64 0x20]" "io.more ?s1 = io.more s0"
    by (simp add: port_defs Let_def)
  obtain s9 where 9: "println hw ?m2 s8 = Inr s9" "logged [?m2] s8 s9" by (rule println_ok [OF sr])
  have r: "ps2_init hw PS2 s = Inr s9"
    using 0(1) 2(1) 3(1) 4(1) 5(1) 6(1) 7(1) 9(1)
    by (simp add: ps2_init_def p case_prod_beta Let_def s8_def and.assoc)
  have c: "?c1 = c1 AND NOT 3" by (rule bit_word_eqI) (auto simp: bit_simps)
  obtain f0 where f0: "trace s0 = trace s @ f0" "serial_only 0x3f8 f0" "sent 0x3f8 f0 = lines [?m1]"
    by (rule logged_trace [OF 0(2)])
  obtain f9 where f9: "trace s9 = trace s8 @ f9" "serial_only 0x3f8 f9" "sent 0x3f8 f9 = lines [?m2]"
    by (rule logged_trace [OF 9(2)])
  obtain v8 where v8: "trace s8 = trace s7 @ [In8 0x60 v8]" using 8(2) by blast
  let ?es = "f0 @ [Out8 0x64 0xAD, Out8 0x64 0xA7, In8 0x60 v1, Out8 0x64 0x20] @ e2 @ [In8 0x60 c1, Out8 0x64 0x60, In8 0x64 v3,
    Out8 0x60 (c1 AND NOT 3), Out8 0x64 0xAA] @ e4 @ [In8 0x60 0x55, Out8 0x64 0xAB] @ e5 @ [In8 0x60 0, Out8 0x64 0xAE, Out8 0x64 0x20]
    @ e6 @ [In8 0x60 c2, Out8 0x64 0x60, In8 0x64 v7, Out8 0x60 (c2 OR 1), In8 0x60 v8] @ f9"
  note ports = reads_ps2_only serial_ps2_only sent_append sent_reads sent_serial_only
  have t: "trace s9 = trace s @ ?es" using f0(1) 1(1) 2(3) 3(3) 4(3) 5(3) 6(3) 7(3) v8 f9(1) c by simp
  have "io.more s9 = io.more s"
    using 1(2) 2(2) 3(2) 4(2) 5(2) 6(2) 7(2) 8(1) logged_more [OF 0(2)] logged_more [OF 9(2)] by simp
  moreover have "ps2_only ?es" "sent 0x64 ?es = [0xAD, 0xA7, 0x20, 0x60, 0xAA, 0xAB, 0xAE, 0x20, 0x60]"
    "sent 0x60 ?es = [c1 AND NOT 3, c2 OR 1]" "sent 0x3f8 ?es = lines [?m1, ?m2]"
    using f0(2,3) f9(2,3) 2(4) 4(4) 5(4) 6(4) by (simp_all add: ports)
  ultimately show ?thesis using r t by blast
qed

section \<open>Messages of the controllers and the timer\<close>

lemma pics_init_ok:
  assumes "serial_ready hw COM1"
  shows "\<exists>s' es. pics_init hw PICS s = Inr s' \<and> io.more s' = io.more s \<and> trace s' = trace s @ es
     \<and> sent 0x20 es = [0x11] \<and> sent 0xA0 es = [0x11]
     \<and> sent 0x21 es = [0x20, 4, 1] \<and> sent 0xA1 es = [0x28, 2, 1] \<and> sent 0x80 es = [0, 0, 0, 0, 0, 0, 0]
     \<and> sent 0x3f8 es = lines [''[ dev ] Initialised master and slave 8259 PICs.'',
         ''[ dev ] PIC0 has vector offset: 0x20'', ''[ dev ] PIC1 has vector offset: 0x28'']"
proof -
  let ?m1 = "''[ dev ] Initialised master and slave 8259 PICs.''" and ?m2 = "''[ dev ] PIC0 has vector offset: 0x20''"
    and ?m3 = "''[ dev ] PIC1 has vector offset: 0x28''"
  define cmds where "cmds = [Out8 0x20 0x11, Out8 0x80 0, Out8 0xA0 0x11, Out8 0x80 0, Out8 0x21 0x20, Out8 0x80 0, Out8 0xA1 0x28,
    Out8 0x80 0, Out8 0x21 4, Out8 0x80 0, Out8 0xA1 2, Out8 0x80 0, Out8 0x21 1, Out8 0x80 0, Out8 0xA1 1]"
  define s0 where "s0 = s\<lparr>trace := trace s @ cmds\<rparr>"
  obtain s1 where 1: "println hw ?m1 s0 = Inr s1" "logged [?m1] s0 s1" by (rule println_ok [OF assms])
  obtain s2 where 2: "println hw ?m2 s1 = Inr s2" "logged [?m2] s1 s2" by (rule println_ok [OF assms])
  obtain s3 where 3: "println hw ?m3 s2 = Inr s3" "logged [?m3] s2 s3" by (rule println_ok [OF assms])
  have o: "fmt_alternate_hex (0x20 :: u8) = ''0x20''" "fmt_alternate_hex (0x28 :: u8) = ''0x28''"
    by (simp_all add: fmt_alternate_hex_def fmt_lower_hex_def number_text_eval digit_eval)
  have "pics_init hw PICS s = Inr s3"
    using 1(1) 2(1) 3(1)
    by (simp add: pics_init_def PICS_def chained_pics_new_def pic_wait_def Let_def CMD_INIT_def MODE_8086_def o port_defs
        emit_def s0_def cmds_def)
  moreover have l: "logged [?m1, ?m2, ?m3] s0 s3" using logged_trans [OF 1(2) logged_trans [OF 2(2) 3(2)]] by simp
  then obtain es where es: "trace s3 = trace s0 @ es" "serial_only 0x3f8 es" "sent 0x3f8 es = lines [?m1, ?m2, ?m3]"
    by (rule logged_trace)
  moreover have "trace s3 = trace s @ (cmds @ es)" using es(1) by (simp add: s0_def)
  moreover have "io.more s3 = io.more s" using logged_more [OF l] by (simp add: s0_def)
  ultimately show ?thesis
    by (intro exI [of _ s3] exI [of _ "cmds @ es"]) (simp add: sent_append sent_serial_only cmds_def)
qed

lemma pit_init_ok:
  assumes "serial_ready hw COM1"
  shows "\<exists>s' es lo hi. pit_init hw s = Inr s' \<and> io.more s' = io.more s \<and> trace s' = trace s @ es
     \<and> sent 0x43 es = [0x36] \<and> sent 0x40 es = [lo, hi] \<and> unat lo + 256 * unat hi = 2685
     \<and> sent 0x3f8 es = lines [''[ dev ] Setting pit mode.'', ''[ dev ] Setting up frequency.'',
         ''[ dev ] Initialising PIT, setup to interrupt every 0 ms'']"
proof -
  let ?m1 = "''[ dev ] Setting pit mode.''" and ?m2 = "''[ dev ] Setting up frequency.''"
    and ?m3 = "''[ dev ] Initialising PIT, setup to interrupt every 0 ms''"
  obtain s1 where 1: "println hw ?m1 s = Inr s1" "logged [?m1] s s1" by (rule println_ok [OF assms])
  let ?s1 = "emit (Out8 0x43 0x36) s1"
  obtain s2 where 2: "println hw ?m2 ?s1 = Inr s2" "logged [?m2] ?s1 s2" by (rule println_ok [OF assms])
  let ?s2 = "emit (Out8 0x40 10) (emit (Out8 0x40 125) s2)"
  obtain s3 where 3: "println hw ?m3 ?s2 = Inr s3" "logged [?m3] ?s2 s3" by (rule println_ok [OF assms])
  have n: "fmt_display (0 :: u32) = ''0''" by (simp add: fmt_display_def number_text_eval digit_eval)
  have "pit_init hw s = Inr s3"
    using 1(1) 2(1) 3(1) by (simp add: pit_init_def PIT_SET_def DIVISOR_def port_defs Let_def n)
  moreover obtain e1 where e1: "trace s1 = trace s @ e1" "serial_only 0x3f8 e1" "sent 0x3f8 e1 = lines [?m1]"
    by (rule logged_trace [OF 1(2)])
  moreover obtain e2 where e2: "trace s2 = trace ?s1 @ e2" "serial_only 0x3f8 e2" "sent 0x3f8 e2 = lines [?m2]"
    by (rule logged_trace [OF 2(2)])
  moreover obtain e3 where e3: "trace s3 = trace ?s2 @ e3" "serial_only 0x3f8 e3" "sent 0x3f8 e3 = lines [?m3]"
    by (rule logged_trace [OF 3(2)])
  moreover have "io.more s3 = io.more s" using logged_more [OF 1(2)] logged_more [OF 2(2)] logged_more [OF 3(2)] by simp
  ultimately show ?thesis
    by (intro exI [of _ s3] exI [of _ "e1 @ [Out8 0x43 0x36] @ e2 @ [Out8 0x40 125, Out8 0x40 10] @ e3"] exI [of _ 125] exI [of _ 10])
      (simp add: sent_append sent_serial_only)
qed

section \<open>Properties\<close>

text \<open>
  The controllers are remapped to the vectors the kernel uses: \<^verbatim>\<open>init\<close> sends each controller
  the initialisation command, then its vector offset (\<open>0x20\<close> and \<open>0x28\<close>), then the cascade wiring
  and the mode, each in that order, with a wait between two commands; then it reports the offsets.
\<close>

theorem pics_init_remaps:
  assumes "serial_ready hw COM1"
  shows "\<exists>s' es. pics_init hw PICS s = Inr s' \<and> io.more s' = io.more s \<and> trace s' = trace s @ es
     \<and> sent 0x20 es = [0x11] \<and> sent 0xA0 es = [0x11]
     \<and> sent 0x21 es = [0x20, 4, 1] \<and> sent 0xA1 es = [0x28, 2, 1] \<and> sent 0x80 es = [0, 0, 0, 0, 0, 0, 0]
     \<and> sent 0x3f8 es = lines [''[ dev ] Initialised master and slave 8259 PICs.'',
         ''[ dev ] PIC0 has vector offset: 0x20'', ''[ dev ] PIC1 has vector offset: 0x28'']"
  using assms by (rule pics_init_ok)

theorem pics_init_remaps_witness:
  "\<exists>s'. pics_init (\<lambda>tr p. 0x20) PICS \<lparr>trace = []\<rparr> = Inr s' \<and> sent 0x21 (trace s') = [0x20, 4, 1]"
  using pics_init_remaps [OF example_serial_ready, of "\<lparr>trace = []\<rparr>"] by auto

text \<open>
  The end of an interrupt is signalled to the right controllers: for a vector of the second
  controller (\<open>0x28\<close> to \<open>0x2f\<close>) first to it and then to the first, for a vector of the first
  (\<open>0x20\<close> to \<open>0x27\<close>) to the first only, for any other vector to none; the call never panics.
\<close>

theorem notify_end_of_interrupt_signals:
  "notify_end_of_interrupt PICS i s =
     Inr (if 0x28 \<le> i \<and> i < 0x30 then outb 0x20 0x20 (outb 0x20 0xA0 s)
          else if 0x20 \<le> i \<and> i < 0x28 then outb 0x20 0x20 s else s)"
proof -
  have "pic_handles_interrupt (pic0 PICS) i = Inr (0x20 \<le> i \<and> i < 0x28)"
    "pic_handles_interrupt (pic1 PICS) i = Inr (0x28 \<le> i \<and> i < 0x30)"
    by (auto simp: pic_handles_interrupt_def PICS_def chained_pics_new_def checked_add_def)
  moreover have "i < 0x28 \<longleftrightarrow> \<not> 0x28 \<le> i" by auto
  moreover have "0x28 \<le> i \<Longrightarrow> 0x20 \<le> i" by (erule order.trans [rotated]) simp
  ultimately show ?thesis
    by (auto simp: notify_end_of_interrupt_def pics_handles_interrupt_def pic_end_of_interrupt_def
        PICS_def chained_pics_new_def CMD_END_OF_INTERRUPT_def port8_write_def)
qed

text \<open>
  The timer is programmed with the divisor 2685 in two bytes, low byte first; the interval the
  driver reports is 0 ms, because the division of integers loses it.
\<close>

theorem pit_init_divisor:
  assumes "serial_ready hw COM1"
  shows "\<exists>s' es lo hi. pit_init hw s = Inr s' \<and> io.more s' = io.more s \<and> trace s' = trace s @ es
     \<and> sent 0x43 es = [0x36] \<and> sent 0x40 es = [lo, hi] \<and> unat lo + 256 * unat hi = 2685
     \<and> sent 0x3f8 es = lines [''[ dev ] Setting pit mode.'', ''[ dev ] Setting up frequency.'',
         ''[ dev ] Initialising PIT, setup to interrupt every 0 ms'']"
  using assms by (rule pit_init_ok)

theorem pit_init_divisor_witness:
  "\<exists>s'. pit_init (\<lambda>tr p. 0x20) \<lparr>trace = []\<rparr> = Inr s' \<and> sent 0x43 (trace s') = [0x36]"
  using pit_init_divisor [OF example_serial_ready, of "\<lparr>trace = []\<rparr>"] by auto

text \<open>
  The keyboard controller is set up: with a controller that works and a serial port that is ready, \<^verbatim>\<open>Ps2::init\<close>
  returns, accesses no port but the controller's two and the serial port, sends the commands of the sequence in their order, and writes
  the configuration twice: first the one it read with both interrupts off, at the end the one it
  read then with the keyboard's interrupt on.
\<close>

theorem ps2_init_enables_keyboard:
  assumes "ps2_works hw" and "serial_ready hw COM1"
  shows "\<exists>s' es c1 c2. ps2_init hw PS2 s = Inr s' \<and> io.more s' = io.more s \<and> trace s' = trace s @ es \<and> ps2_only es
     \<and> sent 0x64 es = [0xAD, 0xA7, 0x20, 0x60, 0xAA, 0xAB, 0xAE, 0x20, 0x60]
     \<and> sent 0x60 es = [c1 AND NOT 3, c2 OR 1]
     \<and> sent 0x3f8 es = lines [''[ dev ] Initialising PS/2 8042 controller.'', ''[ dev ] PS/2 8042 initialised.'']"
  using assms by (rule ps2_init_ok)

definition example_ps2 :: hw where
  "example_ps2 tr p = (if p = 0x64 then 1 else if p = 0x3fd then 0x20 else if last_sent 0x64 0 tr = 0xAA then 0x55 else 0)"

theorem ps2_init_enables_keyboard_witness:
  "\<exists>s' es. ps2_init example_ps2 PS2 \<lparr>trace = []\<rparr> = Inr s' \<and> trace s' = es \<and> ps2_only es"
proof -
  have "ps2_works example_ps2" "serial_ready example_ps2 COM1"
    by (auto simp: ps2_works_def serial_ready_def comes_on_def example_ps2_def intro!: exI [of _ 0])
  from ps2_init_enables_keyboard [OF this, of "\<lparr>trace = []\<rparr>"] show ?thesis by auto
qed

text \<open>
  \<^verbatim>\<open>wait_then_write\<close> of the keyboard controller does not wait: it reads the status once and
  writes the byte, also when bit 1 of the status says that the input buffer is still full.
\<close>

theorem ps2_wait_then_write_never_waits:
  "\<exists>v s'. ps2_wait_then_write hw self d s = Inr s'
     \<and> trace s' = trace s @ [In8 (port (ps2_controller self)) v, Out8 (port (ps2_device self)) d]"
  by (simp add: ps2_wait_then_write_def await_step port8_read_def inb_def Let_def status_bit_1)

end
