(* ===== verification/Addresses.thy ===== *)
theory Addresses
  imports Prelude
begin

text \<open>
  Frames, pages and addresses: \<^verbatim>\<open>arch/x86_64/memory/mod.rs\<close> (\<^verbatim>\<open>Frame\<close>, \<^verbatim>\<open>FrameIter\<close>) and the
  first half of \<^verbatim>\<open>arch/x86_64/memory/paging/mod.rs\<close> (\<^verbatim>\<open>PhysicalAddress\<close>, \<^verbatim>\<open>VirtualAddress\<close>,
  \<^verbatim>\<open>Page\<close>, \<^verbatim>\<open>PageIter\<close>). The two range iterators share one contract, the locale
  \<open>range_iterator\<close>, interpreted on both.
\<close>

section \<open>Addresses and frames\<close>

definition PAGE_SIZE :: usize where
  "PAGE_SIZE = 4096"

datatype PhysicalAddress = PhysicalAddress (pa_get: usize)

datatype VirtualAddress = VirtualAddress (va_get: usize)

datatype Frame = Frame (frame_number: usize)

datatype Page = Page (page_number: usize)

text \<open>The derived orders of \<^verbatim>\<open>Frame\<close> and \<^verbatim>\<open>Page\<close> compare the numbers.\<close>

instantiation Frame :: linorder
begin

definition less_eq_Frame :: "Frame \<Rightarrow> Frame \<Rightarrow> bool" where
  "less_eq_Frame f g \<longleftrightarrow> frame_number f \<le> frame_number g"

definition less_Frame :: "Frame \<Rightarrow> Frame \<Rightarrow> bool" where
  "less_Frame f g \<longleftrightarrow> frame_number f < frame_number g"

instance
  by standard (auto simp: less_eq_Frame_def less_Frame_def intro: Frame.expand)

end

instantiation Page :: linorder
begin

definition less_eq_Page :: "Page \<Rightarrow> Page \<Rightarrow> bool" where
  "less_eq_Page p q \<longleftrightarrow> page_number p \<le> page_number q"

definition less_Page :: "Page \<Rightarrow> Page \<Rightarrow> bool" where
  "less_Page p q \<longleftrightarrow> page_number p < page_number q"

instance
  by standard (auto simp: less_eq_Page_def less_Page_def intro: Page.expand)

end

lemma Frame_less_simps [simp]:
  "Frame a \<le> Frame b \<longleftrightarrow> a \<le> b" "Frame a < Frame b \<longleftrightarrow> a < b"
  by (simp_all add: less_eq_Frame_def less_Frame_def)

lemma Page_less_simps [simp]:
  "Page a \<le> Page b \<longleftrightarrow> a \<le> b" "Page a < Page b \<longleftrightarrow> a < b"
  by (simp_all add: less_eq_Page_def less_Page_def)

definition frame_containing_address :: "PhysicalAddress \<Rightarrow> Frame" where
  "frame_containing_address address = Frame (pa_get address div PAGE_SIZE)"

definition frame_start_address :: "Frame \<Rightarrow> PhysicalAddress res" where
  "frame_start_address f =
     rbind (checked_mul (frame_number f) PAGE_SIZE) (\<lambda>a. Inr (PhysicalAddress a))"

record FrameIter =
  fi_start :: Frame
  fi_end :: Frame

definition frame_range_inclusive :: "Frame \<Rightarrow> Frame \<Rightarrow> FrameIter" where
  "frame_range_inclusive s e = \<lparr>fi_start = s, fi_end = e\<rparr>"

definition frame_iter_next :: "FrameIter \<Rightarrow> (Frame option \<times> FrameIter) res" where
  "frame_iter_next it =
     (if fi_start it \<le> fi_end it
      then rbind (checked_add (frame_number (fi_start it)) 1)
             (\<lambda>n. Inr (Some (fi_start it), it\<lparr>fi_start := Frame n\<rparr>))
      else Inr (None, it))"

section \<open>Pages\<close>

definition is_canonical :: "usize \<Rightarrow> bool" where
  "is_canonical a \<longleftrightarrow> a < 0x0000800000000000 \<or> a \<ge> 0xffff800000000000"

definition page_containing_address :: "VirtualAddress \<Rightarrow> Page res" where
  "page_containing_address address =
     rbind (rassert (is_canonical (va_get address)) ''invalid address'')
       (\<lambda>_. Inr (Page (va_get address div PAGE_SIZE)))"

definition page_start_address :: "Page \<Rightarrow> VirtualAddress res" where
  "page_start_address p =
     rbind (checked_mul (page_number p) PAGE_SIZE) (\<lambda>a. Inr (VirtualAddress a))"

text \<open>The mask \<^verbatim>\<open>0o777\<close> of the source is \<open>0x1ff\<close>.\<close>

definition p4_index :: "Page \<Rightarrow> usize" where
  "p4_index p = drop_bit 27 (page_number p) AND 0x1ff"

definition p3_index :: "Page \<Rightarrow> usize" where
  "p3_index p = drop_bit 18 (page_number p) AND 0x1ff"

definition p2_index :: "Page \<Rightarrow> usize" where
  "p2_index p = drop_bit 9 (page_number p) AND 0x1ff"

definition p1_index :: "Page \<Rightarrow> usize" where
  "p1_index p = drop_bit 0 (page_number p) AND 0x1ff"

definition page_add :: "Page \<Rightarrow> usize \<Rightarrow> Page res" where
  "page_add p rhs = rbind (checked_add (page_number p) rhs) (\<lambda>n. Inr (Page n))"

record PageIter =
  pi_start :: Page
  pi_end :: Page

definition page_range_inclusive :: "Page \<Rightarrow> Page \<Rightarrow> PageIter" where
  "page_range_inclusive s e = \<lparr>pi_start = s, pi_end = e\<rparr>"

definition page_iter_next :: "PageIter \<Rightarrow> (Page option \<times> PageIter) res" where
  "page_iter_next it =
     (if pi_start it \<le> pi_end it
      then rbind (checked_add (page_number (pi_start it)) 1)
             (\<lambda>n. Inr (Some (pi_start it), it\<lparr>pi_start := Page n\<rparr>))
      else Inr (None, it))"

text \<open>The lists a \<open>for\<close> loop over a range goes through.\<close>

definition frames_of :: "FrameIter \<Rightarrow> Frame list res" where
  "frames_of it = returns (iter_collect frame_iter_next it)"

definition pages_of :: "PageIter \<Rightarrow> Page list res" where
  "pages_of it = returns (iter_collect page_iter_next it)"

section \<open>Ranges of numbers\<close>

definition word_range :: "usize \<Rightarrow> usize \<Rightarrow> usize list" where
  "word_range s e = map of_nat [unat s ..< Suc (unat e)]"

lemma word_range_Nil: "e < s \<Longrightarrow> word_range s e = []"
  by (simp add: word_range_def word_less_nat_alt)

lemma unat_succ: "(s :: usize) \<noteq> -1 \<Longrightarrow> unat (s + 1) = Suc (unat s)"
  using unat_add_one_bound [of s] unat_add_small [of s 1] by simp

lemma word_range_Cons: "s \<le> e \<Longrightarrow> s \<noteq> -1 \<Longrightarrow> word_range s e = s # word_range (s + 1) e"
  using upt_conv_Cons [of "unat s" "Suc (unat e)"]
  by (simp add: word_range_def unat_succ word_le_nat_alt del: upt_Suc)

lemma below_max: "s \<le> e \<Longrightarrow> e \<noteq> -1 \<Longrightarrow> (s :: usize) \<noteq> -1"
  using unat_add_one_bound [of s] unat_add_one_bound [of e] by (simp add: word_le_nat_alt)

lemma set_word_range [simp]: "set (word_range s e) = {n. s \<le> n \<and> n \<le> e}"
proof -
  have "n \<in> set (word_range s e) \<longleftrightarrow> s \<le> n \<and> n \<le> e" for n
  proof
    assume "n \<in> set (word_range s e)"
    then obtain k where k: "n = of_nat k" "unat s \<le> k" "k \<le> unat e"
      by (auto simp: word_range_def)
    moreover have "k < 2 ^ LENGTH(64)" using k(3) unat_bound [of e] by linarith
    ultimately show "s \<le> n \<and> n \<le> e"
      by (simp add: word_le_nat_alt unat_of_nat)
  next
    assume "s \<le> n \<and> n \<le> e"
    then have "unat n \<in> {unat s ..< Suc (unat e)}" "n = of_nat (unat n)"
      by (auto simp: word_le_nat_alt)
    then show "n \<in> set (word_range s e)"
      unfolding word_range_def by (metis image_eqI set_map set_upt)
  qed
  then show ?thesis by blast
qed

lemma distinct_word_range [simp]: "distinct (word_range s e)"
proof -
  have "inj_on (of_nat :: nat \<Rightarrow> usize) {unat s ..< Suc (unat e)}"
  proof (rule inj_onI)
    fix x y
    assume "x \<in> {unat s ..< Suc (unat e)}" "y \<in> {unat s ..< Suc (unat e)}"
      and eq: "(of_nat x :: usize) = of_nat y"
    then have "x < 2 ^ LENGTH(64)" "y < 2 ^ LENGTH(64)"
      using unat_bound [of e] by auto
    with eq show "x = y"
      by (metis unat_of_nat mod_less)
  qed
  then show ?thesis by (simp add: word_range_def distinct_map del: upt_Suc)
qed

lemma length_word_range [simp]: "length (word_range s e) = Suc (unat e) - unat s"
  by (simp add: word_range_def del: upt_Suc)

section \<open>The contract of the two range iterators\<close>

text \<open>
  \<open>nx\<close> is the iterator's \<open>next\<close>, \<open>mk s e\<close> the cursor between the numbers \<open>s\<close> and \<open>e\<close>,
  \<open>item\<close> the value made of a number.
\<close>

locale range_iterator =
  fixes nx :: "'it \<Rightarrow> ('a option \<times> 'it) res"
    and mk :: "usize \<Rightarrow> usize \<Rightarrow> 'it"
    and item :: "usize \<Rightarrow> 'a"
  assumes next_some: "s \<le> e \<Longrightarrow> s \<noteq> -1 \<Longrightarrow> nx (mk s e) = Inr (Some (item s), mk (s + 1) e)"
    and next_end: "e < s \<Longrightarrow> nx (mk s e) = Inr (None, mk s e)"
begin

lemma collect_range:
  assumes "e \<noteq> -1"
  shows "iter_collect nx (mk s e) = Some (Inr (map item (word_range s e)))"
proof (induction "Suc (unat e) - unat s" arbitrary: s)
  case 0
  then have "e < s" by (simp add: word_less_nat_alt)
  then show ?case by (simp add: iter_collect.simps next_end word_range_Nil)
next
  case (Suc n)
  then have le: "s \<le> e" by (simp add: word_le_nat_alt)
  from this assms have ne: "s \<noteq> -1" by (rule below_max)
  have "n = Suc (unat e) - unat (s + 1)" using Suc.hyps(2) ne by (simp add: unat_succ)
  then have "iter_collect nx (mk (s + 1) e) = Some (Inr (map item (word_range (s + 1) e)))"
    by (rule Suc.hyps(1))
  then show ?case
    by (subst iter_collect.simps) (simp add: next_some le ne word_range_Cons)
qed

lemma nth_some:
  assumes "e \<noteq> -1" and "unat s + n \<le> unat e"
  shows "iter_nth nx n (mk s e) = Inr (Some (item (s + of_nat n)), mk (s + of_nat n + 1) e)"
  using assms(2)
proof (induction n arbitrary: s)
  case 0
  then have "s \<le> e" by (simp add: word_le_nat_alt)
  with assms(1) below_max [of s e] show ?case by (simp add: next_some)
next
  case (Suc n)
  then have le: "s \<le> e" by (simp add: word_le_nat_alt)
  from this assms(1) have ne: "s \<noteq> -1" by (rule below_max)
  with Suc.prems have "unat (s + 1) + n \<le> unat e" by (simp add: unat_succ)
  from Suc.IH [OF this] show ?case
    by (simp add: next_some le ne algebra_simps)
qed

lemma nth_none:
  assumes "e \<noteq> -1" and "unat e < unat s + n"
  shows "\<exists>s'. iter_nth nx n (mk s e) = Inr (None, mk s' e)"
  using assms(2)
proof (induction n arbitrary: s)
  case 0
  then have "e < s" by (simp add: word_less_nat_alt)
  then show ?case by (auto simp: next_end)
next
  case (Suc n)
  show ?case
  proof (cases "e < s")
    case True
    then show ?thesis by (auto simp: next_end)
  next
    case False
    then have le: "s \<le> e" by simp
    from this assms(1) have ne: "s \<noteq> -1" by (rule below_max)
    with Suc.prems have "unat e < unat (s + 1) + n" by (simp add: unat_succ)
    from Suc.IH [OF this] show ?thesis by (simp add: next_some le ne)
  qed
qed

end

interpretation frame_it: range_iterator frame_iter_next
  "\<lambda>s e. frame_range_inclusive (Frame s) (Frame e)" Frame
  by unfold_locales
    (auto simp: frame_iter_next_def frame_range_inclusive_def checked_add_one)

interpretation page_it: range_iterator page_iter_next
  "\<lambda>s e. page_range_inclusive (Page s) (Page e)" Page
  by unfold_locales
    (auto simp: page_iter_next_def page_range_inclusive_def checked_add_one)

lemma frames_of_range:
  "frame_number e \<noteq> -1 \<Longrightarrow>
   frames_of (frame_range_inclusive s e) = Inr (map Frame (word_range (frame_number s) (frame_number e)))"
  using frame_it.collect_range [of "frame_number e" "frame_number s"] by (simp add: frames_of_def)

lemma pages_of_range:
  "page_number e \<noteq> -1 \<Longrightarrow>
   pages_of (page_range_inclusive s e) = Inr (map Page (word_range (page_number s) (page_number e)))"
  using page_it.collect_range [of "page_number e" "page_number s"] by (simp add: pages_of_def)

section \<open>Numbers and indices of pages\<close>

lemma div_PAGE_SIZE: "a div PAGE_SIZE = drop_bit 12 a"
  by (simp add: PAGE_SIZE_def drop_bit_eq_div)

lemma unat_drop_12_bound: "unat (drop_bit 12 (a :: usize)) < 2 ^ 52"
proof -
  have "unat a < 2 ^ 64" using unat_bound [of a] by simp
  then show ?thesis
    by (simp add: unat_drop_bit_eq) (simp add: drop_bit_eq_div less_mult_imp_div_less)
qed

lemma mult_PAGE_SIZE:
  "checked_mul n PAGE_SIZE = (if unat n < 2 ^ 52 then Inr (push_bit 12 n) else Inl Overflow)"
  by (auto simp: checked_mul_def PAGE_SIZE_def push_bit_eq_mult mult.commute)

lemma index_lt_512 [simp]:
  "p4_index p < 512" "p3_index p < 512" "p2_index p < 512" "p1_index p < 512"
proof -
  have "w AND 0x1ff < (512 :: usize)" for w
  proof -
    have "w AND 511 \<le> (511 :: usize)" by (rule word_and_le1)
    then show ?thesis by (simp add: word_le_nat_alt word_less_nat_alt)
  qed
  then show "p4_index p < 512" "p3_index p < 512" "p2_index p < 512" "p1_index p < 512"
    by (simp_all add: p4_index_def p3_index_def p2_index_def p1_index_def)
qed

lemma page_start_le:
  "push_bit 12 (drop_bit 12 va) \<le> (va :: usize) \<and> va - push_bit 12 (drop_bit 12 va) = take_bit 12 va"
proof -
  have d: "push_bit 12 (drop_bit 12 va) + take_bit 12 va = va"
    using bits_ident [of 12 va] by simp
  have "push_bit 12 (drop_bit 12 va) = va AND NOT (mask 12)"
    by (rule bit_word_eqI) (auto simp: bit_simps)
  then have "push_bit 12 (drop_bit 12 va) \<le> va" by (simp add: word_and_le2)
  with d show ?thesis by (metis add_diff_cancel_left')
qed

lemma take_bit_split:
  "take_bit (n + k) w = push_bit n (take_bit k (drop_bit n w)) OR take_bit n (w :: usize)"
  by (rule bit_word_eqI) (auto simp: bit_simps)

lemma page_indices_take_bit:
  "p4_index (Page (drop_bit 12 va)) = take_bit 9 (drop_bit 39 va)"
  "p3_index (Page (drop_bit 12 va)) = take_bit 9 (drop_bit 30 va)"
  "p2_index (Page (drop_bit 12 va)) = take_bit 9 (drop_bit 21 va)"
  "p1_index (Page (drop_bit 12 va)) = take_bit 9 (drop_bit 12 va)"
proof -
  have m: "w AND 0x1ff = take_bit 9 w" for w :: usize
    by (simp add: take_bit_eq_mask mask_eq_exp_minus_1)
  show "p4_index (Page (drop_bit 12 va)) = take_bit 9 (drop_bit 39 va)"
    "p3_index (Page (drop_bit 12 va)) = take_bit 9 (drop_bit 30 va)"
    "p2_index (Page (drop_bit 12 va)) = take_bit 9 (drop_bit 21 va)"
    "p1_index (Page (drop_bit 12 va)) = take_bit 9 (drop_bit 12 va)"
    by (simp_all add: p4_index_def p3_index_def p2_index_def p1_index_def m drop_bit_drop_bit)
qed

lemma take_48_indices:
  "take_bit 48 va = push_bit 39 (p4_index (Page (drop_bit 12 va)))
     OR push_bit 30 (p3_index (Page (drop_bit 12 va))) OR push_bit 21 (p2_index (Page (drop_bit 12 va)))
     OR push_bit 12 (p1_index (Page (drop_bit 12 va))) OR take_bit 12 (va :: usize)"
  using take_bit_split [of 39 9 va] take_bit_split [of 30 9 va]
    take_bit_split [of 21 9 va] take_bit_split [of 12 9 va]
  by (simp add: page_indices_take_bit)

text \<open>
  C25. For every canonical address the page that contains it exists and its start address does not
  overflow: it is at most the address and less than a page below it. The number of the page has at
  most 52 bits, each of the four indices is below 512, and the indices and the offset put together are
  the lower 48 bits of the address.
\<close>

theorem page_of_address_bounds:
  assumes "is_canonical va"
  shows "\<exists>p a. page_containing_address (VirtualAddress va) = Inr p \<and>
    page_start_address p = Inr (VirtualAddress a) \<and> a \<le> va \<and> va - a < PAGE_SIZE \<and>
    unat (page_number p) < 2 ^ 52 \<and>
    p4_index p < 512 \<and> p3_index p < 512 \<and> p2_index p < 512 \<and> p1_index p < 512 \<and>
    take_bit 48 va = push_bit 39 (p4_index p) OR push_bit 30 (p3_index p) OR
      push_bit 21 (p2_index p) OR push_bit 12 (p1_index p) OR (va - a)"
proof -
  have "take_bit 12 va < PAGE_SIZE"
    using take_bit_nat_less_exp [of 12 "unat va"]
    by (simp add: PAGE_SIZE_def word_less_nat_alt unsigned_take_bit_eq)
  then show ?thesis
    using assms page_start_le [of va] take_48_indices [of va] unat_drop_12_bound [of va]
    by (simp add: page_containing_address_def page_start_address_def div_PAGE_SIZE mult_PAGE_SIZE)
qed

theorem page_of_address_bounds_witness:
  "is_canonical 0xffffffffdeadbeef \<and>
   (\<exists>p a. page_containing_address (VirtualAddress 0xffffffffdeadbeef) = Inr p \<and>
     page_start_address p = Inr (VirtualAddress a) \<and> 0xffffffffdeadbeef - a < PAGE_SIZE \<and>
     p4_index p < 512)"
proof -
  have c: "is_canonical 0xffffffffdeadbeef" by (simp add: is_canonical_def)
  from c page_of_address_bounds [OF c] show ?thesis by blast
qed

end
