(* ===== verification/Entry.thy ===== *)
theory Entry
  imports Addresses
begin

text \<open>
  Page table entries, \<^verbatim>\<open>arch/x86_64/memory/paging/entry.rs\<close>. An entry is the 64-bit word the MMU
  reads: bits 12 to 51 hold the frame, the remaining bits the flags of \<^verbatim>\<open>EntryFlags\<close>. A value of
  the flags type is a word with no other bits than the declared ones; \<open>flags_contains\<close>,
  \<open>from_bits_truncate\<close> and \<open>OR\<close> are the set operations the \<^verbatim>\<open>bitflags!\<close> declaration stands for.
  An ELF section is read through the accessors of the \<^verbatim>\<open>multiboot2\<close> crate.
\<close>

section \<open>Flags\<close>

type_synonym EntryFlags = u64

definition PRESENT :: EntryFlags where "PRESENT = push_bit 0 1"
definition WRITABLE :: EntryFlags where "WRITABLE = push_bit 1 1"
definition USER_ACCESSIBLE :: EntryFlags where "USER_ACCESSIBLE = push_bit 2 1"
definition WRITE_THROUGH :: EntryFlags where "WRITE_THROUGH = push_bit 3 1"
definition NO_CACHE :: EntryFlags where "NO_CACHE = push_bit 4 1"
definition ACCESSED :: EntryFlags where "ACCESSED = push_bit 5 1"
definition DIRTY :: EntryFlags where "DIRTY = push_bit 6 1"
definition HUGE_PAGE :: EntryFlags where "HUGE_PAGE = push_bit 7 1"
definition GLOBAL :: EntryFlags where "GLOBAL = push_bit 8 1"
definition NO_EXECUTE :: EntryFlags where "NO_EXECUTE = push_bit 63 1"

lemmas flag_defs = PRESENT_def WRITABLE_def USER_ACCESSIBLE_def WRITE_THROUGH_def NO_CACHE_def
  ACCESSED_def DIRTY_def HUGE_PAGE_def GLOBAL_def NO_EXECUTE_def

definition all_flags :: EntryFlags where
  "all_flags = PRESENT OR WRITABLE OR USER_ACCESSIBLE OR WRITE_THROUGH OR NO_CACHE OR ACCESSED
     OR DIRTY OR HUGE_PAGE OR GLOBAL OR NO_EXECUTE"

definition flags_contains :: "EntryFlags \<Rightarrow> EntryFlags \<Rightarrow> bool" where
  "flags_contains fl x \<longleftrightarrow> fl AND x = x"

definition from_bits_truncate :: "u64 \<Rightarrow> EntryFlags" where
  "from_bits_truncate x = x AND all_flags"

text \<open>The values the flags type can take.\<close>

definition flags_ok :: "EntryFlags \<Rightarrow> bool" where
  "flags_ok fl \<longleftrightarrow> fl AND all_flags = fl"

section \<open>Entries\<close>

type_synonym Entry = u64

definition entry_is_unused :: "Entry \<Rightarrow> bool" where
  "entry_is_unused e \<longleftrightarrow> e = 0"

definition entry_set_unused :: "Entry \<Rightarrow> Entry" where
  "entry_set_unused e = 0"

definition entry_flags :: "Entry \<Rightarrow> EntryFlags" where
  "entry_flags e = from_bits_truncate e"

text \<open>The literal \<^verbatim>\<open>0x000fffff_fffff000\<close> of \<^verbatim>\<open>pointed_frame\<close> and \<^verbatim>\<open>set\<close>.\<close>

definition ADDRESS_MASK :: u64 where
  "ADDRESS_MASK = 0x000ffffffffff000"

definition pointed_frame :: "Entry \<Rightarrow> Frame option" where
  "pointed_frame e =
     (if flags_contains (entry_flags e) PRESENT
      then Some (frame_containing_address (PhysicalAddress (e AND ADDRESS_MASK)))
      else None)"

definition entry_set :: "Frame \<Rightarrow> EntryFlags \<Rightarrow> Entry res" where
  "entry_set f flags =
     rbind (frame_start_address f) (\<lambda>a.
     rbind (rassert (pa_get a AND NOT ADDRESS_MASK = 0) ''frame address'') (\<lambda>_.
     Inr (pa_get a OR flags)))"

section \<open>Flags of an ELF section\<close>

record ElfSection =
  sec_start :: u64
  sec_size :: u64
  sec_end :: u64
  sec_allocated :: bool
  sec_writable :: bool
  sec_executable :: bool

definition from_elf_section_flags :: "ElfSection \<Rightarrow> EntryFlags" where
  "from_elf_section_flags section =
     (let flags = 0;
          flags = (if sec_allocated section then flags OR PRESENT else flags);
          flags = (if sec_writable section then flags OR WRITABLE else flags)
      in if \<not> sec_executable section then flags OR NO_EXECUTE else flags)"

section \<open>Bits\<close>

lemma bit_push_one: "k < 64 \<Longrightarrow> bit (push_bit k (1 :: u64)) n \<longleftrightarrow> n = k"
  by (auto simp: bit_simps)

lemma bit_flag_consts:
  "bit PRESENT n \<longleftrightarrow> n = 0" "bit WRITABLE n \<longleftrightarrow> n = 1" "bit USER_ACCESSIBLE n \<longleftrightarrow> n = 2"
  "bit WRITE_THROUGH n \<longleftrightarrow> n = 3" "bit NO_CACHE n \<longleftrightarrow> n = 4" "bit ACCESSED n \<longleftrightarrow> n = 5"
  "bit DIRTY n \<longleftrightarrow> n = 6" "bit HUGE_PAGE n \<longleftrightarrow> n = 7" "bit GLOBAL n \<longleftrightarrow> n = 8"
  "bit NO_EXECUTE n \<longleftrightarrow> n = 63"
  unfolding flag_defs by (rule bit_push_one, simp)+

lemma bit_all_flags: "bit all_flags n \<longleftrightarrow> n < 9 \<or> n = 63"
  unfolding all_flags_def bit_or_iff bit_flag_consts by arith

lemma bit_ADDRESS_MASK: "bit ADDRESS_MASK n \<longleftrightarrow> 12 \<le> n \<and> n < 52"
proof -
  have "ADDRESS_MASK = push_bit 12 (mask 40)" by (simp add: ADDRESS_MASK_def mask_eq_exp_minus_1)
  then have "bit ADDRESS_MASK n \<longleftrightarrow> bit (push_bit 12 (mask 40 :: u64)) n" by simp
  also have "\<dots> \<longleftrightarrow> 12 \<le> n \<and> n < 52" by (auto simp add: bit_push_bit_iff Bit_Operations.bit_mask_iff simp del: push_bit_mask_eq)
  finally show ?thesis .
qed

lemma flags_contains_bit: "n < 64 \<Longrightarrow> flags_contains fl (push_bit n 1) \<longleftrightarrow> bit fl n"
proof
  assume "n < 64" "flags_contains fl (push_bit n 1)"
  then show "bit fl n" unfolding flags_contains_def by (metis bit_and_iff bit_push_one)
next
  assume "n < 64" "bit fl n"
  then show "flags_contains fl (push_bit n 1)"
    unfolding flags_contains_def by (intro bit_word_eqI) (simp only: bit_and_iff bit_push_one, blast)
qed

lemma flags_contains_consts:
  "flags_contains fl PRESENT \<longleftrightarrow> bit fl 0" "flags_contains fl WRITABLE \<longleftrightarrow> bit fl 1"
  "flags_contains fl HUGE_PAGE \<longleftrightarrow> bit fl 7" "flags_contains fl NO_EXECUTE \<longleftrightarrow> bit fl 63"
  unfolding flag_defs by (rule flags_contains_bit, simp)+

lemma entry_flags_contains:
  "flags_contains (entry_flags e) PRESENT \<longleftrightarrow> bit e 0"
  "flags_contains (entry_flags e) WRITABLE \<longleftrightarrow> bit e 1"
  "flags_contains (entry_flags e) HUGE_PAGE \<longleftrightarrow> bit e 7"
  "flags_contains (entry_flags e) NO_EXECUTE \<longleftrightarrow> bit e 63"
  unfolding flags_contains_consts entry_flags_def from_bits_truncate_def bit_and_iff bit_all_flags
  by simp_all

text \<open>The frame field of an entry, whether the entry is present or not.\<close>

definition entry_frame :: "Entry \<Rightarrow> Frame" where
  "entry_frame e = Frame (take_bit 40 (drop_bit 12 e))"

lemma pointed_frame_eq: "pointed_frame e = (if bit e 0 then Some (entry_frame e) else None)"
proof -
  have "drop_bit 12 (e AND ADDRESS_MASK) = take_bit 40 (drop_bit 12 e)"
    by (rule bit_word_eqI) (auto simp: bit_simps bit_ADDRESS_MASK)
  then show ?thesis
    by (simp add: pointed_frame_def entry_flags_contains frame_containing_address_def
        div_PAGE_SIZE entry_frame_def)
qed

text \<open>A frame number fits an entry when it has 40 bits; these are the frames x86 can address.\<close>

definition frame_ok :: "Frame \<Rightarrow> bool" where
  "frame_ok f \<longleftrightarrow> take_bit 40 (frame_number f) = frame_number f"

lemma frame_ok_bound: "frame_ok f \<longleftrightarrow> unat (frame_number f) < 2 ^ 40"
proof -
  have "frame_ok f \<longleftrightarrow> take_bit 40 (unat (frame_number f)) = unat (frame_number f)"
    unfolding frame_ok_def by (simp add: word_unat_eq_iff unsigned_take_bit_eq)
  then show ?thesis by (simp add: take_bit_nat_eq_self_iff)
qed

lemma frame_ok_entry_frame [simp]: "frame_ok (entry_frame e)"
  by (simp add: frame_ok_def entry_frame_def)

lemma entry_set_ok:
  assumes "frame_ok f"
  shows "entry_set f fl = Inr (push_bit 12 (frame_number f) OR fl)"
proof -
  have "bit (frame_number f) n \<Longrightarrow> n < 40" for n
    using assms by (metis frame_ok_def bit_take_bit_iff)
  then have "push_bit 12 (frame_number f) AND NOT ADDRESS_MASK = 0"
    by (intro bit_word_eqI) (fastforce simp: bit_simps bit_ADDRESS_MASK)
  moreover have "unat (frame_number f) < 2 ^ 52"
    using assms by (simp add: frame_ok_bound)
  ultimately show ?thesis
    by (simp add: entry_set_def frame_start_address_def mult_PAGE_SIZE)
qed

lemma entry_set_Inr_frame_ok:
  assumes "entry_set f fl = Inr e"
  shows "frame_ok f"
proof -
  from assms have b: "unat (frame_number f) < 2 ^ 52"
    and z: "push_bit 12 (frame_number f) AND NOT ADDRESS_MASK = 0"
    by (auto simp: entry_set_def frame_start_address_def mult_PAGE_SIZE res_simps split: if_splits)
  have "\<not> bit (frame_number f) n" if "40 \<le> n" for n
  proof (cases "n < 52")
    case True
    have "\<not> bit (push_bit 12 (frame_number f) AND NOT ADDRESS_MASK) (n + 12)" using z by simp
    with True that show ?thesis by (auto simp: bit_simps bit_ADDRESS_MASK)
  next
    case False
    have "take_bit 52 (frame_number f) = frame_number f"
      using b by (simp add: word_unat_eq_iff unsigned_take_bit_eq take_bit_nat_eq_self_iff)
    with False show ?thesis by (metis bit_take_bit_iff)
  qed
  then show ?thesis
    unfolding frame_ok_def by (intro bit_word_eqI) (auto simp: bit_simps intro: leI)
qed

lemma flags_ok_bit: "flags_ok fl \<Longrightarrow> bit fl n \<Longrightarrow> n < 9 \<or> n = 63"
  unfolding flags_ok_def by (metis bit_and_iff bit_all_flags)

lemma made_entry:
  assumes "frame_ok f" and "flags_ok fl"
  shows "entry_frame (push_bit 12 (frame_number f) OR fl) = f"
    and "entry_flags (push_bit 12 (frame_number f) OR fl) = fl"
proof -
  have low: "bit (frame_number f) n \<Longrightarrow> n < 40" for n
    using assms(1) by (metis frame_ok_def bit_take_bit_iff)
  have "take_bit 40 (drop_bit 12 (push_bit 12 (frame_number f) OR fl)) = frame_number f"
    by (rule bit_word_eqI) (auto simp: bit_simps dest: low flags_ok_bit [OF assms(2)])
  then show "entry_frame (push_bit 12 (frame_number f) OR fl) = f"
    by (simp add: entry_frame_def)
  show "entry_flags (push_bit 12 (frame_number f) OR fl) = fl"
    unfolding entry_flags_def from_bits_truncate_def
    by (rule bit_word_eqI)
      (auto simp: bit_simps bit_all_flags dest: low flags_ok_bit [OF assms(2)])
qed

lemma made_entry_bit:
  "n < 12 \<Longrightarrow> bit (push_bit 12 (frame_number f) OR fl) n \<longleftrightarrow> bit fl n"
  by (simp add: bit_simps)

lemma flags_ok_or: "flags_ok a \<Longrightarrow> flags_ok b \<Longrightarrow> flags_ok (a OR b)"
  unfolding flags_ok_def by (simp add: bit.conj_disj_distrib2)

lemma flags_ok_consts [simp]:
  "flags_ok PRESENT" "flags_ok WRITABLE" "flags_ok NO_EXECUTE" "flags_ok HUGE_PAGE" "flags_ok 0"
  by (simp_all add: flags_ok_def all_flags_def flag_defs)

section \<open>Properties\<close>

text \<open>
  C34. Setting an entry and reading it back: when \<^verbatim>\<open>set\<close> does not panic, the entry has exactly
  the given flags, and with \<^verbatim>\<open>PRESENT\<close> among them it points to the given frame; \<^verbatim>\<open>set\<close> panics
  exactly for the frames whose number does not fit in 40 bits.
\<close>

theorem entry_set_roundtrip:
  assumes "flags_ok fl"
  shows "(case entry_set f fl of
       Inl _ \<Rightarrow> 2 ^ 40 \<le> unat (frame_number f)
     | Inr e \<Rightarrow> unat (frame_number f) < 2 ^ 40 \<and> entry_flags e = fl
         \<and> pointed_frame e = (if flags_contains fl PRESENT then Some f else None))"
proof (cases "frame_ok f")
  case True
  with assms show ?thesis
    using frame_ok_bound [of f]
    by (simp add: entry_set_ok made_entry pointed_frame_eq made_entry_bit flags_contains_consts)
next
  case False
  then obtain p where "entry_set f fl = Inl p"
    using entry_set_Inr_frame_ok by (cases "entry_set f fl") auto
  with False show ?thesis by (simp add: frame_ok_bound)
qed

theorem entry_set_roundtrip_witness:
  "flags_ok (PRESENT OR NO_EXECUTE) \<and> (case entry_set (Frame 0xb8) (PRESENT OR NO_EXECUTE) of
       Inl _ \<Rightarrow> 2 ^ 40 \<le> unat (frame_number (Frame 0xb8))
     | Inr e \<Rightarrow> unat (frame_number (Frame 0xb8)) < 2 ^ 40 \<and> entry_flags e = PRESENT OR NO_EXECUTE
         \<and> pointed_frame e = (if flags_contains (PRESENT OR NO_EXECUTE) PRESENT then Some (Frame 0xb8) else None))"
  using entry_set_roundtrip [of "PRESENT OR NO_EXECUTE" "Frame 0xb8"] by (simp add: flags_ok_or)

text \<open>
  The page flags of an ELF section follow the section: present exactly when allocated,
  writable exactly when the section is, and not executable exactly when the section is not;
  no other flag is set.
\<close>

theorem from_elf_section_flags_spec:
  "flags_contains (from_elf_section_flags s) PRESENT = sec_allocated s
   \<and> flags_contains (from_elf_section_flags s) WRITABLE = sec_writable s
   \<and> flags_contains (from_elf_section_flags s) NO_EXECUTE = (\<not> sec_executable s)
   \<and> from_elf_section_flags s AND NOT (PRESENT OR WRITABLE OR NO_EXECUTE) = 0"
  by (simp add: from_elf_section_flags_def flags_contains_def flag_defs Let_def)

end
