(* ===== verification/Frame_Alloc.thy ===== *)
theory Frame_Alloc
  imports Addresses
begin

text \<open>
  The physical frame allocator, \<^verbatim>\<open>arch/x86_64/memory/area_frame_allocator.rs\<close>. A memory area
  is a value of the \<^verbatim>\<open>multiboot2\<close> crate; the allocator reads its start address and its size,
  and the iterator over the areas is the list of the areas the boot loader reported.

  The abstract allocator is a set of free frames. \<open>allocate_frame_refines\<close> shows that a request
  for one frame takes the lowest free frame out of that set and fails exactly when the set is
  empty; the locale \<open>frame_allocator\<close> states this contract for the clients.
\<close>

section \<open>State\<close>

record MemoryArea =
  area_start :: usize
  area_size :: usize

record AreaFrameAllocator =
  next_free_frame :: Frame
  current_area :: "MemoryArea option"
  areas :: "MemoryArea list"
  kernel_start :: Frame
  kernel_end :: Frame
  multiboot_start :: Frame
  multiboot_end :: Frame

section \<open>Operations\<close>

definition area_first_frame :: "MemoryArea \<Rightarrow> Frame" where
  "area_first_frame area = frame_containing_address (PhysicalAddress (area_start area))"

definition area_last_frame :: "MemoryArea \<Rightarrow> Frame res" where
  "area_last_frame area =
     rbind (checked_add (area_start area) (area_size area)) (\<lambda>e.
     rbind (checked_sub e 1) (\<lambda>address.
     Inr (frame_containing_address (PhysicalAddress address))))"

definition choose_next_area :: "AreaFrameAllocator \<Rightarrow> AreaFrameAllocator res" where
  "choose_next_area a =
     rbind (rfilter (\<lambda>area. rbind (area_last_frame area) (\<lambda>l. Inr (next_free_frame a \<le> l))) (areas a))
       (\<lambda>candidates.
          let a = a\<lparr>current_area := min_by_key area_start candidates\<rparr> in
          case current_area a of
            None \<Rightarrow> Inr a
          | Some area \<Rightarrow>
              (let start_frame = area_first_frame area in
               Inr (if next_free_frame a < start_frame then a\<lparr>next_free_frame := start_frame\<rparr> else a)))"

text \<open>
  One call of \<^verbatim>\<open>allocate_frame\<close> up to its recursive call: it returns, or it tries again with the
  updated allocator.
\<close>

datatype attempt = Return "Frame option" AreaFrameAllocator | Retry AreaFrameAllocator

definition allocate_frame_attempt :: "AreaFrameAllocator \<Rightarrow> usize \<Rightarrow> attempt res" where
  "allocate_frame_attempt a count =
     (if count = 0 then Inr (Return None a)
      else case current_area a of
        None \<Rightarrow> Inr (Return None a)
      | Some area \<Rightarrow>
          (let start_frame = Frame (frame_number (next_free_frame a)) in
           rbind (checked_sub count 1) (\<lambda>k.
           rbind (checked_add (frame_number (next_free_frame a)) k) (\<lambda>n.
           let end_frame = Frame n in
           rbind (area_last_frame area) (\<lambda>current_area_last_frame.
             if end_frame > current_area_last_frame then
               rbind (choose_next_area a) (\<lambda>a'. Inr (Retry a'))
             else if (start_frame \<ge> kernel_start a \<and> start_frame \<le> kernel_end a)
                   \<or> (end_frame \<ge> kernel_start a \<and> start_frame \<le> kernel_end a) then
               rbind (checked_add (frame_number (kernel_end a)) 1)
                 (\<lambda>m. Inr (Retry (a\<lparr>next_free_frame := Frame m\<rparr>)))
             else if (start_frame \<ge> multiboot_start a \<and> start_frame \<le> multiboot_end a)
                   \<or> (end_frame \<ge> multiboot_start a \<and> end_frame \<le> multiboot_end a) then
               rbind (checked_add (frame_number (multiboot_end a)) 1)
                 (\<lambda>m. Inr (Retry (a\<lparr>next_free_frame := Frame m\<rparr>)))
             else
               rbind (checked_add (frame_number (next_free_frame a)) 1)
                 (\<lambda>m. Inr (Return (Some start_frame) (a\<lparr>next_free_frame := Frame m\<rparr>))))))))"

partial_function (option) allocate_frame ::
  "AreaFrameAllocator \<Rightarrow> usize \<Rightarrow> (Frame option \<times> AreaFrameAllocator) res option" where
  "allocate_frame a count =
     (case allocate_frame_attempt a count of
        Inl e \<Rightarrow> Some (Inl e)
      | Inr (Return f a') \<Rightarrow> Some (Inr (f, a'))
      | Inr (Retry a') \<Rightarrow> allocate_frame a' count)"

definition deallocate_frame :: "AreaFrameAllocator \<Rightarrow> Frame \<Rightarrow> AreaFrameAllocator res" where
  "deallocate_frame a f = Inl Unimplemented"

definition count_frame :: "AreaFrameAllocator \<Rightarrow> Frame \<Rightarrow> usize \<Rightarrow> usize res" where
  "count_frame a f count =
     (if f \<ge> kernel_start a \<and> f \<le> kernel_end a then Inr count
      else if f \<ge> next_free_frame a then checked_add count 1
      else Inr count)"

definition free_frames :: "AreaFrameAllocator \<Rightarrow> usize res" where
  "free_frames a =
     rfold (\<lambda>area count.
       rbind (area_last_frame area) (\<lambda>end_frame.
       rbind (frames_of (frame_range_inclusive (area_first_frame area) end_frame)) (\<lambda>fs.
       rfold (count_frame a) fs count))) (areas a) 0"

definition area_frame_allocator_new ::
  "usize \<Rightarrow> usize \<Rightarrow> usize \<Rightarrow> usize \<Rightarrow> MemoryArea list \<Rightarrow> AreaFrameAllocator res" where
  "area_frame_allocator_new k_start k_end mb_start mb_end memory_areas =
     (let allocator =
        \<lparr>next_free_frame = frame_containing_address (PhysicalAddress 0),
         current_area = None,
         areas = memory_areas,
         kernel_start = frame_containing_address (PhysicalAddress k_start),
         kernel_end = frame_containing_address (PhysicalAddress k_end),
         multiboot_start = frame_containing_address (PhysicalAddress mb_start),
         multiboot_end = frame_containing_address (PhysicalAddress mb_end)\<rparr> in
      rbind (choose_next_area allocator) (\<lambda>allocator.
      rbind (returns (allocate_frame allocator 1)) (\<lambda>(_, allocator). Inr allocator)))"

section \<open>The abstract allocator\<close>

text \<open>The last frame of an area whose end does not overflow.\<close>

definition last_frame :: "MemoryArea \<Rightarrow> Frame" where
  "last_frame area = frame_containing_address (PhysicalAddress (area_start area + area_size area - 1))"

definition area_ok :: "MemoryArea \<Rightarrow> bool" where
  "area_ok area \<longleftrightarrow> unat (area_start area) + unat (area_size area) < 2 ^ 64
     \<and> 0 < unat (area_start area) + unat (area_size area)"

definition in_area :: "Frame \<Rightarrow> MemoryArea \<Rightarrow> bool" where
  "in_area f area \<longleftrightarrow> area_first_frame area \<le> f \<and> f \<le> last_frame area"

definition reserved :: "AreaFrameAllocator \<Rightarrow> Frame \<Rightarrow> bool" where
  "reserved a f \<longleftrightarrow> kernel_start a \<le> f \<and> f \<le> kernel_end a
     \<or> multiboot_start a \<le> f \<and> f \<le> multiboot_end a"

definition free_set :: "AreaFrameAllocator \<Rightarrow> Frame set" where
  "free_set a =
     {f. next_free_frame a \<le> f \<and> \<not> reserved a f \<and> (\<exists>area \<in> set (areas a). in_area f area)}"

text \<open>
  The invariant: the ends of the areas and of the two reserved ranges do not overflow, and the
  current area is one of the areas, not above the next free frame; without a current area
  every area lies below it.
\<close>

definition alloc_wf :: "AreaFrameAllocator \<Rightarrow> bool" where
  "alloc_wf a \<longleftrightarrow>
     (\<forall>area \<in> set (areas a). area_ok area)
     \<and> frame_number (kernel_end a) \<noteq> -1 \<and> frame_number (multiboot_end a) \<noteq> -1
     \<and> (case current_area a of
          None \<Rightarrow> \<forall>area \<in> set (areas a). last_frame area < next_free_frame a
        | Some area \<Rightarrow> area \<in> set (areas a) \<and> area_first_frame area \<le> next_free_frame a)"

section \<open>Areas\<close>

lemma area_last_frame_ok: "area_ok area \<Longrightarrow> area_last_frame area = Inr (last_frame area)"
proof -
  assume ok: "area_ok area"
  then have "unat (area_start area + area_size area) = unat (area_start area) + unat (area_size area)"
    by (simp add: area_ok_def unat_add_small)
  with ok have "1 \<le> area_start area + area_size area"
    by (auto simp: area_ok_def word_le_nat_alt)
  with ok show ?thesis
    by (simp add: area_last_frame_def area_ok_def last_frame_def checked_add_def checked_sub_def)
qed

lemma frame_containing_mono:
  "a \<le> b \<Longrightarrow> frame_containing_address (PhysicalAddress a) \<le> frame_containing_address (PhysicalAddress b)"
  by (simp add: frame_containing_address_def PAGE_SIZE_def word_le_nat_alt unat_div div_le_mono)

lemma frame_number_last_frame: "frame_number (last_frame area) \<noteq> -1"
proof -
  have "unat (frame_number (last_frame area)) < 2 ^ 52"
    using unat_drop_12_bound
    by (simp add: last_frame_def frame_containing_address_def div_PAGE_SIZE)
  then show ?thesis using unat_add_one_bound [of "frame_number (last_frame area)"] by simp
qed

lemma frame_below_ne_max: "f \<le> g \<Longrightarrow> frame_number g \<noteq> -1 \<Longrightarrow> frame_number f \<noteq> -1"
  by (auto simp: less_eq_Frame_def dest: below_max)

lemma less_succ_Frame:
  "frame_number f \<noteq> -1 \<Longrightarrow> f < Frame (frame_number f + 1)"
  by (simp add: less_Frame_def word_less_nat_alt unat_succ)

lemma succ_le_Frame:
  "frame_number f \<noteq> -1 \<Longrightarrow> Frame (frame_number f + 1) \<le> g \<longleftrightarrow> f < g"
  by (simp add: less_Frame_def less_eq_Frame_def word_less_nat_alt word_le_nat_alt unat_succ Suc_le_eq)

section \<open>Choosing the next area\<close>

lemma choose_next_area_cases:
  assumes "\<forall>area \<in> set (areas a). area_ok area"
  shows "(choose_next_area a = Inr (a\<lparr>current_area := None\<rparr>)
            \<and> (\<forall>area \<in> set (areas a). last_frame area < next_free_frame a))
       \<or> (\<exists>area \<in> set (areas a). next_free_frame a \<le> last_frame area
            \<and> (\<forall>b \<in> set (areas a). next_free_frame a \<le> last_frame b \<longrightarrow> area_start area \<le> area_start b)
            \<and> choose_next_area a = Inr (a\<lparr>current_area := Some area,
                  next_free_frame := max (next_free_frame a) (area_first_frame area)\<rparr>))"
proof -
  let ?cs = "filter (\<lambda>area. next_free_frame a \<le> last_frame area) (areas a)"
  have cands: "rfilter (\<lambda>area. rbind (area_last_frame area) (\<lambda>l. Inr (next_free_frame a \<le> l))) (areas a)
    = Inr ?cs"
    by (rule rfilter_pure) (use assms in \<open>simp add: area_last_frame_ok\<close>)
  show ?thesis
  proof (cases "min_by_key area_start ?cs")
    case None
    then have "?cs = []" by simp
    then have "\<forall>area \<in> set (areas a). last_frame area < next_free_frame a"
      by (simp add: filter_empty_conv not_le)
    with None show ?thesis by (simp add: choose_next_area_def cands)
  next
    case (Some area)
    from min_by_key_Some [OF this] have "area \<in> set (areas a)" "next_free_frame a \<le> last_frame area"
      "\<forall>b \<in> set (areas a). next_free_frame a \<le> last_frame b \<longrightarrow> area_start area \<le> area_start b"
      by auto
    with Some show ?thesis
      by (auto simp: choose_next_area_def cands Let_def max_def intro!: bexI [of _ area])
  qed
qed

lemma free_set_skip:
  assumes "current_area a' = c"
    and "a' = a\<lparr>current_area := c, next_free_frame := n\<rparr>" and "next_free_frame a \<le> n"
    and "\<And>f. next_free_frame a \<le> f \<Longrightarrow> f < n \<Longrightarrow> \<not> reserved a f \<Longrightarrow>
           \<not> (\<exists>area \<in> set (areas a). in_area f area)"
  shows "free_set a' = free_set a"
  using assms by (auto simp: free_set_def reserved_def) (meson not_le)+

text \<open>
  Choosing an area skips no free frame: the frames it passes over belong to no area.
\<close>

lemma choose_next_area_ok:
  assumes "\<forall>area \<in> set (areas a). area_ok area"
    and "frame_number (kernel_end a) \<noteq> -1" and "frame_number (multiboot_end a) \<noteq> -1"
  obtains a' where "choose_next_area a = Inr a'" and "alloc_wf a'" and "free_set a' = free_set a"
  using choose_next_area_cases [OF assms(1)]
proof (elim disjE bexE conjE)
  assume c: "choose_next_area a = Inr (a\<lparr>current_area := None\<rparr>)"
    and none: "\<forall>area \<in> set (areas a). last_frame area < next_free_frame a"
  show ?thesis
    by (rule that [OF c]) (use assms none in \<open>auto simp: alloc_wf_def free_set_def reserved_def\<close>)
next
  fix area
  assume area: "area \<in> set (areas a)" "next_free_frame a \<le> last_frame area"
    and least: "\<forall>b \<in> set (areas a). next_free_frame a \<le> last_frame b \<longrightarrow> area_start area \<le> area_start b"
    and c: "choose_next_area a = Inr (a\<lparr>current_area := Some area,
                  next_free_frame := max (next_free_frame a) (area_first_frame area)\<rparr>)"
  let ?a' = "a\<lparr>current_area := Some area, next_free_frame := max (next_free_frame a) (area_first_frame area)\<rparr>"
  have "free_set ?a' = free_set a"
  proof (rule free_set_skip [OF refl])
    fix f
    assume f: "next_free_frame a \<le> f" "f < max (next_free_frame a) (area_first_frame area)"
    show "\<not> (\<exists>b \<in> set (areas a). in_area f b)"
    proof
      assume "\<exists>b \<in> set (areas a). in_area f b"
      then obtain b where b: "b \<in> set (areas a)" "in_area f b" ..
      with f(1) least have "area_start area \<le> area_start b"
        by (auto simp: in_area_def)
      then have "area_first_frame area \<le> area_first_frame b"
        by (simp add: area_first_frame_def frame_containing_mono)
      with b f show False by (auto simp: in_area_def less_max_iff_disj)
    qed
  qed auto
  then show ?thesis
    by (intro that [OF c]) (use assms area in \<open>auto simp: alloc_wf_def\<close>)
qed

section \<open>Allocating one frame\<close>

text \<open>Every retry of a request for one frame makes progress, so the recursion ends.\<close>

definition alloc_measure :: "AreaFrameAllocator \<Rightarrow> nat" where
  "alloc_measure a = 2 * (2 ^ 64 - unat (frame_number (next_free_frame a)))
     + (case current_area a of
          None \<Rightarrow> 0
        | Some area \<Rightarrow> (case area_last_frame area of
            Inl _ \<Rightarrow> 0 | Inr l \<Rightarrow> if l < next_free_frame a then 1 else 0))"

lemma alloc_measure_less_next:
  assumes "next_free_frame a < next_free_frame a'"
  shows "alloc_measure a' < alloc_measure a"
proof -
  have "unat (frame_number (next_free_frame a)) < unat (frame_number (next_free_frame a'))"
    using assms by (simp add: less_Frame_def word_less_nat_alt)
  moreover have "unat (frame_number (next_free_frame a')) < 2 ^ 64"
    using unat_bound [of "frame_number (next_free_frame a')"] by simp
  ultimately show ?thesis
    by (auto simp: alloc_measure_def split: option.splits sum.splits)
qed

text \<open>
  A request for one frame looks at the next free frame only. Outside the current area it
  chooses the next area, inside a reserved range it jumps behind it, else it takes the frame.
\<close>

lemma attempt_one:
  assumes "current_area a = Some area"
  shows "allocate_frame_attempt a 1 =
     rbind (area_last_frame area) (\<lambda>l.
       if l < next_free_frame a then rbind (choose_next_area a) (\<lambda>a'. Inr (Retry a'))
       else if kernel_start a \<le> next_free_frame a \<and> next_free_frame a \<le> kernel_end a then
         rbind (checked_add (frame_number (kernel_end a)) 1)
           (\<lambda>m. Inr (Retry (a\<lparr>next_free_frame := Frame m\<rparr>)))
       else if multiboot_start a \<le> next_free_frame a \<and> next_free_frame a \<le> multiboot_end a then
         rbind (checked_add (frame_number (multiboot_end a)) 1)
           (\<lambda>m. Inr (Retry (a\<lparr>next_free_frame := Frame m\<rparr>)))
       else
         rbind (checked_add (frame_number (next_free_frame a)) 1)
           (\<lambda>m. Inr (Return (Some (next_free_frame a)) (a\<lparr>next_free_frame := Frame m\<rparr>))))"
  using assms by (cases "area_last_frame area") (auto simp: allocate_frame_attempt_def checked_sub_def Let_def)

lemma choose_next_area_progress:
  assumes "choose_next_area a = Inr a'" and "current_area a = Some area"
    and "area_last_frame area = Inr l" and "l < next_free_frame a"
  shows "alloc_measure a' < alloc_measure a"
proof -
  let ?p = "\<lambda>area. rbind (area_last_frame area) (\<lambda>l. Inr (next_free_frame a \<le> l))"
  from assms(1) obtain cs where cs: "rfilter ?p (areas a) = Inr cs"
    by (auto simp: choose_next_area_def res_simps)
  with assms(1) have a': "a' = (case min_by_key area_start cs of
       None \<Rightarrow> a\<lparr>current_area := None\<rparr>
     | Some b \<Rightarrow> a\<lparr>current_area := Some b, next_free_frame := max (next_free_frame a) (area_first_frame b)\<rparr>)"
    by (cases "min_by_key area_start cs") (auto simp: choose_next_area_def Let_def max_def)
  show ?thesis
  proof (cases "next_free_frame a < next_free_frame a'")
    case True
    then show ?thesis by (rule alloc_measure_less_next)
  next
    case False
    with a' have same: "next_free_frame a' = next_free_frame a"
      by (auto split: option.splits simp: max_def)
    have "\<exists>l. area_last_frame b = Inr l \<and> next_free_frame a \<le> l" if "current_area a' = Some b" for b
    proof -
      from that a' have "min_by_key area_start cs = Some b" by (auto split: option.splits)
      then have "b \<in> set cs" by (simp add: min_by_key_Some)
      with rfilter_eq_Inr [OF cs] show ?thesis by (auto simp: res_simps)
    qed
    then show ?thesis using same assms(2-4)
      by (fastforce simp: alloc_measure_def split: option.splits)
  qed
qed

lemma attempt_one_progress:
  assumes "allocate_frame_attempt a 1 = Inr (Retry a')"
  shows "alloc_measure a' < alloc_measure a"
proof (cases "current_area a")
  case None
  with assms show ?thesis by (simp add: allocate_frame_attempt_def)
next
  case (Some area)
  have "next_free_frame a < Frame (frame_number g + 1)"
    if "next_free_frame a \<le> g" "frame_number g \<noteq> -1" for g
    using that less_succ_Frame [of g] by simp
  with assms Some show ?thesis
    by (auto simp: attempt_one res_simps checked_add_one split: if_splits
        intro: choose_next_area_progress alloc_measure_less_next)
qed

lemma allocate_frame_terminates: "\<exists>r. allocate_frame a 1 = Some r"
proof (induction "alloc_measure a" arbitrary: a rule: less_induct)
  case less
  show ?case
  proof (cases "allocate_frame_attempt a 1")
    case (Inl e)
    then show ?thesis by (simp add: allocate_frame.simps)
  next
    case (Inr t)
    then show ?thesis
      using less attempt_one_progress by (cases t) (auto simp: allocate_frame.simps [of a])
  qed
qed

text \<open>One attempt on a well-formed allocator against the set of free frames.\<close>

lemma attempt_one_spec:
  assumes wf: "alloc_wf a"
  obtains (none) "allocate_frame_attempt a 1 = Inr (Return None a)" and "free_set a = {}"
  | (some) f a' where "allocate_frame_attempt a 1 = Inr (Return (Some f) a')" and "alloc_wf a'"
      and "f \<in> free_set a" and "\<forall>g \<in> free_set a. f \<le> g" and "free_set a' = free_set a - {f}"
  | (retry) a' where "allocate_frame_attempt a 1 = Inr (Retry a')" and "alloc_wf a'"
      and "free_set a' = free_set a"
proof (cases "current_area a")
  case None
  with wf have "free_set a = {}"
    by (fastforce simp: alloc_wf_def free_set_def in_area_def)
  with None show ?thesis by (intro none) (auto simp: allocate_frame_attempt_def)
next
  case (Some area)
  note att = attempt_one [OF Some]
  from wf Some have ok: "\<forall>b \<in> set (areas a). area_ok b" and ke: "frame_number (kernel_end a) \<noteq> -1"
    and me: "frame_number (multiboot_end a) \<noteq> -1" and area: "area \<in> set (areas a)"
    and first: "area_first_frame area \<le> next_free_frame a"
    by (auto simp: alloc_wf_def)
  have l: "area_last_frame area = Inr (last_frame area)" using ok area by (simp add: area_last_frame_ok)
  have skip: "alloc_wf a' \<and> free_set a' = free_set a"
    if "a' = a\<lparr>next_free_frame := Frame (frame_number e + 1)\<rparr>" "next_free_frame a \<le> e"
      "frame_number e \<noteq> -1" "\<And>f. next_free_frame a \<le> f \<Longrightarrow> f \<le> e \<Longrightarrow> reserved a f" for a' e
  proof -
    have "next_free_frame a < Frame (frame_number e + 1)" using that(2,3) less_succ_Frame [of e] by simp
    with that(1) wf Some first have "alloc_wf a'" by (auto simp: alloc_wf_def)
    moreover have "free_set a' = free_set a"
      using that by (auto simp: free_set_def reserved_def succ_le_Frame not_less) (meson leI)+
    ultimately show ?thesis ..
  qed
  consider (out) "last_frame area < next_free_frame a"
    | (kern) "\<not> last_frame area < next_free_frame a"
        "kernel_start a \<le> next_free_frame a \<and> next_free_frame a \<le> kernel_end a"
    | (mb) "\<not> last_frame area < next_free_frame a"
        "\<not> (kernel_start a \<le> next_free_frame a \<and> next_free_frame a \<le> kernel_end a)"
        "multiboot_start a \<le> next_free_frame a \<and> next_free_frame a \<le> multiboot_end a"
    | (free) "\<not> last_frame area < next_free_frame a"
        "\<not> (kernel_start a \<le> next_free_frame a \<and> next_free_frame a \<le> kernel_end a)"
        "\<not> (multiboot_start a \<le> next_free_frame a \<and> next_free_frame a \<le> multiboot_end a)"
    by blast
  then show ?thesis
  proof cases
    case out
    obtain a' where "choose_next_area a = Inr a'" "alloc_wf a'" "free_set a' = free_set a"
      using choose_next_area_ok [OF ok ke me] by metis
    with out show ?thesis by (intro retry [of a']) (simp_all add: att l)
  next
    case kern
    then have "alloc_wf (a\<lparr>next_free_frame := Frame (frame_number (kernel_end a) + 1)\<rparr>)
      \<and> free_set (a\<lparr>next_free_frame := Frame (frame_number (kernel_end a) + 1)\<rparr>) = free_set a"
      by (intro skip [OF refl _ ke]) (auto simp: reserved_def)
    with kern show ?thesis
      by (intro retry [of "a\<lparr>next_free_frame := Frame (frame_number (kernel_end a) + 1)\<rparr>"]) (auto simp: att l checked_add_one ke reserved_def)
  next
    case mb
    then have "alloc_wf (a\<lparr>next_free_frame := Frame (frame_number (multiboot_end a) + 1)\<rparr>)
      \<and> free_set (a\<lparr>next_free_frame := Frame (frame_number (multiboot_end a) + 1)\<rparr>) = free_set a"
      by (intro skip [OF refl _ me]) (auto simp: reserved_def)
    with mb show ?thesis
      by (intro retry [of "a\<lparr>next_free_frame := Frame (frame_number (multiboot_end a) + 1)\<rparr>"]) (auto simp: att l checked_add_one me reserved_def)
  next
    case free
    have n: "frame_number (next_free_frame a) \<noteq> -1"
      using free(1) frame_below_ne_max frame_number_last_frame by (metis not_less)
    let ?a' = "a\<lparr>next_free_frame := Frame (frame_number (next_free_frame a) + 1)\<rparr>"
    have "alloc_wf ?a'"
      using wf Some first less_succ_Frame [OF n] by (auto simp: alloc_wf_def)
    moreover have "next_free_frame a \<in> free_set a"
      using free first area by (auto simp: free_set_def reserved_def in_area_def)
    moreover have "free_set ?a' = free_set a - {next_free_frame a}"
      using n by (auto simp: free_set_def reserved_def succ_le_Frame)
    ultimately show ?thesis using free n
      by (intro some [of "next_free_frame a" ?a']) (auto simp: att l checked_add_one free_set_def)
  qed
qed

lemma allocate_frame_one:
  assumes "alloc_wf a"
  shows "\<exists>r a'. allocate_frame a 1 = Some (Inr (r, a')) \<and> alloc_wf a'
     \<and> (case r of
          None \<Rightarrow> free_set a = {} \<and> free_set a' = {}
        | Some f \<Rightarrow> f \<in> free_set a \<and> (\<forall>g \<in> free_set a. f \<le> g) \<and> free_set a' = free_set a - {f})"
  using assms
proof (induction "alloc_measure a" arbitrary: a rule: less_induct)
  case less
  from less.prems show ?case
  proof (cases rule: attempt_one_spec)
    case none
    with less.prems show ?thesis by (simp add: allocate_frame.simps)
  next
    case (some f a')
    then show ?thesis by (simp add: allocate_frame.simps)
  next
    case (retry a')
    from retry(1) have "alloc_measure a' < alloc_measure a" by (rule attempt_one_progress)
    from less.hyps [OF this retry(2)] show ?thesis
      unfolding retry(3) by (simp add: allocate_frame.simps [of a] retry(1))
  qed
qed

section \<open>The contract of a frame allocator\<close>

text \<open>
  What the clients of the trait \<^verbatim>\<open>FrameAllocator\<close> rely on, for requests of one frame: \<open>alloc\<close>
  is the call, \<open>wf\<close> its invariant, \<open>free\<close> the frames it may still hand out.
\<close>

locale frame_allocator =
  fixes alloc :: "'a \<Rightarrow> (Frame option \<times> 'a) res"
    and wf :: "'a \<Rightarrow> bool"
    and free :: "'a \<Rightarrow> Frame set"
  assumes alloc_returns: "wf a \<Longrightarrow> \<exists>r a'. alloc a = Inr (r, a') \<and> wf a'"
    and alloc_some: "wf a \<Longrightarrow> alloc a = Inr (Some f, a') \<Longrightarrow> f \<in> free a \<and> free a' = free a - {f}"
    and alloc_none: "wf a \<Longrightarrow> alloc a = Inr (None, a') \<Longrightarrow> free a = {} \<and> free a' = {}"
begin

lemma alloc_wf_after: "wf a \<Longrightarrow> alloc a = Inr (r, a') \<Longrightarrow> wf a'"
  using alloc_returns [of a] by auto

text \<open>Repeated requests, stopping at the first that fails.\<close>

primrec take_frames :: "nat \<Rightarrow> 'a \<Rightarrow> Frame list" where
  "take_frames 0 a = []"
| "take_frames (Suc n) a =
     (case alloc a of Inr (Some f, a') \<Rightarrow> f # take_frames n a' | _ \<Rightarrow> [])"

lemma take_frames_free: "wf a \<Longrightarrow> set (take_frames n a) \<subseteq> free a"
proof (induction n arbitrary: a)
  case (Suc n)
  from alloc_returns [OF Suc.prems] obtain r a' where r: "alloc a = Inr (r, a')" "wf a'" by blast
  with Suc.IH [OF r(2)] alloc_some [OF Suc.prems] show ?case
    by (auto split: option.splits)
qed simp

lemma take_frames_distinct: "wf a \<Longrightarrow> distinct (take_frames n a)"
proof (induction n arbitrary: a)
  case (Suc n)
  from alloc_returns [OF Suc.prems] obtain r a' where r: "alloc a = Inr (r, a')" "wf a'" by blast
  show ?case
  proof (cases r)
    case (Some f)
    with alloc_some [OF Suc.prems] r have "f \<notin> free a'" by simp
    with take_frames_free [OF r(2), of n] Suc.IH [OF r(2)] r Some show ?thesis by auto
  qed (use r in simp)
qed simp

text \<open>As many requests succeed as there are free frames.\<close>

lemma length_take_frames: "wf a \<Longrightarrow> finite (free a) \<Longrightarrow> length (take_frames n a) = min n (card (free a))"
proof (induction n arbitrary: a)
  case (Suc n)
  from alloc_returns [OF Suc.prems(1)] obtain r a' where r: "alloc a = Inr (r, a')" "wf a'" by blast
  show ?case
  proof (cases r)
    case None
    with alloc_none [OF Suc.prems(1)] r show ?thesis by simp
  next
    case (Some f)
    with alloc_some [OF Suc.prems(1)] r have f: "f \<in> free a" "free a' = free a - {f}" by auto
    from card.remove [OF Suc.prems(2) f(1)] f(2) have "card (free a) = Suc (card (free a'))" by simp
    moreover have "finite (free a')" using f(2) Suc.prems(2) by simp
    ultimately show ?thesis using Suc.IH [OF r(2)] r(1) Some by simp
  qed
qed simp

lemma alloc_succeeds:
  assumes "wf a" and "free a \<noteq> {}"
  obtains f a' where "alloc a = Inr (Some f, a')" and "wf a'" and "f \<in> free a" and "free a' = free a - {f}"
proof -
  obtain r a' where r: "alloc a = Inr (r, a')" "wf a'" using alloc_returns [OF assms(1)] by blast
  with assms alloc_none [OF assms(1)] obtain f where "r = Some f" by (cases r) auto
  with r alloc_some [OF assms(1)] that show thesis by blast
qed

end

interpretation afa: frame_allocator "\<lambda>a. returns (allocate_frame a 1)" alloc_wf free_set
proof unfold_locales
  fix a
  assume "alloc_wf a"
  then show "\<exists>r a'. returns (allocate_frame a 1) = Inr (r, a') \<and> alloc_wf a'"
    using allocate_frame_one [of a] by auto
next
  fix a f a'
  assume "alloc_wf a" "returns (allocate_frame a 1) = Inr (Some f, a')"
  then show "f \<in> free_set a \<and> free_set a' = free_set a - {f}"
    using allocate_frame_one [of a] by (auto simp: res_simps)
next
  fix a a'
  assume "alloc_wf a" "returns (allocate_frame a 1) = Inr (None, a')"
  then show "free_set a = {} \<and> free_set a' = {}"
    using allocate_frame_one [of a] by (auto simp: res_simps)
qed

lemma finite_free_set [simp]: "finite (free_set a)"
proof (rule finite_subset)
  show "free_set a \<subseteq> range Frame" by (metis Frame.collapse rangeI subsetI)
  show "finite (range Frame)" by simp
qed

section \<open>Construction\<close>

lemma frame_containing_ne_max:
  "frame_number (frame_containing_address (PhysicalAddress x)) \<noteq> -1"
proof -
  have "unat (frame_number (frame_containing_address (PhysicalAddress x))) < 2 ^ 52"
    using unat_drop_12_bound by (simp add: frame_containing_address_def div_PAGE_SIZE)
  then show ?thesis
    using unat_add_one_bound [of "frame_number (frame_containing_address (PhysicalAddress x))"] by simp
qed

definition usable_frames :: "usize \<Rightarrow> usize \<Rightarrow> usize \<Rightarrow> usize \<Rightarrow> MemoryArea list \<Rightarrow> Frame set" where
  "usable_frames k_start k_end mb_start mb_end ms =
     {f. (\<exists>area \<in> set ms. in_area f area)
        \<and> \<not> (frame_containing_address (PhysicalAddress k_start) \<le> f
             \<and> f \<le> frame_containing_address (PhysicalAddress k_end))
        \<and> \<not> (frame_containing_address (PhysicalAddress mb_start) \<le> f
             \<and> f \<le> frame_containing_address (PhysicalAddress mb_end))}"

lemma area_frame_allocator_new_ok:
  assumes "\<forall>area \<in> set ms. area_ok area"
  shows "\<exists>a. area_frame_allocator_new k_start k_end mb_start mb_end ms = Inr a \<and> alloc_wf a
     \<and> free_set a = usable_frames k_start k_end mb_start mb_end ms
         - {Min (usable_frames k_start k_end mb_start mb_end ms)}"
proof -
  let ?U = "usable_frames k_start k_end mb_start mb_end ms"
  let ?a0 = "\<lparr>next_free_frame = frame_containing_address (PhysicalAddress 0),
         current_area = None, areas = ms,
         kernel_start = frame_containing_address (PhysicalAddress k_start),
         kernel_end = frame_containing_address (PhysicalAddress k_end),
         multiboot_start = frame_containing_address (PhysicalAddress mb_start),
         multiboot_end = frame_containing_address (PhysicalAddress mb_end)\<rparr>"
  have zero: "frame_containing_address (PhysicalAddress 0) \<le> f" for f
    by (simp add: frame_containing_address_def less_eq_Frame_def)
  have U: "free_set ?a0 = ?U"
    by (auto simp: free_set_def usable_frames_def reserved_def zero)
  obtain a1 where a1: "choose_next_area ?a0 = Inr a1" "alloc_wf a1" "free_set a1 = ?U"
    by (rule choose_next_area_ok [of ?a0]) (use assms U in \<open>auto simp: frame_containing_ne_max\<close>)
  obtain r a where r: "allocate_frame a1 1 = Some (Inr (r, a))" "alloc_wf a"
    and spec: "case r of None \<Rightarrow> free_set a1 = {} \<and> free_set a = {}
        | Some f \<Rightarrow> f \<in> free_set a1 \<and> (\<forall>g \<in> free_set a1. f \<le> g) \<and> free_set a = free_set a1 - {f}"
    using allocate_frame_one [OF a1(2)] by blast
  have "free_set a = ?U - {Min ?U}"
  proof (cases r)
    case None
    with spec a1(3) show ?thesis by simp
  next
    case (Some f)
    have "finite ?U" using finite_free_set [of a1] a1(3) by simp
    moreover have "f \<in> ?U" "\<And>g. g \<in> ?U \<Longrightarrow> f \<le> g" using Some spec a1(3) by auto
    ultimately have "Min ?U = f" by (intro Min_eqI)
    with Some spec a1(3) show ?thesis by simp
  qed
  with a1(1) r show ?thesis by (simp add: area_frame_allocator_new_def)
qed

section \<open>Requests for several frames\<close>

lemma attempt_stuck: "allocate_frame_attempt a count = Inr (Retry a) \<Longrightarrow> allocate_frame a count = None"
proof (rule ccontr)
  assume stuck: "allocate_frame_attempt a count = Inr (Retry a)" and "allocate_frame a count \<noteq> None"
  then obtain r where ret: "allocate_frame a count = Some r" by blast
  have "allocate_frame_attempt a count \<noteq> Inr (Retry a)"
  proof (rule allocate_frame.raw_induct [where P = "\<lambda>a c r. allocate_frame_attempt a c \<noteq> Inr (Retry a)", OF _ ret])
    fix f a count r
    assume IH: "\<And>a c r. f a c = Some r \<Longrightarrow> allocate_frame_attempt a c \<noteq> Inr (Retry a)"
      and eq: "(case allocate_frame_attempt a count of Inl e \<Rightarrow> Some (Inl e)
          | Inr (Return g a') \<Rightarrow> Some (Inr (g, a')) | Inr (Retry a') \<Rightarrow> f a' count) = Some r"
    show "allocate_frame_attempt a count \<noteq> Inr (Retry a)"
    proof
      assume st: "allocate_frame_attempt a count = Inr (Retry a)"
      with eq have "f a count = Some r" by simp
      from IH [OF this] st show False by simp
    qed
  qed
  with stuck show False by simp
qed

text \<open>The current area is chosen again as long as it still holds the next free frame.\<close>

lemma choose_next_area_again:
  assumes "\<forall>b \<in> set (areas a). area_ok b" and "area \<in> set (areas a)"
    and "current_area a = Some area" and "area_first_frame area \<le> next_free_frame a"
    and "next_free_frame a \<le> last_frame area"
    and "\<forall>b \<in> set (areas a). next_free_frame a \<le> last_frame b \<longrightarrow> b = area \<or> area_start area < area_start b"
  shows "choose_next_area a = Inr a"
  using choose_next_area_cases [OF assms(1)] assms(2-)
proof (elim disjE bexE conjE)
  fix b
  assume "b \<in> set (areas a)" "next_free_frame a \<le> last_frame b"
    and "\<forall>c \<in> set (areas a). next_free_frame a \<le> last_frame c \<longrightarrow> area_start b \<le> area_start c"
    and c: "choose_next_area a = Inr (a\<lparr>current_area := Some b,
              next_free_frame := max (next_free_frame a) (area_first_frame b)\<rparr>)"
  with assms have "b = area" by (meson not_le)
  with c assms show ?thesis by (simp add: max_absorb1)
qed fastforce

lemma attempt_returns_one:
  "allocate_frame_attempt a count = Inr (Return (Some f) a') \<Longrightarrow>
     next_free_frame a' = Frame (frame_number f + 1)"
  by (auto simp: allocate_frame_attempt_def res_simps Let_def split: if_splits option.splits)

lemma allocate_frame_advances_one:
  assumes "allocate_frame a count = Some (Inr (Some f, a'))"
  shows "next_free_frame a' = Frame (frame_number f + 1)"
proof -
  have "case r of Inr (Some f, a') \<Rightarrow> next_free_frame a' = Frame (frame_number f + 1) | _ \<Rightarrow> True"
    if "allocate_frame a count = Some r" for r
  proof (rule allocate_frame.raw_induct [where P = "\<lambda>a c r. case r of
        Inr (Some f, a') \<Rightarrow> next_free_frame a' = Frame (frame_number f + 1) | _ \<Rightarrow> True", OF _ that])
    fix g a count r
    assume IH: "\<And>a c r. g a c = Some r \<Longrightarrow> (case r of
        Inr (Some f, a') \<Rightarrow> next_free_frame a' = Frame (frame_number f + 1) | _ \<Rightarrow> True)"
      and "(case allocate_frame_attempt a count of Inl e \<Rightarrow> Some (Inl e)
          | Inr (Return h a') \<Rightarrow> Some (Inr (h, a')) | Inr (Retry a') \<Rightarrow> g a' count) = Some r"
    then show "case r of
        Inr (Some f, a') \<Rightarrow> next_free_frame a' = Frame (frame_number f + 1) | _ \<Rightarrow> True"
      by (cases "allocate_frame_attempt a count")
        (auto split: attempt.splits option.splits sum.splits dest: attempt_returns_one dest!: IH)
  qed
  from this [OF assms] show ?thesis by simp
qed

section \<open>Counting\<close>

definition counted :: "AreaFrameAllocator \<Rightarrow> Frame \<Rightarrow> bool" where
  "counted a f \<longleftrightarrow> \<not> (kernel_start a \<le> f \<and> f \<le> kernel_end a) \<and> next_free_frame a \<le> f"

lemma count_frame_counted:
  "count_frame a f n = (if counted a f then checked_add n 1 else Inr n)"
  by (auto simp: count_frame_def counted_def)

lemma count_frames:
  assumes "unat n + length (filter (counted a) fs) < 2 ^ 64"
  shows "rfold (count_frame a) fs n = Inr (n + of_nat (length (filter (counted a) fs)))"
  using assms
proof (induction fs arbitrary: n)
  case (Cons f fs)
  show ?case
  proof (cases "counted a f")
    case True
    with Cons.prems have "unat n + 1 < 2 ^ 64" by simp
    then have "n \<noteq> -1" "unat (n + 1) = Suc (unat n)"
      using unat_add_one_bound [of n] unat_succ [of n] by auto
    with True Cons.IH [of "n + 1"] Cons.prems show ?thesis
      by (simp add: count_frame_counted checked_add_one algebra_simps)
  next
    case False
    with Cons show ?thesis by (simp add: count_frame_counted)
  qed
qed simp

definition area_frames :: "MemoryArea \<Rightarrow> Frame list" where
  "area_frames area = map Frame (word_range (frame_number (area_first_frame area)) (frame_number (last_frame area)))"

lemma set_area_frames: "set (area_frames area) = {f. in_area f area}"
proof -
  have "f \<in> set (area_frames area) \<longleftrightarrow> in_area f area" for f
    by (cases f) (auto simp: area_frames_def in_area_def less_eq_Frame_def)
  then show ?thesis by blast
qed

lemma distinct_area_frames: "distinct (area_frames area)"
  by (simp add: area_frames_def distinct_map inj_on_def)

definition counted_frames :: "AreaFrameAllocator \<Rightarrow> MemoryArea list \<Rightarrow> Frame set" where
  "counted_frames a ms = {f. counted a f \<and> (\<exists>area \<in> set ms. in_area f area)}"

lemma finite_frames [simp]: "finite (F :: Frame set)"
proof (rule finite_subset)
  show "F \<subseteq> range Frame" by (metis Frame.collapse rangeI subsetI)
  show "finite (range Frame)" by simp
qed

lemma card_frames_bound:
  assumes "\<And>f. f \<in> F \<Longrightarrow> unat (frame_number f) < 2 ^ 52"
  shows "card F \<le> 2 ^ 52"
proof -
  have "card F = card ((\<lambda>f. unat (frame_number f)) ` F)"
    by (rule card_image [symmetric]) (auto intro!: inj_onI Frame.expand simp: word_unat_eq_iff)
  also have "\<dots> \<le> card {0 ..< (2::nat) ^ 52}"
    using assms by (intro card_mono) auto
  finally show ?thesis by simp
qed

lemma in_area_bound: "in_area f area \<Longrightarrow> unat (frame_number f) < 2 ^ 52"
  using unat_drop_12_bound [of "area_start area + area_size area - 1"]
  by (simp add: in_area_def last_frame_def frame_containing_address_def less_eq_Frame_def
      div_PAGE_SIZE word_le_nat_alt)

lemma counted_frames_bound: "card (counted_frames a ms) < 2 ^ 64"
proof -
  have "card (counted_frames a ms) \<le> 2 ^ 52"
    by (rule card_frames_bound) (auto simp: counted_frames_def dest: in_area_bound)
  then show ?thesis by simp
qed

definition disjoint_areas :: "MemoryArea list \<Rightarrow> bool" where
  "disjoint_areas ms \<longleftrightarrow> sorted_wrt (\<lambda>x y. \<forall>f. \<not> (in_area f x \<and> in_area f y)) ms"

lemma counted_frames_Cons:
  assumes "disjoint_areas (x # xs)"
  shows "card (counted_frames a (x # xs)) = length (filter (counted a) (area_frames x)) + card (counted_frames a xs)"
proof -
  have "counted_frames a (x # xs) = set (filter (counted a) (area_frames x)) \<union> counted_frames a xs"
    by (auto simp: counted_frames_def set_area_frames)
  moreover have "set (filter (counted a) (area_frames x)) \<inter> counted_frames a xs = {}"
    using assms by (auto simp: counted_frames_def set_area_frames disjoint_areas_def)
  ultimately show ?thesis
    by (simp add: card_Un_disjoint distinct_card distinct_area_frames del: set_filter)
qed

definition count_area :: "AreaFrameAllocator \<Rightarrow> MemoryArea \<Rightarrow> usize \<Rightarrow> usize res" where
  "count_area a area count =
       rbind (area_last_frame area) (\<lambda>end_frame.
       rbind (frames_of (frame_range_inclusive (area_first_frame area) end_frame)) (\<lambda>fs.
       rfold (count_frame a) fs count))"

lemma count_areas:
  assumes "\<forall>area \<in> set ms. area_ok area" and "disjoint_areas ms"
    and "unat n + card (counted_frames a ms) < 2 ^ 64"
  shows "rfold (count_area a) ms n = Inr (n + of_nat (card (counted_frames a ms)))"
  using assms
proof (induction ms arbitrary: n)
  case Nil
  then show ?case by (simp add: counted_frames_def)
next
  case (Cons x xs)
  let ?k = "length (filter (counted a) (area_frames x))"
  note card = counted_frames_Cons [OF Cons.prems(2), of a]
  have k: "unat n + ?k < 2 ^ 64" using Cons.prems(3) card by linarith
  then have "count_area a x n = Inr (n + of_nat ?k)"
    using Cons.prems(1) count_frames [of n a "area_frames x"]
    by (simp add: count_area_def area_last_frame_ok frames_of_range frame_number_last_frame area_frames_def)
  moreover from k have "unat (n + of_nat ?k) = unat n + ?k"
    by (simp add: unat_word_ariths unat_of_nat)
  ultimately show ?case
    using Cons.IH [of "n + of_nat ?k"] Cons.prems card
    by (simp add: disjoint_areas_def algebra_simps)
qed

lemma free_frames_eq:
  assumes "\<forall>area \<in> set (areas a). area_ok area" and "disjoint_areas (areas a)"
  shows "free_frames a = Inr (of_nat (card (counted_frames a (areas a))))"
  using count_areas [OF assms, of 0 a] counted_frames_bound [of a "areas a"]
  by (simp add: free_frames_def count_area_def [abs_def])

section \<open>Properties\<close>

text \<open>
  A machine with the areas of a small PC: conventional memory up to \<open>0x9fc00\<close> and extended
  memory from 1 MiB, the kernel in the frames \<open>0x100\<close> to \<open>0x110\<close>, the multiboot structure in
  the frames \<open>0x120\<close> and \<open>0x121\<close>.
\<close>

definition example_areas :: "MemoryArea list" where
  "example_areas = [\<lparr>area_start = 0, area_size = 0x9fc00\<rparr>, \<lparr>area_start = 0x100000, area_size = 0x100000\<rparr>]"

definition example_allocator :: "usize \<Rightarrow> AreaFrameAllocator" where
  "example_allocator n = \<lparr>next_free_frame = Frame n, current_area = Some \<lparr>area_start = 0, area_size = 0x9fc00\<rparr>,
     areas = example_areas, kernel_start = Frame 0x100, kernel_end = Frame 0x110,
     multiboot_start = Frame 0x120, multiboot_end = Frame 0x121\<rparr>"

lemma example_wf: "alloc_wf (example_allocator n)"
  by (simp add: alloc_wf_def example_allocator_def example_areas_def area_ok_def area_first_frame_def
      frame_containing_address_def PAGE_SIZE_def less_eq_Frame_def)

lemma example_areas_disjoint: "disjoint_areas example_areas"
  by (auto simp: disjoint_areas_def example_areas_def in_area_def last_frame_def area_first_frame_def
      frame_containing_address_def PAGE_SIZE_def less_eq_Frame_def word_le_nat_alt)

text \<open>
  C4. Allocating one frame refines the abstract allocator: on a well-formed allocator the call
  returns (it neither panics nor recurses for ever), keeps the allocator well formed, and
  either hands out the lowest free frame and removes exactly that frame from the free set, or
  reports that no frame is left, and then the free set is empty. A free frame lies in a memory
  area, in neither the kernel nor the multiboot structure, and was not handed out before.
\<close>

theorem allocate_frame_refines:
  assumes "alloc_wf a"
  shows "\<exists>r a'. allocate_frame a 1 = Some (Inr (r, a')) \<and> alloc_wf a'
     \<and> (case r of
          None \<Rightarrow> free_set a = {} \<and> free_set a' = {}
        | Some f \<Rightarrow> f \<in> free_set a \<and> (\<forall>g \<in> free_set a. f \<le> g) \<and> free_set a' = free_set a - {f})"
  using assms by (rule allocate_frame_one)

theorem allocate_frame_refines_witness:
  "alloc_wf (example_allocator 0x9f)
   \<and> (\<exists>r a'. allocate_frame (example_allocator 0x9f) 1 = Some (Inr (r, a')) \<and> alloc_wf a'
     \<and> (case r of
          None \<Rightarrow> free_set (example_allocator 0x9f) = {} \<and> free_set a' = {}
        | Some f \<Rightarrow> f \<in> free_set (example_allocator 0x9f) \<and> (\<forall>g \<in> free_set (example_allocator 0x9f). f \<le> g)
            \<and> free_set a' = free_set (example_allocator 0x9f) - {f}))"
  using example_wf allocate_frame_refines [OF example_wf] by blast

text \<open>
  A request for one frame always comes back, on any allocator state whatever: the
  self-recursion of \<^verbatim>\<open>allocate_frame\<close> ends, with a frame, with \<^verbatim>\<open>None\<close> or with a panic.
\<close>

theorem allocate_frame_one_returns: "\<exists>r. allocate_frame a 1 = Some r"
  by (rule allocate_frame_terminates)

text \<open>
  C14. Repeated requests hand out pairwise distinct frames, all of them free at the start, and
  exactly as many as there are free frames.
\<close>

theorem allocate_frames_distinct:
  assumes "alloc_wf a"
  shows "distinct (afa.take_frames n a) \<and> set (afa.take_frames n a) \<subseteq> free_set a
     \<and> length (afa.take_frames n a) = min n (card (free_set a))"
  using assms by (simp add: afa.take_frames_distinct afa.take_frames_free afa.length_take_frames)

theorem allocate_frames_distinct_witness:
  "distinct (afa.take_frames 3 (example_allocator 0))
     \<and> set (afa.take_frames 3 (example_allocator 0)) \<subseteq> free_set (example_allocator 0)
     \<and> length (afa.take_frames 3 (example_allocator 0)) = min 3 (card (free_set (example_allocator 0)))"
  by (rule allocate_frames_distinct [OF example_wf])

text \<open>
  C32. The constructor returns a well-formed allocator whose free frames are all frames of the
  areas outside the kernel and the multiboot structure but the lowest one, which the
  constructor takes and drops.
\<close>

theorem area_frame_allocator_new_spec:
  assumes "\<forall>area \<in> set ms. area_ok area"
  shows "\<exists>a. area_frame_allocator_new k_start k_end mb_start mb_end ms = Inr a \<and> alloc_wf a
     \<and> free_set a = usable_frames k_start k_end mb_start mb_end ms
         - {Min (usable_frames k_start k_end mb_start mb_end ms)}"
  using assms by (rule area_frame_allocator_new_ok)

theorem area_frame_allocator_new_spec_witness:
  "\<exists>a. area_frame_allocator_new 0x100000 0x110fff 0x120000 0x121000 example_areas = Inr a \<and> alloc_wf a
     \<and> free_set a = usable_frames 0x100000 0x110fff 0x120000 0x121000 example_areas
         - {Min (usable_frames 0x100000 0x110fff 0x120000 0x121000 example_areas)}"
  by (rule area_frame_allocator_new_spec) (simp add: example_areas_def area_ok_def)

text \<open>
  C40. A request for more frames than are left in the current area never returns when the area
  still has a free frame and no other area starts below it: the allocator chooses the same
  area again and recurses with an unchanged state.
\<close>

theorem allocate_frames_diverges:
  assumes "alloc_wf a" and "current_area a = Some area" and "next_free_frame a \<le> last_frame area"
    and "\<forall>b \<in> set (areas a). next_free_frame a \<le> last_frame b \<longrightarrow> b = area \<or> area_start area < area_start b"
    and "count \<noteq> 0" and "unat (frame_number (next_free_frame a)) + unat (count - 1) < 2 ^ 64"
    and "last_frame area < Frame (frame_number (next_free_frame a) + (count - 1))"
  shows "allocate_frame a count = None"
proof (rule attempt_stuck)
  have ok: "\<forall>b \<in> set (areas a). area_ok b" and area: "area \<in> set (areas a)"
    and first: "area_first_frame area \<le> next_free_frame a"
    using assms(1,2) by (auto simp: alloc_wf_def)
  have "choose_next_area a = Inr a"
    by (rule choose_next_area_again [OF ok area assms(2) first assms(3,4)])
  moreover have "1 \<le> count" using assms(5) by (simp add: word_le_nat_alt Suc_le_eq unat_gt_0)
  ultimately show "allocate_frame_attempt a count = Inr (Retry a)"
    using assms ok area
    by (simp add: allocate_frame_attempt_def checked_sub_def checked_add_def area_last_frame_ok Let_def)
qed

theorem allocate_frames_diverges_witness: "allocate_frame (example_allocator 0x9f) 2 = None"
  by (rule allocate_frames_diverges [OF example_wf, of _ "\<lparr>area_start = 0, area_size = 0x9fc00\<rparr>"])
    (simp_all add: example_allocator_def example_areas_def last_frame_def frame_containing_address_def
      PAGE_SIZE_def less_eq_Frame_def less_Frame_def)

text \<open>
  Whatever number of frames is asked for, a successful request moves the next free frame
  by one only, so the frames behind the first one of a larger request are handed out again.
\<close>

theorem allocate_frames_reserves_one:
  assumes "allocate_frame a count = Some (Inr (Some f, a'))"
  shows "next_free_frame a' = Frame (frame_number f + 1)"
  using assms by (rule allocate_frame_advances_one)

theorem allocate_frames_reserves_one_witness:
  "\<exists>a'. allocate_frame (example_allocator 2) 4 = Some (Inr (Some (Frame 2), a')) \<and> next_free_frame a' = Frame 3"
proof -
  have "allocate_frame (example_allocator 2) 4
     = Some (Inr (Some (Frame 2), (example_allocator 2)\<lparr>next_free_frame := Frame 3\<rparr>))"
    by (simp add: allocate_frame.simps allocate_frame_attempt_def example_allocator_def checked_sub_def
        checked_add_def area_last_frame_def frame_containing_address_def PAGE_SIZE_def
        less_eq_Frame_def less_Frame_def Let_def)
  from this allocate_frames_reserves_one [OF this] show ?thesis by auto
qed

text \<open>
  \<^verbatim>\<open>free_frames\<close> returns the number of frames of the areas from the next free frame on that
  the kernel does not occupy, when the areas do not overlap. The frames of the multiboot
  structure are counted too, although \<^verbatim>\<open>allocate_frame\<close> never hands them out.
\<close>

theorem free_frames_counts:
  assumes "\<forall>area \<in> set (areas a). area_ok area" and "disjoint_areas (areas a)"
  shows "free_frames a = Inr (of_nat (card {f. next_free_frame a \<le> f
     \<and> \<not> (kernel_start a \<le> f \<and> f \<le> kernel_end a) \<and> (\<exists>area \<in> set (areas a). in_area f area)}))"
proof -
  have "counted_frames a (areas a) = {f. next_free_frame a \<le> f
     \<and> \<not> (kernel_start a \<le> f \<and> f \<le> kernel_end a) \<and> (\<exists>area \<in> set (areas a). in_area f area)}"
    by (auto simp: counted_frames_def counted_def)
  with free_frames_eq [OF assms] show ?thesis by simp
qed

theorem free_frames_counts_witness:
  "free_frames (example_allocator 0x100) = Inr (of_nat (card {f. Frame 0x100 \<le> f
     \<and> \<not> (Frame 0x100 \<le> f \<and> f \<le> Frame 0x110) \<and> (\<exists>area \<in> set example_areas. in_area f area)}))"
proof -
  have "\<forall>area \<in> set (areas (example_allocator 0x100)). area_ok area"
    using example_wf [of "0x100"] by (simp add: alloc_wf_def)
  moreover have "disjoint_areas (areas (example_allocator 0x100))"
    using example_areas_disjoint by (simp add: example_allocator_def)
  ultimately show ?thesis
    using free_frames_counts [of "example_allocator 0x100"] by (simp add: example_allocator_def)
qed

end
