(* ===== verification/Mmu.thy ===== *)
theory Mmu
  imports Entry Frame_Alloc
begin

text \<open>
  The machine the paging code runs on. Physical memory is a map from a frame and the number of
  an 8-byte word in it (0 to 511) to the word. The MMU translates a virtual address by the
  4-level walk of x86-64 from the table \<open>cr3\<close> points to: bits 39 to 47, 30 to 38, 21 to 29 and 12
  to 20 of the address index the four tables, a set bit 0 means present, a set bit 7 in the
  second or third table ends the walk at a 1 GiB or 2 MiB page. A write needs bit 1 in every
  entry of the walk, since \<^verbatim>\<open>enable_write_protect_bit\<close> has set CR0.WP before the tables are
  touched. A failed walk is a page fault.

  The TLB is taken to agree with the tables; \<open>tlb_events\<close> records the flushes the code issues, and
  the theory Tlb shows that they are enough.

  The code reaches its tables only through virtual addresses, by the recursive entry 511 of the
  top table. \<open>mmu_table_address\<close> is the correctness of that trick: the address the code computes
  for the table at a path of indices is translated by the MMU to the frame of that table.
\<close>

section \<open>State\<close>

datatype tlb_event = Invlpg usize | FlushAll

type_synonym memory = "Frame \<Rightarrow> usize \<Rightarrow> u64"

record vm =
  pmem :: memory
  cr3 :: usize
  ALLOCATOR :: "AreaFrameAllocator option"
  tlb_events :: "tlb_event list"

definition cr3_frame :: "vm \<Rightarrow> Frame" where
  "cr3_frame s = Frame (take_bit 40 (drop_bit 12 (cr3 s)))"

section \<open>The page walk\<close>

definition huge_frame :: "nat \<Rightarrow> Entry \<Rightarrow> usize \<Rightarrow> Frame" where
  "huge_frame k e low = Frame (push_bit k (drop_bit k (frame_number (entry_frame e))) OR low)"

definition page_walk :: "memory \<Rightarrow> Frame \<Rightarrow> usize \<Rightarrow> usize \<Rightarrow> usize \<Rightarrow> usize \<Rightarrow> (Frame \<times> bool) option" where
  "page_walk m r i4 i3 i2 i1 =
     (let e4 = m r i4 in
      if \<not> bit e4 0 \<or> bit e4 7 then None else
      let e3 = m (entry_frame e4) i3 in
      if \<not> bit e3 0 then None
      else if bit e3 7 then
        Some (huge_frame 18 e3 (push_bit 9 i2 OR i1), bit e4 1 \<and> bit e3 1)
      else
      let e2 = m (entry_frame e3) i2 in
      if \<not> bit e2 0 then None
      else if bit e2 7 then
        Some (huge_frame 9 e2 i1, bit e4 1 \<and> bit e3 1 \<and> bit e2 1)
      else
      let e1 = m (entry_frame e2) i1 in
      if \<not> bit e1 0 then None
      else Some (entry_frame e1, bit e4 1 \<and> bit e3 1 \<and> bit e2 1 \<and> bit e1 1))"

definition va_index :: "nat \<Rightarrow> usize \<Rightarrow> usize" where
  "va_index k va = take_bit 9 (drop_bit (12 + 9 * k) va)"

definition mmu :: "vm \<Rightarrow> usize \<Rightarrow> (Frame \<times> bool) option" where
  "mmu s va =
     (if is_canonical va
      then page_walk (pmem s) (cr3_frame s) (va_index 3 va) (va_index 2 va) (va_index 1 va) (va_index 0 va)
      else None)"

definition word_in_page :: "usize \<Rightarrow> usize" where
  "word_in_page va = take_bit 9 (drop_bit 3 va)"

definition vm_read :: "vm \<Rightarrow> usize \<Rightarrow> u64 res" where
  "vm_read s va =
     (case mmu s va of None \<Rightarrow> Inl (PageFault va) | Some (f, _) \<Rightarrow> Inr (pmem s f (word_in_page va)))"

definition poke :: "Frame \<Rightarrow> usize \<Rightarrow> u64 \<Rightarrow> vm \<Rightarrow> vm" where
  "poke f i v s = s\<lparr>pmem := (pmem s)(f := (pmem s f)(i := v))\<rparr>"

definition vm_write :: "usize \<Rightarrow> u64 \<Rightarrow> vm \<Rightarrow> vm res" where
  "vm_write va v s =
     (case mmu s va of
        None \<Rightarrow> Inl (PageFault va)
      | Some (f, w) \<Rightarrow> if w then Inr (poke f (word_in_page va) v s) else Inl (PageFault va))"

definition tlb_record :: "tlb_event \<Rightarrow> vm \<Rightarrow> vm" where
  "tlb_record ev s = s\<lparr>tlb_events := tlb_events s @ [ev]\<rparr>"

lemma poke_simps [simp]:
  "cr3 (poke f i v s) = cr3 s" "ALLOCATOR (poke f i v s) = ALLOCATOR s"
  "tlb_events (poke f i v s) = tlb_events s" "cr3_frame (poke f i v s) = cr3_frame s"
  "pmem (poke f i v s) = (pmem s)(f := (pmem s f)(i := v))"
  by (simp_all add: poke_def cr3_frame_def)

lemma tlb_record_simps [simp]:
  "cr3 (tlb_record ev s) = cr3 s" "ALLOCATOR (tlb_record ev s) = ALLOCATOR s"
  "pmem (tlb_record ev s) = pmem s" "cr3_frame (tlb_record ev s) = cr3_frame s"
  "tlb_events (tlb_record ev s) = tlb_events s @ [ev]"
  by (simp_all add: tlb_record_def cr3_frame_def)

section \<open>Tables by path\<close>

text \<open>
  The frame of the table reached from the table \<open>r\<close> by a path of indices, and whether every
  entry on the way is writable.
\<close>

fun table_at :: "memory \<Rightarrow> Frame \<Rightarrow> usize list \<Rightarrow> Frame option" where
  "table_at m r [] = Some r"
| "table_at m r (i # is) =
     (if bit (m r i) 0 \<and> \<not> bit (m r i) 7 then table_at m (entry_frame (m r i)) is else None)"

fun path_writable :: "memory \<Rightarrow> Frame \<Rightarrow> usize list \<Rightarrow> bool" where
  "path_writable m r [] = True"
| "path_writable m r (i # is) = (bit (m r i) 1 \<and> path_writable m (entry_frame (m r i)) is)"

definition child :: "memory \<Rightarrow> Frame \<Rightarrow> usize \<Rightarrow> Frame option" where
  "child m f i = (if bit (m f i) 0 \<and> \<not> bit (m f i) 7 then Some (entry_frame (m f i)) else None)"

lemma table_at_snoc: "table_at m r (is @ [i]) = Option.bind (table_at m r is) (\<lambda>f. child m f i)"
  by (induction "is" arbitrary: r) (auto simp: child_def)

lemma path_writable_snoc:
  "table_at m r is = Some f \<Longrightarrow>
   path_writable m r (is @ [i]) \<longleftrightarrow> path_writable m r is \<and> bit (m f i) 1"
  by (induction "is" arbitrary: r) (auto split: if_splits)

text \<open>The virtual address of the table at a path, as \<^verbatim>\<open>next_table_address\<close> computes it step by step.\<close>

definition P4 :: usize where
  "P4 = 0xfffffffffffff000"

definition table_address :: "usize list \<Rightarrow> usize" where
  "table_address is = foldl (\<lambda>t i. push_bit 9 t OR push_bit 12 i) P4 is"

definition entry_address :: "usize \<Rightarrow> usize \<Rightarrow> usize" where
  "entry_address t i = t + 8 * i"

definition path_ok :: "usize list \<Rightarrow> bool" where
  "path_ok is \<longleftrightarrow> length is \<le> 3 \<and> (\<forall>i \<in> set is. i < 512) \<and> (is = [] \<or> hd is \<noteq> 511)"

lemma table_address_simps:
  "table_address [] = P4"
  "table_address (is @ [i]) = push_bit 9 (table_address is) OR push_bit 12 i"
  by (simp_all add: table_address_def)

lemma bit_P4: "bit P4 n \<longleftrightarrow> 12 \<le> n \<and> n < 64"
proof -
  have "P4 = push_bit 12 (mask 52)" by (simp add: P4_def mask_eq_exp_minus_1)
  then have "bit P4 n \<longleftrightarrow> bit (push_bit 12 (mask 52 :: usize)) n" by simp
  also have "\<dots> \<longleftrightarrow> 12 \<le> n \<and> n < 64"
    by (auto simp add: bit_push_bit_iff Bit_Operations.bit_mask_iff simp del: push_bit_mask_eq)
  finally show ?thesis .
qed

lemma index_bits: "(i :: usize) < 512 \<Longrightarrow> bit i n \<Longrightarrow> n < 9"
proof -
  assume "i < 512"
  then have "take_bit 9 i = i"
    by (simp add: word_unat_eq_iff unsigned_take_bit_eq take_bit_nat_eq_self_iff word_less_nat_alt)
  then show "bit i n \<Longrightarrow> n < 9" by (metis bit_take_bit_iff)
qed

lemma path_cases:
  assumes "path_ok is"
  obtains "is = []" | a where "is = [a]" "a < 512" | a b where "is = [a, b]" "a < 512" "b < 512"
  | a b c where "is = [a, b, c]" "a < 512" "b < 512" "c < 512"
proof (cases "is" rule: remdups_adj.cases)
  case 1
  with that show ?thesis by simp
next
  case (2 x)
  with that assms show ?thesis by (simp add: path_ok_def)
next
  case (3 x y xs)
  then show ?thesis
    using that assms by (cases xs) (auto simp: path_ok_def)
qed

section \<open>The recursive mapping\<close>

definition page_aligned :: "usize \<Rightarrow> bool" where
  "page_aligned t \<longleftrightarrow> take_bit 12 t = 0"

lemma page_aligned_bit: "page_aligned t \<Longrightarrow> bit t n \<Longrightarrow> 12 \<le> n"
  unfolding page_aligned_def by (metis bit_0_eq bit_take_bit_iff bot_apply bot_bool_def not_le)

lemma page_aligned_P4: "page_aligned P4"
  by (simp add: page_aligned_def P4_def)

lemma page_aligned_next: "page_aligned t \<Longrightarrow> page_aligned (push_bit 9 t OR push_bit 12 i)"
  unfolding page_aligned_def[of "_ OR _"]
  by (rule bit_word_eqI) (auto simp: bit_simps dest: page_aligned_bit)

lemma va_index_shift:
  assumes "i < 512" and "k \<le> 2"
  shows "va_index (Suc k) (push_bit 9 t OR push_bit 12 i) = va_index k t"
  unfolding va_index_def
  by (rule bit_word_eqI) (use assms in \<open>auto simp: bit_simps add.assoc dest: index_bits\<close>)

lemma va_index_last:
  assumes "i < 512" and "page_aligned t"
  shows "va_index 0 (push_bit 9 t OR push_bit 12 i) = i"
  unfolding va_index_def
  by (rule bit_word_eqI) (use assms in \<open>auto simp: bit_simps dest: index_bits page_aligned_bit\<close>)

lemma entry_address_or:
  assumes "page_aligned t" and "j < 512"
  shows "entry_address t j = t OR push_bit 3 j"
proof -
  have "t + push_bit 3 j = t OR push_bit 3 j"
    by (rule disjunctive_add)
      (auto simp: bit_simps dest!: index_bits [OF assms(2)] page_aligned_bit [OF assms(1)])
  then show ?thesis by (simp add: entry_address_def push_bit_eq_mult mult.commute)
qed

lemma va_index_entry:
  assumes "page_aligned t" and "j < 512"
  shows "va_index k (entry_address t j) = va_index k t"
  unfolding va_index_def entry_address_or [OF assms]
  by (rule bit_word_eqI) (use assms in \<open>auto simp: bit_simps dest: index_bits page_aligned_bit\<close>)

lemma word_in_page_entry:
  assumes "page_aligned t" and "j < 512"
  shows "word_in_page (entry_address t j) = j"
  unfolding word_in_page_def entry_address_or [OF assms]
  by (rule bit_word_eqI) (use assms in \<open>auto simp: bit_simps dest: index_bits page_aligned_bit\<close>)

lemma page_aligned_table: "page_aligned (table_address is)"
  by (induction "is" rule: rev_induct) (simp_all add: table_address_simps page_aligned_P4 page_aligned_next)

lemma va_index_P4: "k \<le> 3 \<Longrightarrow> va_index k P4 = 511"
proof -
  assume "k \<le> 3"
  then have "va_index k P4 = mask 9"
    unfolding va_index_def by (intro bit_word_eqI) (auto simp: bit_simps bit_P4)
  then show ?thesis by (simp add: mask_eq_exp_minus_1)
qed

text \<open>The indices of the address of a table: first 511 as often as needed, then the path.\<close>

lemma va_index_table:
  assumes "\<forall>i \<in> set is. i < 512" and "length is \<le> 3" and "k \<le> 3"
  shows "va_index k (table_address is) = (if k < length is then rev is ! k else 511)"
  using assms
proof (induction "is" arbitrary: k rule: rev_induct)
  case Nil
  then show ?case by (simp add: table_address_simps va_index_P4)
next
  case (snoc i xs)
  show ?case
  proof (cases k)
    case 0
    with snoc.prems show ?thesis by (simp add: table_address_simps va_index_last page_aligned_table)
  next
    case (Suc l)
    with snoc show ?thesis by (simp add: table_address_simps va_index_shift)
  qed
qed

lemma bit_table_address_high:
  assumes "length is \<le> 3" and "12 + 9 * length is \<le> n" and "n < 64"
  shows "bit (table_address is) n"
  using assms
proof (induction "is" arbitrary: n rule: rev_induct)
  case Nil
  then show ?case by (simp add: table_address_simps bit_P4)
next
  case (snoc i xs)
  then show ?case by (simp add: table_address_simps bit_simps)
qed

lemma canonical_entry:
  assumes "length is \<le> 3" and "j < 512"
  shows "is_canonical (entry_address (table_address is) j)"
proof -
  let ?hi = "push_bit 47 (mask 17) :: usize"
  have "entry_address (table_address is) j AND ?hi = ?hi"
    unfolding entry_address_or [OF page_aligned_table assms(2)]
    by (rule bit_word_eqI)
      (use assms in \<open>auto simp: bit_simps Bit_Operations.bit_mask_iff bit_table_address_high simp del: push_bit_mask_eq\<close>)
  then have "?hi \<le> entry_address (table_address is) j" by (metis word_and_le2)
  moreover have "?hi = 0xffff800000000000" by (simp add: mask_eq_exp_minus_1)
  ultimately show ?thesis by (simp add: is_canonical_def)
qed

text \<open>
  A top table \<open>r\<close> whose entry 511 leads, directly or through one more table, to \<open>T\<close>: the tables
  the code works on are those of \<open>T\<close>.
\<close>

definition recursive_entry :: "Entry \<Rightarrow> Frame \<Rightarrow> bool" where
  "recursive_entry e f \<longleftrightarrow> bit e 0 \<and> bit e 1 \<and> \<not> bit e 7 \<and> entry_frame e = f"

definition recursive :: "memory \<Rightarrow> Frame \<Rightarrow> Frame \<Rightarrow> bool" where
  "recursive m r T \<longleftrightarrow> recursive_entry (m r 511) T \<and> recursive_entry (m T 511) T"

lemma page_walk_recursive:
  assumes "recursive m r T"
  shows "page_walk m r 511 511 511 511 = Some (T, True)"
    and "page_walk m r 511 511 511 a = (if bit (m T a) 0 then Some (entry_frame (m T a), bit (m T a) 1) else None)"
    and "child m T a = Some f \<Longrightarrow> page_walk m r 511 511 a b =
      (if bit (m f b) 0 then Some (entry_frame (m f b), bit (m T a) 1 \<and> bit (m f b) 1) else None)"
    and "child m T a = Some f \<Longrightarrow> child m f b = Some g \<Longrightarrow> page_walk m r 511 a b c =
      (if bit (m g c) 0 then Some (entry_frame (m g c), bit (m T a) 1 \<and> bit (m f b) 1 \<and> bit (m g c) 1) else None)"
  using assms by (auto simp: page_walk_def recursive_def recursive_entry_def child_def Let_def split: if_splits)

lemma mmu_table_address:
  assumes "recursive (pmem s) (cr3_frame s) T" and "path_ok is" and "j < 512"
    and "table_at (pmem s) T is = Some f"
  shows "mmu s (entry_address (table_address is) j) = Some (f, path_writable (pmem s) T is)"
proof -
  have idx: "va_index k (entry_address (table_address is) j) = (if k < length is then rev is ! k else 511)"
    if "k \<le> 3" for k
    using assms(2,3) that by (simp add: va_index_entry page_aligned_table va_index_table path_ok_def)
  have can: "is_canonical (entry_address (table_address is) j)"
    using assms(2,3) by (simp add: canonical_entry path_ok_def)
  have m: "mmu s (entry_address (table_address is) j) = page_walk (pmem s) (cr3_frame s)
      (if 3 < length is then rev is ! 3 else 511) (if 2 < length is then rev is ! 2 else 511)
      (if 1 < length is then rev is ! 1 else 511) (if 0 < length is then rev is ! 0 else 511)"
    unfolding mmu_def by (simp only: can idx if_True)
  from assms(2) show ?thesis
  proof (cases rule: path_cases)
    case 1
    with assms(4) m page_walk_recursive(1) [OF assms(1)] show ?thesis by simp
  next
    case (2 a)
    with assms(4) m page_walk_recursive(2) [OF assms(1)] show ?thesis
      by (simp split: if_splits)
  next
    case (3 a b)
    with assms(4) obtain g where "child (pmem s) T a = Some g"
      by (auto simp: child_def split: if_splits)
    with 3 assms(4) m page_walk_recursive(3) [OF assms(1)] show ?thesis
      by (auto simp: child_def split: if_splits)
  next
    case (4 a b c)
    with assms(4) obtain g h where "child (pmem s) T a = Some g" "child (pmem s) g b = Some h"
      by (auto simp: child_def split: if_splits)
    with 4 assms(4) m page_walk_recursive(4) [OF assms(1)] show ?thesis
      by (auto simp: child_def split: if_splits)
  qed
qed

end
