(* ===== verification/Mapper.thy ===== *)
theory Mapper
  imports Mmu
begin

text \<open>
  The page table code: \<^verbatim>\<open>arch/x86_64/memory/paging/table.rs\<close> and \<^verbatim>\<open>mapper.rs\<close>, with
  \<^verbatim>\<open>allocate_frames\<close> of \<^verbatim>\<open>memory/mod.rs\<close>. A reference to a table is its virtual address; reading
  or writing an entry goes through the MMU and may fault. The operations take the machine state
  and return the new one.
\<close>

section \<open>The global allocator\<close>

definition allocate_frames :: "usize \<Rightarrow> vm \<Rightarrow> (Frame option \<times> vm) res" where
  "allocate_frames count s =
     (case ALLOCATOR s of
        Some allocator \<Rightarrow>
          rbind (returns (allocate_frame allocator count))
            (\<lambda>(f, a). Inr (f, s\<lparr>ALLOCATOR := Some a\<rparr>))
      | None \<Rightarrow> Inl (Panic ''Frame allocator called before init.''))"

section \<open>Tables\<close>

definition ENTRY_COUNT :: usize where
  "ENTRY_COUNT = 512"

definition table_index :: "vm \<Rightarrow> usize \<Rightarrow> usize \<Rightarrow> Entry res" where
  "table_index s t index =
     (if index < ENTRY_COUNT then vm_read s (entry_address t index) else Inl OutOfRange)"

definition table_index_mut :: "usize \<Rightarrow> usize \<Rightarrow> Entry \<Rightarrow> vm \<Rightarrow> vm res" where
  "table_index_mut t index e s =
     (if index < ENTRY_COUNT then vm_write (entry_address t index) e s else Inl OutOfRange)"

definition table_zero :: "usize \<Rightarrow> vm \<Rightarrow> vm res" where
  "table_zero t s =
     rfold (\<lambda>i s. rbind (table_index s t i) (\<lambda>e. table_index_mut t i (entry_set_unused e) s))
       (word_range 0 511) s"

definition next_table_address :: "vm \<Rightarrow> usize \<Rightarrow> usize \<Rightarrow> usize option res" where
  "next_table_address s t index =
     rbind (table_index s t index) (\<lambda>e.
       let flags = entry_flags e in
       Inr (if flags_contains flags PRESENT \<and> \<not> flags_contains flags HUGE_PAGE
            then Some (push_bit 9 t OR push_bit 12 index)
            else None))"

definition next_table :: "vm \<Rightarrow> usize \<Rightarrow> usize \<Rightarrow> usize option res" where
  "next_table s t index = next_table_address s t index"

definition next_table_mut :: "vm \<Rightarrow> usize \<Rightarrow> usize \<Rightarrow> usize option res" where
  "next_table_mut s t index = next_table_address s t index"

definition next_table_create :: "usize \<Rightarrow> usize \<Rightarrow> vm \<Rightarrow> (usize \<times> vm) res" where
  "next_table_create t index s =
     rbind (next_table s t index) (\<lambda>nt.
     rbind
       (case nt of
          Some _ \<Rightarrow> Inr s
        | None \<Rightarrow>
            rbind (table_index s t index) (\<lambda>e.
            rbind (rassert (\<not> flags_contains (entry_flags e) HUGE_PAGE)
                     ''mapping code does not support huge pages'') (\<lambda>_.
            rbind (allocate_frames 1 s) (\<lambda>(f, s).
            rbind (rexpect f ''no frames available'') (\<lambda>frame.
            rbind (entry_set frame (PRESENT OR WRITABLE)) (\<lambda>e.
            rbind (table_index_mut t index e s) (\<lambda>s.
            rbind (next_table_mut s t index) (\<lambda>u.
            rbind (rexpect u ''unwrap'') (\<lambda>u.
            table_zero u s)))))))))
       (\<lambda>s.
          rbind (next_table_mut s t index) (\<lambda>u.
          rbind (rexpect u ''unwrap'') (\<lambda>u.
          Inr (u, s)))))"

section \<open>Translation\<close>

definition opt_then :: "'a option \<Rightarrow> ('a \<Rightarrow> 'b option res) \<Rightarrow> 'b option res" where
  "opt_then v f = (case v of None \<Rightarrow> Inr None | Some x \<Rightarrow> f x)"

lemma opt_then_simps [simp]: "opt_then None f = Inr None" "opt_then (Some x) f = f x"
  by (simp_all add: opt_then_def)

definition translate_huge :: "vm \<Rightarrow> Page \<Rightarrow> usize \<Rightarrow> Frame option res" where
  "translate_huge s page p3 =
     rbind (table_index s p3 (p3_index page)) (\<lambda>p3_entry.
     case (if flags_contains (entry_flags p3_entry) HUGE_PAGE then pointed_frame p3_entry else None) of
       Some start_frame \<Rightarrow>
         rbind (rassert (frame_number start_frame mod (ENTRY_COUNT * ENTRY_COUNT) = 0) ''1GiB aligned'') (\<lambda>_.
         rbind (checked_mul (p2_index page) ENTRY_COUNT) (\<lambda>x.
         rbind (checked_add (frame_number start_frame) x) (\<lambda>y.
         rbind (checked_add y (p1_index page)) (\<lambda>n.
         Inr (Some (Frame n))))))
     | None \<Rightarrow>
         rbind (next_table s p3 (p3_index page)) (\<lambda>p2.
         opt_then p2 (\<lambda>p2.
           rbind (table_index s p2 (p2_index page)) (\<lambda>p2_entry.
           case (if flags_contains (entry_flags p2_entry) HUGE_PAGE then pointed_frame p2_entry else None) of
             Some start_frame \<Rightarrow>
               rbind (rassert (frame_number start_frame mod ENTRY_COUNT = 0) ''2MiB aligned'') (\<lambda>_.
               rbind (checked_add (frame_number start_frame) (p1_index page)) (\<lambda>n.
               Inr (Some (Frame n))))
           | None \<Rightarrow> Inr None))))"

definition translate_page :: "vm \<Rightarrow> Page \<Rightarrow> Frame option res" where
  "translate_page s page =
     rbind (next_table s P4 (p4_index page)) (\<lambda>p3.
     rbind
       (opt_then p3 (\<lambda>p3.
        rbind (next_table s p3 (p3_index page)) (\<lambda>p2.
        opt_then p2 (\<lambda>p2.
        rbind (next_table s p2 (p2_index page)) (\<lambda>p1.
        opt_then p1 (\<lambda>p1.
        rbind (table_index s p1 (p1_index page)) (\<lambda>e.
        Inr (pointed_frame e))))))))
       (\<lambda>r. case r of
          Some f \<Rightarrow> Inr (Some f)
        | None \<Rightarrow> opt_then p3 (translate_huge s page)))"

definition translate :: "vm \<Rightarrow> VirtualAddress \<Rightarrow> PhysicalAddress option res" where
  "translate s virtual_address =
     (let offset = va_get virtual_address mod PAGE_SIZE in
      rbind (page_containing_address virtual_address) (\<lambda>page.
      rbind (translate_page s page) (\<lambda>f.
      opt_then f (\<lambda>frame.
        rbind (checked_mul (frame_number frame) PAGE_SIZE) (\<lambda>a.
        rbind (checked_add a offset) (\<lambda>a.
        Inr (Some (PhysicalAddress a))))))))"

section \<open>Mapping\<close>

text \<open>
  \<^verbatim>\<open>MapperFlush\<close> is the promise to flush a page: \<^verbatim>\<open>flush\<close> issues the \<^verbatim>\<open>invlpg\<close>, \<^verbatim>\<open>ignore\<close> drops the
  promise. A promise that goes out of scope without either panics (\<open>mapper_flush_drop\<close>); every caller below calls
  one of them, so the drop never runs.
\<close>

datatype MapperFlush = MapperFlush Page

definition mapper_flush_drop :: "MapperFlush \<Rightarrow> vm \<Rightarrow> vm res" where
  "mapper_flush_drop self s = Inl (Panic ''Flush not consumed!'')"

definition active_table_flush :: "Page \<Rightarrow> vm \<Rightarrow> vm res" where
  "active_table_flush page s =
     rbind (page_start_address page) (\<lambda>a. Inr (tlb_record (Invlpg (va_get a)) s))"

fun mapper_flush :: "MapperFlush \<Rightarrow> vm \<Rightarrow> vm res" where
  "mapper_flush (MapperFlush page) s = active_table_flush page s"

fun mapper_ignore :: "MapperFlush \<Rightarrow> vm \<Rightarrow> vm res" where
  "mapper_ignore (MapperFlush page) s = Inr s"

definition map_to :: "Page \<Rightarrow> Frame \<Rightarrow> EntryFlags \<Rightarrow> vm \<Rightarrow> (MapperFlush \<times> vm) res" where
  "map_to page frame flags s =
     rbind (next_table_create P4 (p4_index page) s) (\<lambda>(p3, s).
     rbind (next_table_create p3 (p3_index page) s) (\<lambda>(p2, s).
     rbind (next_table_create p2 (p2_index page) s) (\<lambda>(p1, s).
     rbind (table_index s p1 (p1_index page)) (\<lambda>e.
     rbind (rassert (entry_is_unused e) ''p1[page.p1_index()].is_unused()'') (\<lambda>_.
     rbind (entry_set frame (flags OR PRESENT)) (\<lambda>e.
     rbind (table_index_mut p1 (p1_index page) e s) (\<lambda>s.
     Inr (MapperFlush page, s))))))))"

definition map_page :: "Page \<Rightarrow> EntryFlags \<Rightarrow> vm \<Rightarrow> (MapperFlush \<times> vm) res" where
  "map_page page flags s =
     rbind (allocate_frames 1 s) (\<lambda>(f, s).
     rbind (rexpect f ''out of memory'') (\<lambda>frame.
     map_to page frame flags s))"

definition identity_map :: "Frame \<Rightarrow> EntryFlags \<Rightarrow> vm \<Rightarrow> (MapperFlush \<times> vm) res" where
  "identity_map frame flags s =
     rbind (frame_start_address frame) (\<lambda>a.
     rbind (page_containing_address (VirtualAddress (pa_get a))) (\<lambda>page.
     map_to page frame flags s))"

definition unmap :: "Page \<Rightarrow> vm \<Rightarrow> (MapperFlush \<times> vm) res" where
  "unmap page s =
     rbind (page_start_address page) (\<lambda>a.
     rbind (translate s a) (\<lambda>r.
     rbind (rassert (r \<noteq> None) ''page is mapped'') (\<lambda>_.
     rbind (next_table_mut s P4 (p4_index page)) (\<lambda>p3.
     rbind (opt_then p3 (\<lambda>p3.
        rbind (next_table_mut s p3 (p3_index page)) (\<lambda>p2.
        opt_then p2 (\<lambda>p2. next_table_mut s p2 (p2_index page))))) (\<lambda>p1.
     rbind (rexpect p1 ''mapping code does not support huge pages'') (\<lambda>p1.
     rbind (table_index s p1 (p1_index page)) (\<lambda>e.
     rbind (rexpect (pointed_frame e) ''unwrap'') (\<lambda>_.
     rbind (table_index_mut p1 (p1_index page) (entry_set_unused e) s) (\<lambda>s.
     Inr (MapperFlush page, tlb_record (Invlpg (va_get a)) s))))))))))"

end
