(* ===== verification/Active_Table.thy ===== *)
theory Active_Table
  imports Mapper
begin

text \<open>
  The active page table and the switch to the kernel's own table:
  \<^verbatim>\<open>arch/x86_64/memory/paging/mod.rs\<close> and \<^verbatim>\<open>temporary_page.rs\<close>, with \<^verbatim>\<open>MapperFlushAll\<close> of
  \<^verbatim>\<open>mapper.rs\<close>. The boot information is data the boot loader left in memory, read through the
  \<^verbatim>\<open>multiboot2\<close> crate; \<open>BootInformation\<close> holds what the crate's accessors return. The
  messages of \<^verbatim>\<open>println!\<close> are left out here, where the state is the page tables alone.
\<close>

section \<open>Flushing\<close>

definition cr3_write :: "usize \<Rightarrow> vm \<Rightarrow> vm" where
  "cr3_write v s = tlb_record FlushAll (s\<lparr>cr3 := v\<rparr>)"

definition active_table_flush_all :: "vm \<Rightarrow> vm" where
  "active_table_flush_all s = cr3_write (cr3 s) s"

datatype MapperFlushAll = MapperFlushAll bool

definition flush_all_new :: MapperFlushAll where
  "flush_all_new = MapperFlushAll False"

fun flush_all_consume :: "MapperFlushAll \<Rightarrow> MapperFlush \<Rightarrow> MapperFlushAll" where
  "flush_all_consume (MapperFlushAll _) flush = MapperFlushAll True"

definition flush_all_drop :: "MapperFlushAll \<Rightarrow> vm \<Rightarrow> vm res" where
  "flush_all_drop self s = Inl (Panic ''FlushAll not consumed!'')"

definition flush_all_forget :: "MapperFlushAll \<Rightarrow> vm \<Rightarrow> vm" where
  "flush_all_forget self s = s"

fun flush_all_flush :: "MapperFlushAll \<Rightarrow> vm \<Rightarrow> vm" where
  "flush_all_flush (MapperFlushAll b) s = (if b then active_table_flush_all s else s)"

section \<open>The temporary page\<close>

datatype TemporaryPage = TemporaryPage (tp_page: Page)

definition temporary_page_map :: "TemporaryPage \<Rightarrow> Frame \<Rightarrow> vm \<Rightarrow> (VirtualAddress \<times> vm) res" where
  "temporary_page_map tp frame s =
     rbind (translate_page s (tp_page tp)) (\<lambda>r.
     rbind (rassert (r = None) ''temporary page is already mapped'') (\<lambda>_.
     rbind (map_to (tp_page tp) frame WRITABLE s) (\<lambda>(result, s).
     rbind (mapper_flush result s) (\<lambda>s.
     rbind (page_start_address (tp_page tp)) (\<lambda>a.
     Inr (a, s))))))"

definition map_table_frame :: "TemporaryPage \<Rightarrow> Frame \<Rightarrow> vm \<Rightarrow> (usize \<times> vm) res" where
  "map_table_frame tp frame s = rbind (temporary_page_map tp frame s) (\<lambda>(a, s). Inr (va_get a, s))"

definition temporary_page_unmap :: "TemporaryPage \<Rightarrow> vm \<Rightarrow> vm res" where
  "temporary_page_unmap tp s = rbind (unmap (tp_page tp) s) (\<lambda>(result, s). mapper_flush result s)"

section \<open>Active and inactive tables\<close>

datatype InactivePageTable = InactivePageTable (p4_frame: Frame)

definition active_table_address :: "vm \<Rightarrow> usize" where
  "active_table_address s = cr3 s"

definition inactive_page_table_new :: "Frame \<Rightarrow> TemporaryPage \<Rightarrow> vm \<Rightarrow> (InactivePageTable \<times> vm) res" where
  "inactive_page_table_new frame tp s =
     rbind (map_table_frame tp frame s) (\<lambda>(table, s).
     rbind (table_zero table s) (\<lambda>s.
     rbind (entry_set frame (PRESENT OR WRITABLE)) (\<lambda>e.
     rbind (table_index_mut table 511 e s) (\<lambda>s.
     rbind (temporary_page_unmap tp s) (\<lambda>s.
     Inr (InactivePageTable frame, s))))))"

definition active_table_with ::
  "InactivePageTable \<Rightarrow> TemporaryPage \<Rightarrow> (vm \<Rightarrow> vm res) \<Rightarrow> vm \<Rightarrow> vm res" where
  "active_table_with table tp f s =
     (let backup = frame_containing_address (PhysicalAddress (cr3 s)) in
      rbind (map_table_frame tp backup s) (\<lambda>(p4_table, s).
      rbind (entry_set (p4_frame table) (PRESENT OR WRITABLE)) (\<lambda>e.
      rbind (table_index_mut P4 511 e s) (\<lambda>s.
      rbind (f (cr3_write (cr3 s) s)) (\<lambda>s.
      rbind (entry_set backup (PRESENT OR WRITABLE)) (\<lambda>e.
      rbind (table_index_mut p4_table 511 e s) (\<lambda>s.
      temporary_page_unmap tp (cr3_write (cr3 s) s))))))))"

definition active_table_switch :: "InactivePageTable \<Rightarrow> vm \<Rightarrow> (InactivePageTable \<times> vm) res" where
  "active_table_switch new_table s =
     (let old_table = InactivePageTable (frame_containing_address (PhysicalAddress (cr3 s))) in
      rbind (frame_start_address (p4_frame new_table)) (\<lambda>a.
      Inr (old_table, cr3_write (pa_get a) s)))"

section \<open>Setting up the kernel's table\<close>

record BootInformation =
  bi_start_address :: usize
  bi_end_address :: usize
  bi_memory_areas :: "MemoryArea list option"
  bi_elf_sections :: "ElfSection list option"

definition identity_map_ignore :: "EntryFlags \<Rightarrow> Frame \<Rightarrow> vm \<Rightarrow> vm res" where
  "identity_map_ignore flags frame s =
     rbind (identity_map frame flags s) (\<lambda>(result, s). mapper_ignore result s)"

definition map_section :: "ElfSection \<Rightarrow> vm \<Rightarrow> vm res" where
  "map_section section s =
     (if \<not> sec_allocated section then Inr s
      else
        rbind (rassert (sec_start section mod PAGE_SIZE = 0) ''sections need to be page aligned'') (\<lambda>_.
        let flags = from_elf_section_flags section;
            start_frame = frame_containing_address (PhysicalAddress (sec_start section)) in
        rbind (checked_sub (sec_end section) 1) (\<lambda>l.
        let end_frame = frame_containing_address (PhysicalAddress l) in
        rbind (frames_of (frame_range_inclusive start_frame end_frame)) (\<lambda>frames.
        rfold (identity_map_ignore flags) frames s))))"

definition map_kernel :: "BootInformation \<Rightarrow> vm \<Rightarrow> vm res" where
  "map_kernel boot_info s =
     rbind (rexpect (bi_elf_sections boot_info) ''Memory map tag required'') (\<lambda>sections.
     rbind (rfold map_section sections s) (\<lambda>s.
     let vga_buffer_frame = frame_containing_address (PhysicalAddress 0xb8000) in
     rbind (identity_map_ignore WRITABLE vga_buffer_frame s) (\<lambda>s.
     let multiboot_start = frame_containing_address (PhysicalAddress (bi_start_address boot_info)) in
     rbind (checked_sub (bi_end_address boot_info) 1) (\<lambda>l.
     let multiboot_end = frame_containing_address (PhysicalAddress l) in
     rbind (frames_of (frame_range_inclusive multiboot_start multiboot_end)) (\<lambda>frames.
     rfold (identity_map_ignore PRESENT) frames s)))))"

definition TEMPORARY_PAGE :: TemporaryPage where
  "TEMPORARY_PAGE = TemporaryPage (Page 0xcafebabe)"

definition paging_init :: "BootInformation \<Rightarrow> vm \<Rightarrow> vm res" where
  "paging_init boot_info s =
     rbind (allocate_frames 1 s) (\<lambda>(f, s).
     rbind (rexpect f ''out of memory'') (\<lambda>frame.
     rbind (inactive_page_table_new frame TEMPORARY_PAGE s) (\<lambda>(new_table, s).
     rbind (active_table_with new_table TEMPORARY_PAGE (map_kernel boot_info) s) (\<lambda>s.
     rbind (active_table_switch new_table s) (\<lambda>(old_table, s).
     rbind (frame_start_address (p4_frame old_table)) (\<lambda>a.
     rbind (page_containing_address (VirtualAddress (pa_get a))) (\<lambda>old_p4_page.
     rbind (unmap old_p4_page s) (\<lambda>(result, s).
     mapper_flush result s))))))))"

end
