(* ===== verification/Mapper_Correct.thy ===== *)
theory Mapper_Correct
  imports Mapper "HOL-Library.Sublist"
begin

text \<open>
  Correctness of the page table code of \<open>Mapper\<close>. The invariant \<open>pt_wf s T\<close> says that the
  recursive entry leads to the tables of \<open>T\<close>, that every table is writable, that no frame
  serves as two tables, and that the allocator's free frames are no tables. Under it the
  operations, which work through virtual addresses, act on the physical tables as intended, and
  \<open>map_to\<close> and \<open>unmap\<close> change the translation of exactly one page.
\<close>

section \<open>The invariant\<close>

definition table_frames :: "memory \<Rightarrow> Frame \<Rightarrow> Frame set" where
  "table_frames m T = {f. \<exists>is. path_ok is \<and> table_at m T is = Some f}"

definition tables_ok :: "memory \<Rightarrow> Frame \<Rightarrow> bool" where
  "tables_ok m T \<longleftrightarrow>
     (\<forall>is f. path_ok is \<longrightarrow> table_at m T is = Some f \<longrightarrow> path_writable m T is)
     \<and> (\<forall>is js f. path_ok is \<longrightarrow> path_ok js \<longrightarrow> table_at m T is = Some f \<longrightarrow> table_at m T js = Some f \<longrightarrow> is = js)"

definition alloc_apart :: "AreaFrameAllocator \<Rightarrow> memory \<Rightarrow> Frame \<Rightarrow> Frame \<Rightarrow> bool" where
  "alloc_apart a m r T \<longleftrightarrow>
     alloc_wf a \<and> (\<forall>f \<in> free_set a. frame_ok f \<and> f \<notin> table_frames m T \<and> f \<noteq> r)"

definition pt_wf :: "vm \<Rightarrow> Frame \<Rightarrow> bool" where
  "pt_wf s T \<longleftrightarrow>
     recursive (pmem s) (cr3_frame s) T
     \<and> (cr3_frame s = T \<or> cr3_frame s \<notin> table_frames (pmem s) T)
     \<and> tables_ok (pmem s) T
     \<and> (case ALLOCATOR s of None \<Rightarrow> False | Some a \<Rightarrow> alloc_apart a (pmem s) (cr3_frame s) T)"

definition free_now :: "vm \<Rightarrow> Frame set" where
  "free_now s = (case ALLOCATOR s of None \<Rightarrow> {} | Some a \<Rightarrow> free_set a)"

definition page_path :: "Page \<Rightarrow> usize list" where
  "page_path p = [p4_index p, p3_index p, p2_index p, p1_index p]"

text \<open>The translation of a page by the tables of \<open>T\<close>.\<close>

definition page_map :: "vm \<Rightarrow> Frame \<Rightarrow> Page \<Rightarrow> (Frame \<times> bool) option" where
  "page_map s T p = page_walk (pmem s) T (p4_index p) (p3_index p) (p2_index p) (p1_index p)"

section \<open>Paths\<close>

lemma path_ok_Nil [simp]: "path_ok []"
  by (simp add: path_ok_def)

lemma path_ok_prefix: "path_ok js \<Longrightarrow> prefix is js \<Longrightarrow> path_ok is"
  by (auto simp: path_ok_def prefix_def hd_append split: if_splits)

lemma path_ok_snocD: "path_ok (is @ [i]) \<Longrightarrow> path_ok is \<and> i < 512"
  by (auto simp: path_ok_def hd_append split: if_splits)

lemma path_ok_page:
  assumes "p4_index p \<noteq> 511"
  shows "path_ok [p4_index p]" and "path_ok [p4_index p, p3_index p]"
    and "path_ok [p4_index p, p3_index p, p2_index p]"
  using assms by (auto simp: path_ok_def)

lemma path_ok_take:
  assumes "p4_index p \<noteq> 511" and "n < 4"
  shows "path_ok (take n (page_path p))"
proof -
  have "prefix (take n (page_path p)) [p4_index p, p3_index p, p2_index p]"
    using assms(2) by (auto simp: page_path_def less_Suc_eq numeral_eq_Suc)
  with path_ok_page(3) [OF assms(1)] show ?thesis by (rule path_ok_prefix)
qed

lemma in_table_frames: "path_ok is \<Longrightarrow> table_at m T is = Some f \<Longrightarrow> f \<in> table_frames m T"
  by (auto simp: table_frames_def)

lemma tables_ok_writable:
  "tables_ok m T \<Longrightarrow> path_ok is \<Longrightarrow> table_at m T is = Some f \<Longrightarrow> path_writable m T is"
  by (auto simp: tables_ok_def)

lemma tables_ok_inj:
  "tables_ok m T \<Longrightarrow> path_ok is \<Longrightarrow> path_ok js \<Longrightarrow> table_at m T is = Some f \<Longrightarrow>
   table_at m T js = Some f \<Longrightarrow> is = js"
  unfolding tables_ok_def by blast

lemma strict_prefix_snoc: "strict_prefix xs (xs @ [i])"
  by (simp add: strict_prefix_def)

text \<open>A walk only depends on the tables at the strict prefixes of its path.\<close>

lemma table_at_cong:
  assumes "\<And>js f. strict_prefix js is \<Longrightarrow> table_at m r js = Some f \<Longrightarrow> m' f = m f"
  shows "table_at m' r is = table_at m r is"
  using assms
proof (induction "is" rule: rev_induct)
  case (snoc i xs)
  have "table_at m' r xs = table_at m r xs"
    using snoc.prems by (intro snoc.IH) (meson prefix_order.less_le_trans prefixI strict_prefix_simps)
  moreover have "m' f = m f" if "table_at m r xs = Some f" for f
    by (rule snoc.prems [OF strict_prefix_snoc that])
  ultimately show ?case by (auto simp: table_at_snoc child_def bind_eq_Some_conv split: bind_splits)
qed simp

lemma path_writable_cong:
  assumes "\<And>js f. strict_prefix js is \<Longrightarrow> table_at m r js = Some f \<Longrightarrow> m' f = m f"
    and "table_at m r is = Some g"
  shows "path_writable m' r is = path_writable m r is"
  using assms
proof (induction "is" arbitrary: g rule: rev_induct)
  case (snoc i xs)
  from snoc.prems(2) obtain f where f: "table_at m r xs = Some f"
    by (auto simp: table_at_snoc bind_eq_Some_conv)
  have pre: "m' h = m h" if "strict_prefix js xs" "table_at m r js = Some h" for js h
    using snoc.prems(1) that by (meson prefix_order.less_le_trans prefixI)
  have "table_at m' r xs = Some f" using table_at_cong [of xs m r m'] pre f by simp
  moreover have "m' f = m f" by (rule snoc.prems(1) [OF strict_prefix_snoc f])
  ultimately show ?case
    using snoc.IH [OF pre f] f by (simp add: path_writable_snoc)
qed simp

section \<open>Reading and writing tables through the recursive mapping\<close>

lemma table_index_phys:
  assumes "recursive (pmem s) (cr3_frame s) T" and "path_ok is" and "table_at (pmem s) T is = Some f"
    and "j < 512"
  shows "table_index s (table_address is) j = Inr (pmem s f j)"
  using assms
  by (simp add: table_index_def ENTRY_COUNT_def vm_read_def mmu_table_address word_in_page_entry page_aligned_table)

lemma table_index_mut_phys:
  assumes "recursive (pmem s) (cr3_frame s) T" and "path_ok is" and "table_at (pmem s) T is = Some f"
    and "j < 512" and "path_writable (pmem s) T is"
  shows "table_index_mut (table_address is) j v s = Inr (poke f j v s)"
  using assms
  by (simp add: table_index_mut_def ENTRY_COUNT_def vm_write_def mmu_table_address word_in_page_entry page_aligned_table)

lemma next_table_address_phys:
  assumes "recursive (pmem s) (cr3_frame s) T" and "path_ok is" and "table_at (pmem s) T is = Some f"
    and "i < 512"
  shows "next_table_address s (table_address is) i =
     Inr (if child (pmem s) f i = None then None else Some (table_address (is @ [i])))"
  using assms
  by (simp add: next_table_address_def table_index_phys entry_flags_contains child_def table_address_simps)

lemmas next_table_phys = next_table_address_phys
  [folded next_table_def [of _ "table_address _"]]
  next_table_address_phys [folded next_table_mut_def [of _ "table_address _"]]

text \<open>A table in a frame that is no other table on its path, ready to be written.\<close>

definition reachable_table :: "vm \<Rightarrow> Frame \<Rightarrow> usize list \<Rightarrow> Frame \<Rightarrow> bool" where
  "reachable_table s T is g \<longleftrightarrow>
     recursive (pmem s) (cr3_frame s) T \<and> path_ok is \<and> is \<noteq> [] \<and> table_at (pmem s) T is = Some g
     \<and> path_writable (pmem s) T is \<and> g \<noteq> cr3_frame s \<and> g \<noteq> T
     \<and> (\<forall>js. strict_prefix js is \<longrightarrow> table_at (pmem s) T js \<noteq> Some g)"

lemma reachable_table_poke:
  assumes "reachable_table s T is g"
  shows "reachable_table (poke g j v s) T is g"
proof -
  have same: "table_at ((pmem s)(g := h)) T js = table_at (pmem s) T js" if "prefix js is" for js h
    using assms that
    by (intro table_at_cong) (auto simp: reachable_table_def dest: prefix_order.less_le_trans)
  have "path_writable ((pmem s)(g := h)) T is = path_writable (pmem s) T is" for h
    using assms by (intro path_writable_cong [where g = g]) (auto simp: reachable_table_def)
  moreover have "recursive ((pmem s)(g := h)) (cr3_frame s) T" for h
    using assms by (auto simp: reachable_table_def recursive_def)
  ultimately show ?thesis
    using assms same by (simp add: reachable_table_def strict_prefix_def)
qed

lemma zero_entries:
  assumes "reachable_table s T is g" and "\<forall>j \<in> set xs. j < 512"
  shows "rfold (\<lambda>i s. rbind (table_index s (table_address is) i)
            (\<lambda>e. table_index_mut (table_address is) i (entry_set_unused e) s)) xs s
     = Inr (s\<lparr>pmem := (pmem s)(g := (\<lambda>j. if j \<in> set xs then 0 else pmem s g j))\<rparr>)"
  using assms
proof (induction xs arbitrary: s)
  case (Cons x xs)
  have "rbind (table_index s (table_address is) x)
      (\<lambda>e. table_index_mut (table_address is) x (entry_set_unused e) s) = Inr (poke g x 0 s)"
    using Cons.prems table_index_phys [of s T "is" g x] table_index_mut_phys [of s T "is" g x]
    by (simp add: reachable_table_def entry_set_unused_def)
  moreover have "(\<lambda>j. if j \<in> set xs then 0 else pmem (poke g x 0 s) g j)
      = (\<lambda>j. if j \<in> set (x # xs) then 0 else pmem s g j)"
    by (auto simp: fun_eq_iff)
  ultimately show ?case
    using Cons.IH [OF reachable_table_poke [OF Cons.prems(1)], of x 0] Cons.prems(2)
    by (simp add: poke_def cong: if_cong)
qed simp

definition zeroed :: "memory \<Rightarrow> Frame \<Rightarrow> memory" where
  "zeroed m g = m(g := (\<lambda>j. if j < 512 then 0 else m g j))"

lemma table_zero_ok:
  assumes "reachable_table s T is g"
  shows "table_zero (table_address is) s = Inr (s\<lparr>pmem := zeroed (pmem s) g\<rparr>)"
proof -
  have le: "j \<le> 511 \<longleftrightarrow> j < (512 :: usize)" for j
    unfolding word_le_nat_alt word_less_nat_alt by simp arith
  with zero_entries [OF assms, of "word_range 0 511"] show ?thesis
    by (simp add: table_zero_def zeroed_def)
qed

section \<open>Creating a table\<close>

text \<open>Memory after a fresh frame \<open>g\<close> became the table behind entry \<open>i\<close> of the table in \<open>f\<close>.\<close>

definition table_entry :: "Frame \<Rightarrow> Entry" where
  "table_entry g = push_bit 12 (frame_number g) OR (PRESENT OR WRITABLE)"

definition new_table :: "memory \<Rightarrow> Frame \<Rightarrow> usize \<Rightarrow> Frame \<Rightarrow> memory" where
  "new_table m f i g = zeroed (m(f := (m f)(i := table_entry g))) g"

lemma table_entry_bits:
  assumes "frame_ok g"
  shows "bit (table_entry g) 0" and "bit (table_entry g) 1" and "\<not> bit (table_entry g) 7"
    and "entry_frame (table_entry g) = g"
proof -
  have "bit (table_entry g) n \<longleftrightarrow> bit (PRESENT OR WRITABLE) n" if "n < 12" for n
    unfolding table_entry_def using that by (rule made_entry_bit)
  then show "bit (table_entry g) 0" "bit (table_entry g) 1" "\<not> bit (table_entry g) 7"
    by (simp_all add: bit_or_iff bit_flag_consts)
  show "entry_frame (table_entry g) = g"
    unfolding table_entry_def by (rule made_entry(1) [OF assms flags_ok_or [OF flags_ok_consts(1,2)]])
qed

lemma new_table_other: "h \<noteq> f \<Longrightarrow> h \<noteq> g \<Longrightarrow> new_table m f i g h = m h"
  by (simp add: new_table_def zeroed_def)

lemma new_table_parent:
  "f \<noteq> g \<Longrightarrow> new_table m f i g f = (m f)(i := table_entry g)"
  by (simp add: new_table_def zeroed_def)

lemma new_table_zero: "j < 512 \<Longrightarrow> new_table m f i g g j = 0"
  by (simp add: new_table_def zeroed_def)

lemma table_at_new_table:
  assumes ok: "tables_ok m T" and g: "frame_ok g" "g \<notin> table_frames m T"
    and "path_ok (is @ [i])" and f: "table_at m T is = Some f" and nochild: "child m f i = None"
    and js: "path_ok js"
  shows "table_at (new_table m f i g) T js =
    (if js = is @ [i] then Some g else if strict_prefix (is @ [i]) js then None else table_at m T js)"
  using js
proof (induction js rule: rev_induct)
  case Nil
  then show ?case by simp
next
  case (snoc j js)
  have path: "path_ok js" "j < 512" "path_ok is" "i < 512"
    using snoc.prems assms(4) path_ok_snocD by auto
  have fg: "f \<noteq> g" using in_table_frames [OF path(3) f] g(2) by auto
  note IH = snoc.IH [OF path(1)]
  consider "js = is @ [i]" | "strict_prefix (is @ [i]) js" | "\<not> prefix (is @ [i]) js"
    by (auto simp: prefix_order.le_less)
  then show ?case
  proof cases
    case 1
    with IH have "table_at (new_table m f i g) T js = Some g" by simp
    then have "table_at (new_table m f i g) T (js @ [j]) = None"
      by (simp add: table_at_snoc child_def new_table_zero path(2))
    moreover have "strict_prefix (is @ [i]) (js @ [j])" unfolding 1 by (rule strict_prefix_snoc)
    ultimately show ?thesis by auto
  next
    case 2
    then have "strict_prefix (is @ [i]) (js @ [j])" by (meson prefix_order.less_trans strict_prefix_snoc)
    with 2 IH show ?thesis by (auto simp: table_at_snoc)
  next
    case 3
    then have IH': "table_at (new_table m f i g) T js = table_at m T js"
      using IH by (auto simp: strict_prefix_def)
    from 3 have nsp: "\<not> strict_prefix (is @ [i]) (js @ [j])"
      by (auto simp: strict_prefix_def)
    show ?thesis
    proof (cases "table_at m T js")
      case None
      then have "js @ [j] \<noteq> is @ [i]" using f by auto
      with None IH' nsp show ?thesis by (simp add: table_at_snoc)
    next
      case (Some h)
      have hg: "h \<noteq> g" using in_table_frames [OF path(1) Some] g(2) by auto
      show ?thesis
      proof (cases "h = f")
        case True
        with tables_ok_inj [OF ok path(1,3) Some] f have "js = is" by simp
        with True Some IH' fg nsp g show ?thesis
          by (auto simp: table_at_snoc child_def new_table_parent table_entry_bits)
      next
        case False
        then have "js \<noteq> is" using Some f by auto
        with False hg Some IH' nsp show ?thesis
          by (simp add: table_at_snoc child_def new_table_other)
      qed
    qed
  qed
qed


text \<open>A fresh frame \<open>g\<close> can become the table behind the empty entry \<open>i\<close> of the table at \<open>is\<close>.\<close>

definition fresh_table :: "memory \<Rightarrow> Frame \<Rightarrow> usize list \<Rightarrow> usize \<Rightarrow> Frame \<Rightarrow> Frame \<Rightarrow> bool" where
  "fresh_table m T is i f g \<longleftrightarrow>
     tables_ok m T \<and> frame_ok g \<and> g \<notin> table_frames m T \<and> path_ok (is @ [i])
     \<and> table_at m T is = Some f \<and> child m f i = None"

lemma fresh_table_at:
  assumes "fresh_table m T is i f g" and "path_ok js"
  shows "table_at (new_table m f i g) T js =
    (if js = is @ [i] then Some g else if strict_prefix (is @ [i]) js then None else table_at m T js)"
  using assms by (simp add: fresh_table_def table_at_new_table)

lemma fresh_tableD:
  assumes "fresh_table m T is i f g"
  shows "path_ok is" "i < 512" "length is < 3" "path_ok (is @ [i])" "table_at m T is = Some f"
    "f \<in> table_frames m T" "f \<noteq> g" "frame_ok g" "g \<notin> table_frames m T" "child m f i = None"
proof -
  have p: "path_ok (is @ [i])" and f: "table_at m T is = Some f" and g: "g \<notin> table_frames m T"
    using assms by (simp_all add: fresh_table_def)
  show "path_ok is" "i < 512" using path_ok_snocD [OF p] by simp_all
  then show "f \<in> table_frames m T" using in_table_frames f by blast
  with g show "f \<noteq> g" by auto
  show "length is < 3" using p by (simp add: path_ok_def)
qed (use assms in \<open>simp_all add: fresh_table_def\<close>)

lemma fresh_table_cases:
  assumes "fresh_table m T is i f g" and "path_ok js" and "table_at (new_table m f i g) T js = Some h"
  obtains "js = is @ [i]" "h = g"
  | "\<not> prefix (is @ [i]) js" "table_at m T js = Some h" "h \<noteq> g" "h = f \<longleftrightarrow> js = is"
proof (cases "js = is @ [i]")
  case True
  with assms fresh_table_at [OF assms(1,2)] show ?thesis by (auto intro: that(1))
next
  case False
  with assms fresh_table_at [OF assms(1,2)] have "\<not> strict_prefix (is @ [i]) js" and h: "table_at m T js = Some h"
    by (auto split: if_splits)
  with False have "\<not> prefix (is @ [i]) js" by (simp add: strict_prefix_def)
  moreover have "h \<noteq> g" using in_table_frames [OF assms(2) h] assms(1) by (auto simp: fresh_table_def)
  moreover have "h = f \<longleftrightarrow> js = is"
    using tables_ok_inj [of m T js "is" h] h assms(1,2) path_ok_snocD [of "is" i]
    by (auto simp: fresh_table_def)
  ultimately show ?thesis using h that(2) by blast
qed

lemma fresh_table_writable:
  assumes "fresh_table m T is i f g" and "path_ok js" and "table_at (new_table m f i g) T js = Some h"
  shows "path_writable (new_table m f i g) T js"
  using assms(2,3)
proof (induction js arbitrary: h rule: rev_induct)
  case (snoc j js)
  have path: "path_ok js" "j < 512" using path_ok_snocD [OF snoc.prems(1)] by auto
  from snoc.prems(2) obtain k where k: "table_at (new_table m f i g) T js = Some k"
    by (auto simp: table_at_snoc bind_eq_Some_conv)
  have chk: "child (new_table m f i g) k j = Some h"
    using snoc.prems(2) k by (simp add: table_at_snoc)
  have "bit (new_table m f i g k j) 1"
    using fresh_table_cases [OF assms(1) path(1) k]
  proof cases
    case 1
    with chk path(2) show ?thesis by (simp add: child_def new_table_zero)
  next
    case 2
    have f: "table_at m T is = Some f" "path_ok is" and g: "frame_ok g" "g \<notin> table_frames m T"
      using assms(1) path_ok_snocD [of "is" i] by (auto simp: fresh_table_def)
    then have fg: "f \<noteq> g" using in_table_frames by blast
    show ?thesis
    proof (cases "k = f \<and> j = i")
      case True
      with fg table_entry_bits(2) [OF g(1)] show ?thesis by (simp add: new_table_parent)
    next
      case False
      then have same: "new_table m f i g k j = m k j"
        using 2(3) fg by (cases "k = f") (simp_all add: new_table_parent new_table_other)
      then have "table_at m T (js @ [j]) = Some h"
        using chk 2(2) by (simp add: table_at_snoc child_def split: if_splits)
      with assms(1) snoc.prems(1) have "path_writable m T (js @ [j])"
        using tables_ok_writable by (auto simp: fresh_table_def)
      with 2(2) same show ?thesis by (simp add: path_writable_snoc)
    qed
  qed
  with snoc.IH [OF path(1) k] k show ?case by (simp add: path_writable_snoc)
qed simp

lemma fresh_table_frames:
  assumes "fresh_table m T is i f g"
  shows "table_frames (new_table m f i g) T \<subseteq> insert g (table_frames m T)"
proof
  fix h assume "h \<in> table_frames (new_table m f i g) T"
  then obtain js where js: "path_ok js" "table_at (new_table m f i g) T js = Some h"
    by (auto simp: table_frames_def)
  then show "h \<in> insert g (table_frames m T)"
    by (cases rule: fresh_table_cases [OF assms js]) (auto intro: in_table_frames)
qed

lemma fresh_table_ok:
  assumes "fresh_table m T is i f g"
  shows "tables_ok (new_table m f i g) T"
  unfolding tables_ok_def
proof (intro conjI allI impI)
  fix js h assume "path_ok js" "table_at (new_table m f i g) T js = Some h"
  then show "path_writable (new_table m f i g) T js" by (rule fresh_table_writable [OF assms])
next
  fix js ks h
  assume j: "path_ok js" "table_at (new_table m f i g) T js = Some h"
    and k: "path_ok ks" "table_at (new_table m f i g) T ks = Some h"
  have ok: "tables_ok m T" using assms by (simp add: fresh_table_def)
  show "js = ks"
    using fresh_table_cases [OF assms j] fresh_table_cases [OF assms k] tables_ok_inj [OF ok j(1) k(1)]
    by metis
qed

lemma pt_wf_new_table:
  assumes wf: "pt_wf s T" and fresh: "fresh_table (pmem s) T is i f g" and g: "g \<in> free_now s"
    and s': "pmem s' = new_table (pmem s) f i g" "cr3 s' = cr3 s" "ALLOCATOR s' = Some a'"
      "alloc_wf a'" "free_set a' = free_now s - {g}"
  shows "pt_wf s' T"
proof -
  let ?r = "cr3_frame s"
  have r: "cr3_frame s' = ?r" using s'(2) by (simp add: cr3_frame_def)
  have f: "f \<in> table_frames (pmem s) T" "table_at (pmem s) T is = Some f" "path_ok is" and p: "path_ok (is @ [i])"
    using fresh path_ok_snocD [of "is" i] by (auto simp: fresh_table_def intro: in_table_frames)
  have T: "T \<in> table_frames (pmem s) T" by (rule in_table_frames [of "[]"]) simp_all
  have gr: "g \<noteq> ?r" "g \<noteq> T" using wf g T
    by (auto simp: pt_wf_def free_now_def alloc_apart_def split: option.splits)
  have apart: "?r = T \<or> ?r \<notin> table_frames (pmem s) T" using wf by (simp add: pt_wf_def)
  have root: "new_table (pmem s) f i g T 511 = pmem s T 511"
  proof (cases "f = T")
    case True
    with f have "is = []"
      using wf tables_ok_inj [of "pmem s" T "[]" "is" T] by (simp add: pt_wf_def)
    with p True gr show ?thesis by (auto simp: new_table_parent path_ok_def)
  qed (use gr in \<open>simp add: new_table_other\<close>)
  then have "new_table (pmem s) f i g ?r 511 = pmem s ?r 511"
    using apart f(1) gr by (cases "?r = T") (simp, metis new_table_other)
  with root wf have "recursive (pmem s') ?r T" by (simp add: pt_wf_def recursive_def s'(1))
  moreover have "?r = T \<or> ?r \<notin> table_frames (pmem s') T"
    using apart gr fresh_table_frames [OF fresh] s'(1) by auto
  moreover have "tables_ok (pmem s') T" using fresh_table_ok [OF fresh] s'(1) by simp
  moreover have "alloc_apart a' (pmem s') ?r T"
    using wf s' fresh_table_frames [OF fresh]
    by (auto simp: pt_wf_def free_now_def alloc_apart_def split: option.splits)
  ultimately show ?thesis using r s'(3) by (simp add: pt_wf_def)
qed


lemma allocate_frames_pt:
  assumes "pt_wf s T" and "free_now s \<noteq> {}"
  obtains g a' where "allocate_frames 1 s = Inr (Some g, s\<lparr>ALLOCATOR := Some a'\<rparr>)" "alloc_wf a'"
    "g \<in> free_now s" "free_set a' = free_now s - {g}"
proof -
  from assms obtain a where a: "ALLOCATOR s = Some a" "alloc_wf a" "free_now s = free_set a"
    by (auto simp: pt_wf_def alloc_apart_def free_now_def split: option.splits)
  from allocate_frame_one [OF a(2)] obtain r a' where
    "allocate_frame a 1 = Some (Inr (r, a'))" "alloc_wf a'"
    "case r of None \<Rightarrow> free_set a = {} \<and> free_set a' = {}
      | Some f \<Rightarrow> f \<in> free_set a \<and> (\<forall>g \<in> free_set a. f \<le> g) \<and> free_set a' = free_set a - {f}"
    by blast
  with a assms(2) show ?thesis
    by (cases r) (auto simp: allocate_frames_def intro!: that)
qed

lemma pt_wf_alloc_fresh:
  assumes "pt_wf s T" and "g \<in> free_now s"
  shows "frame_ok g" and "g \<notin> table_frames (pmem s) T" and "g \<noteq> cr3_frame s"
  using assms by (auto simp: pt_wf_def alloc_apart_def free_now_def split: option.splits)

lemma pt_wf_recursive: "pt_wf s T \<Longrightarrow> recursive (pmem s) (cr3_frame s) T"
  by (simp add: pt_wf_def)

lemma pt_wf_tables_ok: "pt_wf s T \<Longrightarrow> tables_ok (pmem s) T"
  by (simp add: pt_wf_def)

text \<open>The entry of the parent table was written: the new table is reachable and can be zeroed.\<close>

lemma parent_poke_reachable:
  assumes wf: "pt_wf s T" and fresh: "fresh_table (pmem s) T is i f g" and g: "g \<in> free_now s"
    and s1: "pmem s1 = (pmem s)(f := (pmem s f)(i := table_entry g))" "cr3_frame s1 = cr3_frame s"
  shows "reachable_table s1 T (is @ [i]) g"
proof -
  let ?r = "cr3_frame s" and ?m = "pmem s"
  note g' = pt_wf_alloc_fresh [OF wf g]
  have f: "f \<in> table_frames ?m T" "table_at ?m T is = Some f" "path_ok is" "path_ok (is @ [i])"
    using fresh path_ok_snocD [of "is" i] by (auto simp: fresh_table_def intro: in_table_frames)
  have ok: "tables_ok ?m T" using wf by (rule pt_wf_tables_ok)
  have T: "T \<in> table_frames ?m T" by (rule in_table_frames [of "[]"]) simp_all
  have fg: "f \<noteq> g" and Tg: "T \<noteq> g" using f T g' by auto
  have pref: "table_at (pmem s1) T js = table_at ?m T js" if "prefix js is" for js
  proof (rule table_at_cong)
    fix ks h assume ks: "strict_prefix ks js" "table_at ?m T ks = Some h"
    with that have "strict_prefix ks is" by (meson prefix_order.less_le_trans)
    then have "path_ok ks" "ks \<noteq> is" using f(3) path_ok_prefix by (auto simp: strict_prefix_def)
    with ks f ok have "h \<noteq> f" using tables_ok_inj by metis
    with s1 show "pmem s1 h = ?m h" by simp
  qed
  have wr: "path_writable (pmem s1) T is"
  proof -
    have "path_writable (pmem s1) T is = path_writable ?m T is"
    proof (rule path_writable_cong [OF _ f(2)])
      fix ks h assume ks: "strict_prefix ks is" "table_at ?m T ks = Some h"
      then have "path_ok ks" "ks \<noteq> is" using f(3) path_ok_prefix by (auto simp: strict_prefix_def)
      with ks f ok have "h \<noteq> f" using tables_ok_inj by metis
      with s1 show "pmem s1 h = ?m h" by simp
    qed
    with tables_ok_writable [OF ok f(3,2)] show ?thesis by simp
  qed
  have at: "table_at (pmem s1) T is = Some f" using pref f(2) by simp
  have entry: "pmem s1 f i = table_entry g" using s1 by simp
  have rec: "recursive (pmem s1) ?r T"
  proof -
    have "\<not> (f = T \<and> i = 511)"
      using f ok tables_ok_inj [of ?m T "[]" "is" T] by (auto simp: path_ok_def)
    moreover have "f = ?r \<Longrightarrow> f = T" using wf f(1) by (auto simp: pt_wf_def)
    ultimately show ?thesis using pt_wf_recursive [OF wf] s1(1) by (auto simp: recursive_def)
  qed
  have "table_at (pmem s1) T (is @ [i]) = Some g"
    using at entry table_entry_bits [OF g'(1)] by (simp add: table_at_snoc child_def)
  moreover have "path_writable (pmem s1) T (is @ [i])"
    using wr at entry table_entry_bits(2) [OF g'(1)] by (simp add: path_writable_snoc)
  moreover have "table_at (pmem s1) T js \<noteq> Some g" if "strict_prefix js (is @ [i])" for js
  proof -
    from that have "prefix js is" by (auto simp: strict_prefix_def)
    with pref f(3) g'(2) show ?thesis by (metis in_table_frames path_ok_prefix)
  qed
  ultimately show ?thesis
    using rec f(4) s1(2) g'(3) Tg by (auto simp: reachable_table_def)
qed

text \<open>What \<^verbatim>\<open>next_table_create\<close> did: nothing when the table was there, a zeroed new table otherwise.\<close>

definition created :: "vm \<Rightarrow> Frame \<Rightarrow> usize list \<Rightarrow> usize \<Rightarrow> vm \<Rightarrow> bool" where
  "created s T is i s' \<longleftrightarrow>
     s' = s \<and> table_at (pmem s) T (is @ [i]) \<noteq> None
     \<or> (\<exists>f g. fresh_table (pmem s) T is i f g \<and> \<not> bit (pmem s f i) 7 \<and> g \<in> free_now s
          \<and> pmem s' = new_table (pmem s) f i g \<and> cr3 s' = cr3 s \<and> tlb_events s' = tlb_events s
          \<and> free_now s' = free_now s - {g} \<and> pt_wf s' T)"

lemma next_table_create_ok:
  assumes wf: "pt_wf s T" and path: "path_ok (is @ [i])" and f: "table_at (pmem s) T is = Some f"
    and nohuge: "\<not> bit (pmem s f i) 7" and free: "free_now s \<noteq> {}"
  shows "\<exists>s'. next_table_create (table_address is) i s = Inr (table_address (is @ [i]), s') \<and> created s T is i s'"
proof (cases "child (pmem s) f i")
  case (Some h)
  have rec: "recursive (pmem s) (cr3_frame s) T" and p: "path_ok is" "i < 512"
    using wf pt_wf_recursive path_ok_snocD [OF path] by auto
  have "next_table s (table_address is) i = Inr (Some (table_address (is @ [i])))"
    using next_table_address_phys [OF rec p(1) f p(2)] Some by (simp add: next_table_def)
  then have "next_table_create (table_address is) i s = Inr (table_address (is @ [i]), s)"
    by (simp add: next_table_create_def next_table_def next_table_mut_def)
  with Some f show ?thesis by (auto simp: created_def table_at_snoc)
next
  case None
  have rec: "recursive (pmem s) (cr3_frame s) T" and p: "path_ok is" "i < 512" and ok: "tables_ok (pmem s) T"
    using wf pt_wf_recursive pt_wf_tables_ok path_ok_snocD [OF path] by auto
  obtain g a' where g: "allocate_frames 1 s = Inr (Some g, s\<lparr>ALLOCATOR := Some a'\<rparr>)" "alloc_wf a'"
    "g \<in> free_now s" "free_set a' = free_now s - {g}"
    using allocate_frames_pt [OF wf free] by blast
  note g' = pt_wf_alloc_fresh [OF wf g(3)]
  have fresh: "fresh_table (pmem s) T is i f g"
    using ok g' path f None by (simp add: fresh_table_def)
  define s0 where "s0 = s\<lparr>ALLOCATOR := Some a'\<rparr>"
  define s1 where "s1 = poke f i (table_entry g) s0"
  define s2 where "s2 = s1\<lparr>pmem := zeroed (pmem s1) g\<rparr>"
  have s0: "pmem s0 = pmem s" "cr3_frame s0 = cr3_frame s" by (simp_all add: s0_def cr3_frame_def)
  have m2: "pmem s2 = new_table (pmem s) f i g" by (simp add: s2_def s1_def s0 new_table_def)
  have reach: "reachable_table s1 T (is @ [i]) g"
    by (rule parent_poke_reachable [OF wf fresh g(3)]) (simp_all add: s1_def s0)
  have ents: "next_table s (table_address is) i = Inr None"
    "table_index s (table_address is) i = Inr (pmem s f i)"
    using next_table_address_phys [OF rec p(1) f p(2)] table_index_phys [OF rec p(1) f p(2)] None
    by (simp_all add: next_table_def)
  have wr: "table_index_mut (table_address is) i (table_entry g) s0 = Inr s1"
    unfolding s1_def
    by (rule table_index_mut_phys [of _ T]) (use rec p f tables_ok_writable [OF ok p(1) f] s0 in simp_all)
  have set: "entry_set g (PRESENT OR WRITABLE) = Inr (table_entry g)"
    using g'(1) flags_ok_or [OF flags_ok_consts(1,2)] by (simp add: entry_set_ok table_entry_def)
  have next1: "next_table_mut s1 (table_address is) i = Inr (Some (table_address (is @ [i])))"
  proof -
    from reach obtain f' where "table_at (pmem s1) T is = Some f'" "child (pmem s1) f' i = Some g"
      by (auto simp: reachable_table_def table_at_snoc bind_eq_Some_conv)
    with reach p show ?thesis
      using next_table_address_phys [of s1 T "is" f' i] by (simp add: reachable_table_def next_table_mut_def)
  qed
  have wf2: "pt_wf s2 T"
    by (rule pt_wf_new_table [OF wf fresh g(3) m2 _ _ g(2,4)]) (simp_all add: s2_def s1_def s0_def)
  have next2: "next_table_mut s2 (table_address is) i = Inr (Some (table_address (is @ [i])))"
  proof -
    have "table_at (pmem s2) T (is @ [i]) = Some g"
      using fresh_table_at [OF fresh path] m2 by simp
    then obtain f' where "table_at (pmem s2) T is = Some f'" "child (pmem s2) f' i = Some g"
      by (auto simp: table_at_snoc bind_eq_Some_conv)
    with p show ?thesis
      using next_table_address_phys [OF pt_wf_recursive [OF wf2], of "is" f' i] by (simp add: next_table_mut_def)
  qed
  have "next_table_create (table_address is) i s = Inr (table_address (is @ [i]), s2)"
    using ents wr set next1 next2 table_zero_ok [OF reach] g(1) nohuge
    by (simp add: next_table_create_def entry_flags_contains s0_def s2_def)
  moreover have "created s T is i s2"
    unfolding created_def
    using fresh nohuge g m2 wf2 by (intro disjI2 exI [of _ f] exI [of _ g]) (simp add: s2_def s1_def s0_def free_now_def)
  ultimately show ?thesis by blast
qed


section \<open>The page walk\<close>

lemma less_4_cases: "(\<forall>n < 4. P n) \<longleftrightarrow> P 0 \<and> P 1 \<and> P 2 \<and> P (3 :: nat)"
proof -
  have "n < 4 \<longleftrightarrow> n = 0 \<or> n = 1 \<or> n = 2 \<or> n = 3" for n :: nat by arith
  then show ?thesis by auto
qed

text \<open>A walk depends only on the entries it reads, and an entry that is not present ends it.\<close>

lemma page_walk_cong:
  assumes "\<And>n t. n < 4 \<Longrightarrow> table_at m T (take n [a, b, c, d]) = Some t \<Longrightarrow> m' t ([a, b, c, d] ! n) = m t ([a, b, c, d] ! n)"
  shows "page_walk m' T a b c d = page_walk m T a b c d"
proof -
  have "\<forall>n < 4. \<forall>t. table_at m T (take n [a, b, c, d]) = Some t \<longrightarrow> m' t ([a, b, c, d] ! n) = m t ([a, b, c, d] ! n)"
    using assms by blast
  then show ?thesis
    unfolding less_4_cases by (simp add: page_walk_def Let_def numeral_2_eq_2 numeral_3_eq_3)
qed

lemma page_walk_absent:
  assumes "n < 4" and "table_at m T (take n [a, b, c, d]) = Some t" and "\<not> bit (m t ([a, b, c, d] ! n)) 0"
  shows "page_walk m T a b c d = None"
proof -
  from assms(1) consider "n = 0" | "n = 1" | "n = 2" | "n = 3" by linarith
  then show ?thesis
    using assms(2,3)
    by cases (auto simp: page_walk_def Let_def numeral_2_eq_2 numeral_3_eq_3 split: if_splits)
qed

lemma page_walk_leaf:
  assumes "table_at m T [a, b, c] = Some t"
  shows "page_walk m T a b c d =
    (if bit (m t d) 0 then Some (entry_frame (m t d), path_writable m T [a, b, c] \<and> bit (m t d) 1) else None)"
  using assms by (auto simp: page_walk_def Let_def split: if_splits)

text \<open>Creating an empty table changes no translation.\<close>

lemma take_page_path_ok:
  assumes "a \<noteq> 511" "a < 512" "b < 512" "c < 512" "n < 4"
  shows "path_ok (take n [a, b, c, d])"
  using assms by (auto simp: path_ok_def less_Suc_eq numeral_eq_Suc)

lemma prefix_take_snoc:
  assumes "n < length q" and "take n q = is" and "q ! n = i"
  shows "prefix (is @ [i]) q"
  using assms by (metis take_Suc_conv_app_nth take_is_prefix)

lemma page_walk_new_table:
  assumes fresh: "fresh_table m T is i f g" and nohuge: "\<not> bit (m f i) 7"
    and q: "a \<noteq> 511" "a < 512" "b < 512" "c < 512" "d < 512"
  shows "page_walk (new_table m f i g) T a b c d = page_walk m T a b c d"
proof (cases "prefix (is @ [i]) [a, b, c, d]")
  case True
  then obtain zs where zs: "[a, b, c, d] = (is @ [i]) @ zs" by (auto simp: prefix_def)
  have len: "length is < 3" and f: "table_at m T is = Some f" and path: "path_ok (is @ [i])"
    using fresh by (auto simp: fresh_table_def path_ok_def)
  have i: "take (length is) [a, b, c, d] = is" "[a, b, c, d] ! length is = i"
    unfolding zs by (simp_all add: nth_append)
  have "page_walk m T a b c d = None"
  proof (rule page_walk_absent [of "length is"])
    show "\<not> bit (m f ([a, b, c, d] ! length is)) 0"
      using fresh nohuge i(2) by (auto simp: fresh_table_def child_def split: if_splits)
  qed (use len f i in simp_all)
  moreover have "page_walk (new_table m f i g) T a b c d = None"
  proof (rule page_walk_absent [of "Suc (length is)"])
    have "take (Suc (length is)) [a, b, c, d] = is @ [i]" unfolding zs by simp
    then show "table_at (new_table m f i g) T (take (Suc (length is)) [a, b, c, d]) = Some g"
      using fresh_table_at [OF fresh path] by simp
    have "\<forall>j \<in> set [a, b, c, d]. j < 512" using q by simp
    moreover have "[a, b, c, d] ! Suc (length is) \<in> set [a, b, c, d]" using len by (intro nth_mem) simp
    ultimately have "[a, b, c, d] ! Suc (length is) < 512" by blast
    then show "\<not> bit (new_table m f i g g ([a, b, c, d] ! Suc (length is))) 0"
      by (simp add: new_table_zero)
  qed (use len in simp)
  ultimately show ?thesis by simp
next
  case False
  show ?thesis
  proof (rule page_walk_cong)
    fix n t assume n: "n < 4" and t: "table_at m T (take n [a, b, c, d]) = Some t"
    have path: "path_ok (take n [a, b, c, d])" using take_page_path_ok q n by simp
    have tg: "t \<noteq> g" using in_table_frames [OF path t] fresh by (auto simp: fresh_table_def)
    show "new_table m f i g t ([a, b, c, d] ! n) = m t ([a, b, c, d] ! n)"
    proof (cases "t = f")
      case True
      have "take n [a, b, c, d] = is"
        using tables_ok_inj [of m T _ "is" f] path t True fresh path_ok_snocD by (metis fresh_table_def)
      with False n have "[a, b, c, d] ! n \<noteq> i" using prefix_take_snoc [of n "[a, b, c, d]" "is" i] by auto
      with True tg show ?thesis by (simp add: new_table_parent)
    qed (use tg in \<open>simp add: new_table_other\<close>)
  qed
qed


section \<open>Mapping a page\<close>

text \<open>
  No entry on the way to the page is a huge page and its entry in the last table, if that table
  exists, is unused.
\<close>

definition mappable :: "vm \<Rightarrow> Frame \<Rightarrow> Page \<Rightarrow> bool" where
  "mappable s T p \<longleftrightarrow>
     (\<forall>n < 3. \<forall>t. table_at (pmem s) T (take n (page_path p)) = Some t \<longrightarrow> \<not> bit (pmem s t (page_path p ! n)) 7)
     \<and> (\<forall>t. table_at (pmem s) T (take 3 (page_path p)) = Some t \<longrightarrow> pmem s t (p1_index p) = 0)"

lemma mappable_leaf:
  assumes "table_at (pmem s) T [p4_index p, p3_index p, p2_index p] = Some t" and "pmem s t (p1_index p) = 0"
  shows "mappable s T p"
proof -
  have "n < 3 \<longleftrightarrow> n = 0 \<or> n = 1 \<or> n = 2" for n :: nat by arith
  then show ?thesis
    using assms by (auto simp: mappable_def page_path_def numeral_3_eq_3 numeral_2_eq_2 split: if_splits)
qed

lemma mappable_created:
  assumes "mappable s T p" and c: "created s T is i s'" and p4: "p4_index p \<noteq> 511"
  shows "mappable s' T p"
  using c unfolding created_def
proof (elim disjE conjE exE)
  fix f g assume fresh: "fresh_table (pmem s) T is i f g" and m': "pmem s' = new_table (pmem s) f i g"
  have entry: "pmem s' t (page_path p ! n) = 0
      \<or> table_at (pmem s) T (take n (page_path p)) = Some t \<and> pmem s' t (page_path p ! n) = pmem s t (page_path p ! n)
      \<or> n < 3 \<and> \<not> bit (pmem s' t (page_path p ! n)) 7"
    if n: "n < 4" and t: "table_at (pmem s') T (take n (page_path p)) = Some t" for n t
  proof -
    have path: "path_ok (take n (page_path p))" using p4 n by (rule path_ok_take)
    have idx: "page_path p ! n < 512"
      using n by (auto simp: page_path_def less_Suc_eq numeral_eq_Suc)
    note g = fresh_tableD(8) [OF fresh] and fg = fresh_tableD(7) [OF fresh] and len = fresh_tableD(3) [OF fresh]
    from t m' have t': "table_at (new_table (pmem s) f i g) T (take n (page_path p)) = Some t" by simp
    show ?thesis
      using fresh_table_cases [OF fresh path t']
    proof cases
      case 1
      with idx m' show ?thesis by (simp add: new_table_zero)
    next
      case 2
      show ?thesis
      proof (cases "t = f \<and> page_path p ! n = i")
        case True
        with 2 have "length (take n (page_path p)) = length is" by simp
        with len n have "n < 3" by (simp add: page_path_def)
        with True m' fg table_entry_bits(3) [OF g] show ?thesis by (simp add: new_table_parent)
      next
        case False
        with 2 m' fg show ?thesis
          by (cases "t = f") (simp_all add: new_table_parent new_table_other)
      qed
    qed
  qed
  have "page_path p ! 3 = p1_index p" by (simp add: page_path_def)
  with assms(1) show ?thesis
    unfolding mappable_def
  proof (elim conjE, intro conjI allI impI)
    fix n t assume "n < (3 :: nat)" "table_at (pmem s') T (take n (page_path p)) = Some t"
      and "\<forall>n < 3. \<forall>t. table_at (pmem s) T (take n (page_path p)) = Some t \<longrightarrow> \<not> bit (pmem s t (page_path p ! n)) 7"
    with entry [of n t] show "\<not> bit (pmem s' t (page_path p ! n)) 7" by auto
  next
    fix t assume "table_at (pmem s') T (take 3 (page_path p)) = Some t" "page_path p ! 3 = p1_index p"
      and "\<forall>t. table_at (pmem s) T (take 3 (page_path p)) = Some t \<longrightarrow> pmem s t (p1_index p) = 0"
    with entry [of 3 t] show "pmem s' t (p1_index p) = 0" by auto
  qed
qed (use assms in simp)

lemma created_page_map:
  assumes "created s T is i s'" and "p4_index q \<noteq> 511"
  shows "page_map s' T q = page_map s T q"
  using assms(1) unfolding created_def
  by (elim disjE exE conjE) (simp_all add: page_map_def page_walk_new_table assms(2))

lemma created_wf: "pt_wf s T \<Longrightarrow> created s T is i s' \<Longrightarrow> pt_wf s' T"
  unfolding created_def by (elim disjE exE conjE) simp_all

lemma created_at: "created s T is i s' \<Longrightarrow> table_at (pmem s') T (is @ [i]) \<noteq> None"
  unfolding created_def using fresh_table_at fresh_tableD(4) by (elim disjE exE conjE) simp_all

lemma created_frame:
  "created s T is i s' \<Longrightarrow> cr3 s' = cr3 s \<and> tlb_events s' = tlb_events s \<and> free_now s' \<subseteq> free_now s
     \<and> card (free_now s) \<le> Suc (card (free_now s'))"
  unfolding created_def by (elim disjE exE conjE) (simp_all add: card_Diff_singleton Diff_subset)

lemma created_other:
  assumes "created s T is i s'" and "h \<notin> table_frames (pmem s) T" and "h \<notin> free_now s"
  shows "pmem s' h = pmem s h \<and> h \<notin> table_frames (pmem s') T"
  using assms unfolding created_def
proof (elim disjE conjE exE)
  fix f g assume *: "fresh_table (pmem s) T is i f g" "pmem s' = new_table (pmem s) f i g" "g \<in> free_now s"
  with fresh_tableD(6) [OF *(1)] assms(2,3) have "h \<noteq> f" "h \<noteq> g" by auto
  then show ?thesis using * fresh_table_frames [OF *(1)] assms(2) by (auto simp: new_table_other)
qed auto

lemma table_at_longer: "table_at m T xs = None \<Longrightarrow> table_at m T (xs @ ys) = None"
  by (induction ys rule: rev_induct) (simp_all add: table_at_snoc flip: append_assoc)

lemma created_grows:
  assumes "created s T is i s'" and "path_ok js" and "table_at (pmem s) T js = Some h"
  shows "table_at (pmem s') T js = Some h"
  using assms(1) unfolding created_def
proof (elim disjE conjE exE)
  fix f g assume *: "fresh_table (pmem s) T is i f g" "pmem s' = new_table (pmem s) f i g"
  have "table_at (pmem s) T (is @ [i]) = None" using fresh_tableD(5,10) [OF *(1)] by (simp add: table_at_snoc)
  then have "\<not> prefix (is @ [i]) js" using table_at_longer assms(3) by (metis option.distinct(1) prefixE)
  then show ?thesis using fresh_table_at [OF *(1) assms(2)] assms(3) *(2) by (auto simp: strict_prefix_def)
qed (use assms(3) in simp)

text \<open>
  What the operations leave alone: every frame that is no table and is not free, and the place of
  every table in the tree.
\<close>

definition kept :: "vm \<Rightarrow> Frame \<Rightarrow> vm \<Rightarrow> bool" where
  "kept s T s' \<longleftrightarrow>
     cr3 s' = cr3 s \<and> free_now s' \<subseteq> free_now s
     \<and> (\<forall>h. h \<notin> table_frames (pmem s) T \<longrightarrow> h \<notin> free_now s \<longrightarrow>
          pmem s' h = pmem s h \<and> h \<notin> table_frames (pmem s') T)
     \<and> (\<forall>is f. path_ok is \<longrightarrow> table_at (pmem s) T is = Some f \<longrightarrow> table_at (pmem s') T is = Some f)"

lemma kept_refl [simp]: "kept s T s"
  by (simp add: kept_def)

lemma kept_trans: "kept s T s' \<Longrightarrow> kept s' T s'' \<Longrightarrow> kept s T s''"
  unfolding kept_def by (metis subset_eq)

definition same_maps :: "vm \<Rightarrow> Frame \<Rightarrow> vm \<Rightarrow> bool" where
  "same_maps s T s' \<longleftrightarrow> (\<forall>q. p4_index q \<noteq> 511 \<longrightarrow> page_map s' T q = page_map s T q)"

definition still_mappable :: "vm \<Rightarrow> Frame \<Rightarrow> vm \<Rightarrow> bool" where
  "still_mappable s T s' \<longleftrightarrow> (\<forall>q. p4_index q \<noteq> 511 \<longrightarrow> mappable s T q \<longrightarrow> mappable s' T q)"

lemma created_kept: "created s T is i s' \<Longrightarrow> kept s T s'"
  using created_frame [of s T "is" i s'] created_other [of s T "is" i s'] created_grows [of s T "is" i s']
  by (auto simp: kept_def)

lemma create_step:
  assumes "pt_wf s T" and "mappable s T p" and "p4_index p \<noteq> 511" and "n < 3"
    and "table_at (pmem s) T (take n (page_path p)) \<noteq> None" and "0 < card (free_now s)"
  shows "\<exists>s'. next_table_create (table_address (take n (page_path p))) (page_path p ! n) s
        = Inr (table_address (take (Suc n) (page_path p)), s')
     \<and> pt_wf s' T \<and> mappable s' T p \<and> table_at (pmem s') T (take (Suc n) (page_path p)) \<noteq> None
     \<and> same_maps s T s' \<and> still_mappable s T s' \<and> kept s T s' \<and> tlb_events s' = tlb_events s
     \<and> card (free_now s) \<le> Suc (card (free_now s'))"
proof -
  have snoc: "take (Suc n) (page_path p) = take n (page_path p) @ [page_path p ! n]"
    using assms(4) by (intro take_Suc_conv_app_nth) (simp add: page_path_def)
  from assms(5) obtain f where f: "table_at (pmem s) T (take n (page_path p)) = Some f" by auto
  have "path_ok (take n (page_path p) @ [page_path p ! n])"
    unfolding snoc [symmetric] using assms(3,4) by (intro path_ok_take) simp_all
  moreover have "\<not> bit (pmem s f (page_path p ! n)) 7" using assms(2,4) f by (auto simp: mappable_def)
  moreover have "free_now s \<noteq> {}" using assms(6) by auto
  ultimately obtain s' where s': "next_table_create (table_address (take n (page_path p))) (page_path p ! n) s
        = Inr (table_address (take n (page_path p) @ [page_path p ! n]), s')"
      "created s T (take n (page_path p)) (page_path p ! n) s'"
    using next_table_create_ok [OF assms(1) _ f] by blast
  show ?thesis
    using s' created_wf [OF assms(1) s'(2)] mappable_created [OF _ s'(2)] assms(2,3) created_at [OF s'(2)]
      created_page_map [OF s'(2)] created_kept [OF s'(2)] created_frame [OF s'(2)]
    by (intro exI [of _ s']) (simp add: snoc same_maps_def still_mappable_def)
qed

lemma create_path:
  assumes wf: "pt_wf s T" and map: "mappable s T p" and p4: "p4_index p \<noteq> 511" and free: "3 \<le> card (free_now s)"
  obtains s1 s2 s3 where
    "next_table_create P4 (p4_index p) s = Inr (table_address [p4_index p], s1)"
    "next_table_create (table_address [p4_index p]) (p3_index p) s1 = Inr (table_address [p4_index p, p3_index p], s2)"
    "next_table_create (table_address [p4_index p, p3_index p]) (p2_index p) s2
       = Inr (table_address [p4_index p, p3_index p, p2_index p], s3)"
    "pt_wf s3 T" "mappable s3 T p" "table_at (pmem s3) T [p4_index p, p3_index p, p2_index p] \<noteq> None"
    "same_maps s T s3 \<and> still_mappable s T s3" "kept s T s3" "tlb_events s3 = tlb_events s" "card (free_now s) \<le> card (free_now s3) + 3"
proof -
  have "\<exists>s1. next_table_create P4 (p4_index p) s = Inr (table_address [p4_index p], s1)
     \<and> pt_wf s1 T \<and> mappable s1 T p \<and> table_at (pmem s1) T [p4_index p] \<noteq> None
     \<and> same_maps s T s1 \<and> still_mappable s T s1 \<and> kept s T s1 \<and> tlb_events s1 = tlb_events s \<and> card (free_now s) \<le> Suc (card (free_now s1))"
    using create_step [OF wf map p4, of 0] free by (simp add: page_path_def table_address_simps(1))
  then obtain s1 where 1: "next_table_create P4 (p4_index p) s = Inr (table_address [p4_index p], s1)"
    "pt_wf s1 T" "mappable s1 T p" "table_at (pmem s1) T [p4_index p] \<noteq> None"
    "same_maps s T s1 \<and> still_mappable s T s1" "kept s T s1" "tlb_events s1 = tlb_events s" "card (free_now s) \<le> Suc (card (free_now s1))"
    by blast
  have "\<exists>s2. next_table_create (table_address [p4_index p]) (p3_index p) s1
       = Inr (table_address [p4_index p, p3_index p], s2)
     \<and> pt_wf s2 T \<and> mappable s2 T p \<and> table_at (pmem s2) T [p4_index p, p3_index p] \<noteq> None
     \<and> same_maps s1 T s2 \<and> still_mappable s1 T s2 \<and> kept s1 T s2 \<and> tlb_events s2 = tlb_events s1 \<and> card (free_now s1) \<le> Suc (card (free_now s2))"
    using create_step [OF 1(2,3) p4, of 1] free 1(4,8) by (simp add: page_path_def numeral_2_eq_2 del: table_at.simps)
  then obtain s2 where 2: "next_table_create (table_address [p4_index p]) (p3_index p) s1
       = Inr (table_address [p4_index p, p3_index p], s2)"
    "pt_wf s2 T" "mappable s2 T p" "table_at (pmem s2) T [p4_index p, p3_index p] \<noteq> None"
    "same_maps s1 T s2 \<and> still_mappable s1 T s2" "kept s1 T s2" "tlb_events s2 = tlb_events s1" "card (free_now s1) \<le> Suc (card (free_now s2))"
    by blast
  have "\<exists>s3. next_table_create (table_address [p4_index p, p3_index p]) (p2_index p) s2
       = Inr (table_address [p4_index p, p3_index p, p2_index p], s3)
     \<and> pt_wf s3 T \<and> mappable s3 T p \<and> table_at (pmem s3) T [p4_index p, p3_index p, p2_index p] \<noteq> None
     \<and> same_maps s2 T s3 \<and> still_mappable s2 T s3 \<and> kept s2 T s3 \<and> tlb_events s3 = tlb_events s2 \<and> card (free_now s2) \<le> Suc (card (free_now s3))"
    using create_step [OF 2(2,3) p4, of 2] free 1(8) 2(4,8) by (simp add: page_path_def numeral_2_eq_2 del: table_at.simps)
  then obtain s3 where 3: "next_table_create (table_address [p4_index p, p3_index p]) (p2_index p) s2
       = Inr (table_address [p4_index p, p3_index p, p2_index p], s3)"
    "pt_wf s3 T" "mappable s3 T p" "table_at (pmem s3) T [p4_index p, p3_index p, p2_index p] \<noteq> None"
    "same_maps s2 T s3 \<and> still_mappable s2 T s3" "kept s2 T s3" "tlb_events s3 = tlb_events s2" "card (free_now s2) \<le> Suc (card (free_now s3))"
    by blast
  show ?thesis
    by (rule that [OF 1(1) 2(1) 3(1-4)])
      (use 1 2 3 in \<open>auto simp: same_maps_def still_mappable_def intro: kept_trans\<close>)
qed

text \<open>Writing the entry of a page in its last table.\<close>

lemma leaf_write:
  assumes wf: "pt_wf s T" and p4: "p4_index p \<noteq> 511"
    and t: "table_at (pmem s) T [p4_index p, p3_index p, p2_index p] = Some t"
    and s': "s' = poke t (p1_index p) v s"
  shows "pt_wf s' T" and "kept s T s'"
    and "page_map s' T p = (if bit v 0 then Some (entry_frame v, bit v 1) else None)"
    and "p4_index q \<noteq> 511 \<Longrightarrow> page_path q \<noteq> page_path p \<Longrightarrow> page_map s' T q = page_map s T q"
    and "table_at (pmem s') T [p4_index p, p3_index p, p2_index p] = Some t"
proof -
  let ?P = "[p4_index p, p3_index p, p2_index p]"
  note P = path_ok_page(3) [OF p4]
  have ok: "tables_ok (pmem s) T" using wf by (rule pt_wf_tables_ok)
  have same: "pmem s' h = pmem s h" if "path_ok js" "table_at (pmem s) T js = Some h" "length js < 3" for js h
    using tables_ok_inj [OF ok that(1) P that(2)] t that(3) s' by auto
  have at: "table_at (pmem s') T js = table_at (pmem s) T js" if "path_ok js" for js
  proof (rule table_at_cong)
    fix ks h assume ks: "strict_prefix ks js" "table_at (pmem s) T ks = Some h"
    then have "path_ok ks" "length ks < length js"
      using that path_ok_prefix prefix_length_less by (auto simp: strict_prefix_def)
    with same ks(2) that show "pmem s' h = pmem s h" by (simp add: path_ok_def)
  qed
  have wr: "path_writable (pmem s') T js" if "path_ok js" "table_at (pmem s) T js = Some h" for js h
  proof -
    have "path_writable (pmem s') T js = path_writable (pmem s) T js"
    proof (rule path_writable_cong [OF _ that(2)])
      fix ks k assume ks: "strict_prefix ks js" "table_at (pmem s) T ks = Some k"
      then have "path_ok ks" "length ks < length js"
        using that path_ok_prefix prefix_length_less by (auto simp: strict_prefix_def)
      with same ks(2) that show "pmem s' k = pmem s k" by (simp add: path_ok_def)
    qed
    with tables_ok_writable [OF ok that] show ?thesis by simp
  qed
  have frames: "table_frames (pmem s') T = table_frames (pmem s) T"
    using at by (auto simp: table_frames_def)
  have tf: "t \<in> table_frames (pmem s) T" using P t by (rule in_table_frames)
  have root: "t \<noteq> T" using tables_ok_inj [OF ok P, of "[]" t] t by auto
  then have rt: "t \<noteq> cr3_frame s" using wf tf by (auto simp: pt_wf_def)
  have "tables_ok (pmem s') T"
    unfolding tables_ok_def using at wr tables_ok_inj [OF ok] by metis
  with wf frames root rt show "pt_wf s' T"
    by (auto simp: pt_wf_def recursive_def alloc_apart_def s' split: option.splits)
  show "kept s T s'" unfolding kept_def using tf frames at by (auto simp: s' free_now_def)
  show at': "table_at (pmem s') T ?P = Some t" using at [OF P] t by simp
  show "page_map s' T p = (if bit v 0 then Some (entry_frame v, bit v 1) else None)"
    using page_walk_leaf [OF at'] wr [OF P t] by (simp add: page_map_def s')
  show "page_map s' T q = page_map s T q" if q: "p4_index q \<noteq> 511" "page_path q \<noteq> page_path p"
    unfolding page_map_def
  proof (rule page_walk_cong)
    fix n h assume n: "n < 4" and h: "table_at (pmem s) T (take n [p4_index q, p3_index q, p2_index q, p1_index q]) = Some h"
    have po: "path_ok (take n (page_path q))" using q(1) n by (rule path_ok_take)
    show "pmem s' h ([p4_index q, p3_index q, p2_index q, p1_index q] ! n)
        = pmem s h ([p4_index q, p3_index q, p2_index q, p1_index q] ! n)"
    proof (cases "h = t")
      case True
      with h t po P have eq: "take n (page_path q) = ?P"
        using tables_ok_inj [OF ok, of _ ?P t] by (simp add: page_path_def)
      then have "length (take n (page_path q)) = length ?P" by (rule arg_cong)
      with n have n3: "n = 3" by (simp add: page_path_def)
      with eq q(2) have "p1_index q \<noteq> p1_index p" by (auto simp: page_path_def numeral_3_eq_3)
      with True n3 show ?thesis by (simp add: s')
    qed (simp add: s')
  qed
qed


lemma leaf_write_mappable:
  assumes wf: "pt_wf s T" and p4: "p4_index p \<noteq> 511" "p4_index q \<noteq> 511"
    and t: "table_at (pmem s) T [p4_index p, p3_index p, p2_index p] = Some t"
    and ne: "page_path q \<noteq> page_path p" and m: "mappable s T q"
  shows "mappable (poke t (p1_index p) v s) T q"
proof -
  let ?P = "[p4_index p, p3_index p, p2_index p]"
  note P = path_ok_page(3) [OF p4(1)]
  have ok: "tables_ok (pmem s) T" using wf by (rule pt_wf_tables_ok)
  have at: "table_at (pmem (poke t (p1_index p) v s)) T js = table_at (pmem s) T js" if "path_ok js" for js
  proof (rule table_at_cong)
    fix ks h assume ks: "strict_prefix ks js" "table_at (pmem s) T ks = Some h"
    then have "path_ok ks" "length ks < length js"
      using that path_ok_prefix prefix_length_less by (auto simp: strict_prefix_def)
    moreover have "length js \<le> 3" using that by (simp add: path_ok_def)
    ultimately have "h \<noteq> t" using tables_ok_inj [OF ok _ P, of ks t] ks(2) t by auto
    then show "pmem (poke t (p1_index p) v s) h = pmem s h" by simp
  qed
  have same: "pmem (poke t (p1_index p) v s) h (page_path q ! n) = pmem s h (page_path q ! n)"
    if n: "n < 4" and h: "table_at (pmem s) T (take n (page_path q)) = Some h" for n h
  proof (cases "h = t")
    case True
    with h t have eq: "take n (page_path q) = ?P"
      using tables_ok_inj [OF ok path_ok_take [OF p4(2) n] P] by simp
    then have "length (take n (page_path q)) = length ?P" by (rule arg_cong)
    with n have n3: "n = 3" by (simp add: page_path_def)
    with eq ne have "p1_index q \<noteq> p1_index p" by (auto simp: page_path_def numeral_3_eq_3)
    with n3 show ?thesis by (simp add: page_path_def)
  qed simp
  have p3: "page_path q ! 3 = p1_index q" by (simp add: page_path_def)
  show ?thesis
    unfolding mappable_def
  proof (intro conjI allI impI)
    fix n h assume n: "n < (3 :: nat)" and "table_at (pmem (poke t (p1_index p) v s)) T (take n (page_path q)) = Some h"
    then have h: "table_at (pmem s) T (take n (page_path q)) = Some h"
      using at [OF path_ok_take [OF p4(2)]] by simp
    with m n have "\<not> bit (pmem s h (page_path q ! n)) 7" by (simp add: mappable_def)
    with same [OF _ h] n show "\<not> bit (pmem (poke t (p1_index p) v s) h (page_path q ! n)) 7" by simp
  next
    fix h assume "table_at (pmem (poke t (p1_index p) v s)) T (take 3 (page_path q)) = Some h"
    then have h: "table_at (pmem s) T (take 3 (page_path q)) = Some h"
      using at [OF path_ok_take [OF p4(2)]] by simp
    with m have "pmem s h (p1_index q) = 0" by (simp add: mappable_def)
    with same [OF _ h] p3 show "pmem (poke t (p1_index p) v s) h (p1_index q) = 0" by simp
  qed
qed

text \<open>The page is mapped by an entry of a last table, no huge page on the way.\<close>

definition small_mapped :: "vm \<Rightarrow> Frame \<Rightarrow> Page \<Rightarrow> bool" where
  "small_mapped s T p \<longleftrightarrow>
     (\<exists>t. table_at (pmem s) T [p4_index p, p3_index p, p2_index p] = Some t \<and> bit (pmem s t (p1_index p)) 0)"

lemma kept_small_mapped:
  assumes "kept s T s'" and "p4_index q \<noteq> 511" and "page_map s' T q = page_map s T q" and "small_mapped s T q"
  shows "small_mapped s' T q"
proof -
  from assms(4) obtain t where t: "table_at (pmem s) T [p4_index q, p3_index q, p2_index q] = Some t"
    and b: "bit (pmem s t (p1_index q)) 0" by (auto simp: small_mapped_def)
  have t': "table_at (pmem s') T [p4_index q, p3_index q, p2_index q] = Some t"
    using assms(1) path_ok_page(3) [OF assms(2)] t unfolding kept_def by blast
  have "page_map s T q \<noteq> None" using page_walk_leaf [OF t] b by (simp add: page_map_def)
  then have "bit (pmem s' t (p1_index q)) 0"
    using page_walk_leaf [OF t'] assms(3) by (auto simp: page_map_def split: if_splits)
  with t' show ?thesis by (auto simp: small_mapped_def)
qed

lemma map_to_ok:
  assumes wf: "pt_wf s T" and map: "mappable s T p" and p4: "p4_index p \<noteq> 511" and free: "3 \<le> card (free_now s)"
    and fr: "frame_ok frame" "flags_ok flags"
  shows "\<exists>s'. map_to p frame flags s = Inr (MapperFlush p, s') \<and> pt_wf s' T
     \<and> page_map s' T p = Some (frame, bit flags 1) \<and> small_mapped s' T p
     \<and> (\<forall>q. p4_index q \<noteq> 511 \<longrightarrow> page_path q \<noteq> page_path p \<longrightarrow>
          page_map s' T q = page_map s T q \<and> (mappable s T q \<longrightarrow> mappable s' T q))
     \<and> kept s T s' \<and> card (free_now s) \<le> card (free_now s') + 3 \<and> tlb_events s' = tlb_events s"
proof -
  obtain s1 s2 s3 where 1: "next_table_create P4 (p4_index p) s = Inr (table_address [p4_index p], s1)"
    and 2: "next_table_create (table_address [p4_index p]) (p3_index p) s1 = Inr (table_address [p4_index p, p3_index p], s2)"
    and 3: "next_table_create (table_address [p4_index p, p3_index p]) (p2_index p) s2
       = Inr (table_address [p4_index p, p3_index p, p2_index p], s3)"
    and wf3: "pt_wf s3 T" and map3: "mappable s3 T p" and at3: "table_at (pmem s3) T [p4_index p, p3_index p, p2_index p] \<noteq> None"
    and s3: "same_maps s T s3 \<and> still_mappable s T s3" "kept s T s3" "tlb_events s3 = tlb_events s" "card (free_now s) \<le> card (free_now s3) + 3"
    by (rule create_path [OF wf map p4 free])
  from at3 obtain t where t: "table_at (pmem s3) T [p4_index p, p3_index p, p2_index p] = Some t" by auto
  let ?e = "push_bit 12 (frame_number frame) OR (flags OR PRESENT)"
  let ?s = "poke t (p1_index p) ?e s3"
  note P = path_ok_page(3) [OF p4]
  have leaf: "pmem s3 t (p1_index p) = 0"
    using map3 t by (simp add: mappable_def page_path_def numeral_3_eq_3 del: table_at.simps)
  have e: "entry_frame ?e = frame" "bit ?e 0" "bit ?e 1 = bit flags 1"
    using made_entry(1) [OF fr(1) flags_ok_or [OF fr(2) flags_ok_consts(1)]] made_entry_bit [of 0 frame "flags OR PRESENT"] made_entry_bit [of 1 frame "flags OR PRESENT"]
    by (simp_all add: bit_or_iff bit_flag_consts del: One_nat_def)
  have "table_index s3 (table_address [p4_index p, p3_index p, p2_index p]) (p1_index p) = Inr 0"
    using table_index_phys [OF pt_wf_recursive [OF wf3] P t, of "p1_index p"] leaf by simp
  moreover have "table_index_mut (table_address [p4_index p, p3_index p, p2_index p]) (p1_index p) ?e s3 = Inr ?s"
    using table_index_mut_phys [OF pt_wf_recursive [OF wf3] P t] tables_ok_writable [OF pt_wf_tables_ok [OF wf3] P t]
    by simp
  ultimately have "map_to p frame flags s = Inr (MapperFlush p, ?s)"
    using 1 2 3 entry_set_ok [OF fr(1)] by (simp add: map_to_def entry_is_unused_def)
  moreover note leaf_write [OF wf3 p4 t, where s' = ?s and v = ?e, OF refl]
  moreover have "free_now ?s = free_now s3" by (simp add: free_now_def)
  ultimately show ?thesis
    using s3 e kept_trans [OF s3(2)] leaf_write_mappable [OF wf3 p4 _ t]
    by (intro exI [of _ ?s]) (auto simp: same_maps_def small_mapped_def still_mappable_def)
qed

section \<open>Translation\<close>

text \<open>
  The processor ignores the low bits of the frame of a huge page, the code asserts that they
  are zero.
\<close>

definition huge_aligned :: "memory \<Rightarrow> Frame \<Rightarrow> Page \<Rightarrow> bool" where
  "huge_aligned m T p \<longleftrightarrow>
     (\<forall>t. table_at m T [p4_index p] = Some t \<longrightarrow> bit (m t (p3_index p)) 0 \<longrightarrow> bit (m t (p3_index p)) 7 \<longrightarrow>
        take_bit 18 (frame_number (entry_frame (m t (p3_index p)))) = 0)
     \<and> (\<forall>t. table_at m T [p4_index p, p3_index p] = Some t \<longrightarrow> bit (m t (p2_index p)) 0 \<longrightarrow> bit (m t (p2_index p)) 7 \<longrightarrow>
        take_bit 9 (frame_number (entry_frame (m t (p2_index p)))) = 0)"

lemma aligned_or:
  assumes "take_bit k (n :: usize) = 0" and "\<And>b. bit l b \<Longrightarrow> b < k"
  shows "push_bit k (drop_bit k n) OR l = n + l"
proof -
  have z: "\<not> bit n b" if "b < k" for b
    using assms(1) that by (metis bit_0_eq bit_take_bit_iff bot_apply bot_bool_def)
  then have "k \<le> b" if "bit n b" for b using that by (meson not_le)
  then have "push_bit k (drop_bit k n) = n"
    by (intro bit_word_eqI) (auto simp: bit_simps)
  moreover have "n + l = n OR l"
    by (rule disjunctive_add) (use assms(2) z in blast)
  ultimately show ?thesis by simp
qed

lemma unat_index: "(i :: usize) < 512 \<Longrightarrow> unat i < 512"
  by (simp add: word_less_nat_alt)

lemma huge_offset:
  assumes "i < 512" "j < (512 :: usize)"
  shows "push_bit 9 i OR j = i * 512 + j"
proof -
  have "push_bit 9 i + j = push_bit 9 i OR j"
    by (rule disjunctive_add) (use assms in \<open>auto simp: bit_simps dest: index_bits\<close>)
  then show ?thesis by (simp add: push_bit_eq_mult)
qed

lemma frame_2MiB:
  assumes "frame_ok f" "take_bit 9 (frame_number f) = 0" "j < 512"
  shows "checked_add (frame_number f) j = Inr (push_bit 9 (drop_bit 9 (frame_number f)) OR j)"
    and "frame_number f mod 512 = 0"
proof -
  have "push_bit 9 (drop_bit 9 (frame_number f)) OR j = frame_number f + j"
    using assms(2) by (rule aligned_or) (use assms(3) index_bits in blast)
  then show "checked_add (frame_number f) j = Inr (push_bit 9 (drop_bit 9 (frame_number f)) OR j)"
    using assms(1,3) unat_index [of j] by (simp add: checked_add_def frame_ok_bound)
  show "frame_number f mod 512 = 0" using assms(2) by (simp add: take_bit_eq_mod)
qed

lemma frame_1GiB:
  assumes "frame_ok f" "take_bit 18 (frame_number f) = 0" "i < 512" "j < 512"
  shows "rbind (checked_mul i 512) (\<lambda>x. rbind (checked_add (frame_number f) x) (\<lambda>y. rbind (checked_add y j) k))
     = k (push_bit 18 (drop_bit 18 (frame_number f)) OR (push_bit 9 i OR j))"
    and "frame_number f mod 0x40000 = 0"
proof -
  have "push_bit 18 (drop_bit 18 (frame_number f)) OR (push_bit 9 i OR j) = frame_number f + (push_bit 9 i OR j)"
    using assms(2) by (rule aligned_or) (use assms(3,4) in \<open>auto simp: bit_simps dest: index_bits\<close>)
  also have "\<dots> = frame_number f + i * 512 + j" using huge_offset [OF assms(3,4)] by (simp add: add.assoc)
  finally have eq: "push_bit 18 (drop_bit 18 (frame_number f)) OR (push_bit 9 i OR j) = frame_number f + i * 512 + j" .
  have b: "unat i < 512" "unat j < 512" "unat (frame_number f) < 2 ^ 40"
    using unat_index assms(1,3,4) by (simp_all add: frame_ok_bound)
  have m: "unat (i * 512) = unat i * 512" using b(1) by (simp add: unat_mult_lem [THEN iffD1])
  moreover from b m have "unat (frame_number f + i * 512) = unat (frame_number f) + unat i * 512"
    by (subst unat_add_lem [THEN iffD1]) simp_all
  ultimately show "rbind (checked_mul i 512) (\<lambda>x. rbind (checked_add (frame_number f) x) (\<lambda>y. rbind (checked_add y j) k))
     = k (push_bit 18 (drop_bit 18 (frame_number f)) OR (push_bit 9 i OR j))"
    using b by (simp add: eq checked_mul_def checked_add_def)
  show "frame_number f mod 0x40000 = 0" using assms(2) by (simp add: take_bit_eq_mod)
qed


lemma translate_tables:
  assumes wf: "pt_wf s T" and p4: "p4_index p \<noteq> 511"
  shows "next_table s P4 (p4_index p) =
      Inr (if child (pmem s) T (p4_index p) = None then None else Some (table_address [p4_index p]))"
    and "child (pmem s) T (p4_index p) = Some t3 \<Longrightarrow> next_table s (table_address [p4_index p]) (p3_index p) =
      Inr (if child (pmem s) t3 (p3_index p) = None then None else Some (table_address [p4_index p, p3_index p]))"
    and "child (pmem s) T (p4_index p) = Some t3 \<Longrightarrow>
      table_index s (table_address [p4_index p]) (p3_index p) = Inr (pmem s t3 (p3_index p))"
    and "child (pmem s) T (p4_index p) = Some t3 \<Longrightarrow> child (pmem s) t3 (p3_index p) = Some t2 \<Longrightarrow>
      next_table s (table_address [p4_index p, p3_index p]) (p2_index p) =
      Inr (if child (pmem s) t2 (p2_index p) = None then None
           else Some (table_address [p4_index p, p3_index p, p2_index p]))"
    and "child (pmem s) T (p4_index p) = Some t3 \<Longrightarrow> child (pmem s) t3 (p3_index p) = Some t2 \<Longrightarrow>
      table_index s (table_address [p4_index p, p3_index p]) (p2_index p) = Inr (pmem s t2 (p2_index p))"
    and "child (pmem s) T (p4_index p) = Some t3 \<Longrightarrow> child (pmem s) t3 (p3_index p) = Some t2 \<Longrightarrow>
      child (pmem s) t2 (p2_index p) = Some t1 \<Longrightarrow>
      table_index s (table_address [p4_index p, p3_index p, p2_index p]) (p1_index p) = Inr (pmem s t1 (p1_index p))"
proof -
  note rec = pt_wf_recursive [OF wf] and paths = path_ok_page [OF p4]
  have at: "table_at (pmem s) T [a] = child (pmem s) T a"
    "table_at (pmem s) T [a, b] = Option.bind (child (pmem s) T a) (\<lambda>t. child (pmem s) t b)"
    "table_at (pmem s) T [a, b, c]
      = Option.bind (child (pmem s) T a) (\<lambda>t. Option.bind (child (pmem s) t b) (\<lambda>t. child (pmem s) t c))" for a b c
    using table_at_snoc [of "pmem s" T "[]" a] table_at_snoc [of "pmem s" T "[a]" b]
      table_at_snoc [of "pmem s" T "[a, b]" c] by simp_all
  show "next_table s P4 (p4_index p) =
      Inr (if child (pmem s) T (p4_index p) = None then None else Some (table_address [p4_index p]))"
    using next_table_address_phys [OF rec path_ok_Nil _ index_lt_512(1)]
    by (simp add: next_table_def table_address_simps(1))
  assume 3: "child (pmem s) T (p4_index p) = Some t3"
  then have at3: "table_at (pmem s) T [p4_index p] = Some t3" by (simp only: at)
  show "next_table s (table_address [p4_index p]) (p3_index p) =
      Inr (if child (pmem s) t3 (p3_index p) = None then None else Some (table_address [p4_index p, p3_index p]))"
    "table_index s (table_address [p4_index p]) (p3_index p) = Inr (pmem s t3 (p3_index p))"
    using next_table_address_phys [OF rec paths(1) at3 index_lt_512(2)] table_index_phys [OF rec paths(1) at3 index_lt_512(2)]
    by (simp_all add: next_table_def)
  assume 2: "child (pmem s) t3 (p3_index p) = Some t2"
  with 3 have at2: "table_at (pmem s) T [p4_index p, p3_index p] = Some t2" by (simp add: at del: table_at.simps)
  show "next_table s (table_address [p4_index p, p3_index p]) (p2_index p) =
      Inr (if child (pmem s) t2 (p2_index p) = None then None
           else Some (table_address [p4_index p, p3_index p, p2_index p]))"
    "table_index s (table_address [p4_index p, p3_index p]) (p2_index p) = Inr (pmem s t2 (p2_index p))"
    using next_table_address_phys [OF rec paths(2) at2 index_lt_512(3)] table_index_phys [OF rec paths(2) at2 index_lt_512(3)]
    by (simp_all add: next_table_def)
  assume 1: "child (pmem s) t2 (p2_index p) = Some t1"
  with 3 2 have at1: "table_at (pmem s) T [p4_index p, p3_index p, p2_index p] = Some t1" by (simp add: at del: table_at.simps)
  show "table_index s (table_address [p4_index p, p3_index p, p2_index p]) (p1_index p) = Inr (pmem s t1 (p1_index p))"
    by (rule table_index_phys [OF rec paths(3) at1 index_lt_512(4)])
qed

lemma translate_huge_2MiB:
  assumes wf: "pt_wf s T" and p4: "p4_index p \<noteq> 511"
    and t: "child (pmem s) T (p4_index p) = Some t3" "child (pmem s) t3 (p3_index p) = Some t2"
    and al: "bit (pmem s t2 (p2_index p)) 0 \<Longrightarrow> bit (pmem s t2 (p2_index p)) 7 \<Longrightarrow>
        take_bit 9 (frame_number (entry_frame (pmem s t2 (p2_index p)))) = 0"
  shows "translate_huge s p (table_address [p4_index p]) = Inr
     (if bit (pmem s t2 (p2_index p)) 0 \<and> bit (pmem s t2 (p2_index p)) 7
      then Some (huge_frame 9 (pmem s t2 (p2_index p)) (p1_index p)) else None)"
proof -
  note nt = translate_tables [OF wf p4]
  have "\<not> bit (pmem s t3 (p3_index p)) 7" using t(2) by (auto simp: child_def split: if_splits)
  then show ?thesis
    using nt(2) [OF t(1)] nt(3) [OF t(1)] nt(5) [OF t] t(2) al
      frame_2MiB [of "entry_frame (pmem s t2 (p2_index p))" "p1_index p"]
    by (simp add: translate_huge_def entry_flags_contains pointed_frame_eq ENTRY_COUNT_def huge_frame_def)
qed

lemma translate_huge_1GiB:
  assumes wf: "pt_wf s T" and p4: "p4_index p \<noteq> 511"
    and t: "child (pmem s) T (p4_index p) = Some t3" "child (pmem s) t3 (p3_index p) = None"
    and al: "bit (pmem s t3 (p3_index p)) 0 \<Longrightarrow> bit (pmem s t3 (p3_index p)) 7 \<Longrightarrow>
        take_bit 18 (frame_number (entry_frame (pmem s t3 (p3_index p)))) = 0"
  shows "translate_huge s p (table_address [p4_index p]) = Inr
     (if bit (pmem s t3 (p3_index p)) 0 \<and> bit (pmem s t3 (p3_index p)) 7
      then Some (huge_frame 18 (pmem s t3 (p3_index p)) (push_bit 9 (p2_index p) OR p1_index p)) else None)"
proof -
  note nt = translate_tables [OF wf p4]
  show ?thesis
    using nt(2) [OF t(1)] nt(3) [OF t(1)] t(2) al
      frame_1GiB(1) [of "entry_frame (pmem s t3 (p3_index p))" "p2_index p" "p1_index p" "\<lambda>n. Inr (Some (Frame n))"]
      frame_1GiB(2) [of "entry_frame (pmem s t3 (p3_index p))" "p2_index p" "p1_index p"]
    by (simp add: translate_huge_def entry_flags_contains pointed_frame_eq ENTRY_COUNT_def huge_frame_def)
qed

lemma translate_page_ok:
  assumes wf: "pt_wf s T" and p4: "p4_index p \<noteq> 511" and huge: "huge_aligned (pmem s) T p"
  shows "translate_page s p = Inr (map_option fst (page_map s T p))"
proof -
  note nt = translate_tables [OF wf p4]
  consider "child (pmem s) T (p4_index p) = None"
    | t3 where "child (pmem s) T (p4_index p) = Some t3" "child (pmem s) t3 (p3_index p) = None"
    | t3 t2 where "child (pmem s) T (p4_index p) = Some t3" "child (pmem s) t3 (p3_index p) = Some t2"
    by (metis option.exhaust)
  then show ?thesis
  proof cases
    case 1
    with nt(1) show ?thesis
      by (auto simp: translate_page_def page_map_def page_walk_def child_def Let_def split: if_splits)
  next
    case (2 t3)
    then have "huge_aligned (pmem s) T p \<Longrightarrow> bit (pmem s t3 (p3_index p)) 0 \<Longrightarrow> bit (pmem s t3 (p3_index p)) 7 \<Longrightarrow>
        take_bit 18 (frame_number (entry_frame (pmem s t3 (p3_index p)))) = 0"
      by (auto simp: huge_aligned_def child_def split: if_splits)
    note h = translate_huge_1GiB [OF wf p4 2 this [OF huge]]
    have "page_map s T p = (if bit (pmem s t3 (p3_index p)) 0 \<and> bit (pmem s t3 (p3_index p)) 7
      then Some (huge_frame 18 (pmem s t3 (p3_index p)) (push_bit 9 (p2_index p) OR p1_index p),
        bit (pmem s T (p4_index p)) 1 \<and> bit (pmem s t3 (p3_index p)) 1) else None)"
      using 2 by (auto simp: page_map_def page_walk_def child_def Let_def split: if_splits)
    with nt(1) nt(2) [OF 2(1)] 2 h show ?thesis by (simp add: translate_page_def)
  next
    case (3 t3 t2)
    then have "huge_aligned (pmem s) T p \<Longrightarrow> bit (pmem s t2 (p2_index p)) 0 \<Longrightarrow> bit (pmem s t2 (p2_index p)) 7 \<Longrightarrow>
        take_bit 9 (frame_number (entry_frame (pmem s t2 (p2_index p)))) = 0"
      by (auto simp: huge_aligned_def child_def split: if_splits)
    note h = translate_huge_2MiB [OF wf p4 3 this [OF huge]]
    show ?thesis
    proof (cases "child (pmem s) t2 (p2_index p)")
      case None
      then have "map_option fst (page_map s T p) = (if bit (pmem s t2 (p2_index p)) 0 \<and> bit (pmem s t2 (p2_index p)) 7
        then Some (huge_frame 9 (pmem s t2 (p2_index p)) (p1_index p)) else None)"
        using 3 by (auto simp: page_map_def page_walk_def child_def Let_def split: if_splits)
      with nt(1) nt(2) [OF 3(1)] nt(4) [OF 3] 3 h None show ?thesis by (simp add: translate_page_def)
    next
      case (Some t1)
      then have "map_option fst (page_map s T p) = pointed_frame (pmem s t1 (p1_index p))"
        and "\<not> bit (pmem s t2 (p2_index p)) 7"
        using 3 by (auto simp: page_map_def page_walk_def child_def Let_def pointed_frame_eq split: if_splits)
      with nt(1) nt(2) [OF 3(1)] nt(4) [OF 3] nt(6) [OF 3 Some] 3 h Some show ?thesis
        by (simp add: translate_page_def split: option.splits)
    qed
  qed
qed


text \<open>The page of an address, and the indices the processor takes from the address.\<close>

lemma mask_9: "(0x1ff :: usize) = mask 9"
  by (simp add: mask_eq_exp_minus_1)

lemma page_indices:
  "p4_index (Page (drop_bit 12 a)) = va_index 3 a" "p3_index (Page (drop_bit 12 a)) = va_index 2 a"
  "p2_index (Page (drop_bit 12 a)) = va_index 1 a" "p1_index (Page (drop_bit 12 a)) = va_index 0 a"
  unfolding p4_index_def p3_index_def p2_index_def p1_index_def va_index_def mask_9
  by (simp_all add: take_bit_eq_mask [symmetric] drop_bit_drop_bit)

lemma physical_address:
  assumes "frame_ok f"
  shows "rbind (checked_mul (frame_number f) PAGE_SIZE) (\<lambda>x. rbind (checked_add x (a mod PAGE_SIZE)) k)
     = k (frame_number f * PAGE_SIZE + a mod PAGE_SIZE)"
proof -
  have f: "unat (frame_number f) < 2 ^ 40" using assms by (simp add: frame_ok_bound)
  then have "unat (frame_number f * PAGE_SIZE) = unat (frame_number f) * 4096"
    by (simp add: PAGE_SIZE_def unat_mult_lem [THEN iffD1])
  moreover have "unat (a mod PAGE_SIZE) < 4096" by (simp add: PAGE_SIZE_def unat_mod)
  ultimately show ?thesis using f by (simp add: checked_mul_def checked_add_def PAGE_SIZE_def)
qed

lemma huge_frame_ok:
  assumes "\<And>n. bit l n \<Longrightarrow> n < k" and "k \<le> 40"
  shows "frame_ok (huge_frame k e l)"
  unfolding frame_ok_def huge_frame_def entry_frame_def
  by (rule bit_word_eqI) (use assms in \<open>fastforce simp: bit_simps\<close>)

lemma page_walk_frame_ok:
  assumes "page_walk m T a b c d = Some (f, w)" and "c < 512" "d < 512"
  shows "frame_ok f"
proof -
  have "bit (push_bit 9 c OR d) n \<Longrightarrow> n < 18" "bit d n \<Longrightarrow> n < 9" for n
    using assms(2,3) by (auto simp: bit_simps dest: index_bits)
  then show ?thesis
    using assms(1) by (auto simp: page_walk_def Let_def huge_frame_ok split: if_splits)
qed

lemma translate_ok:
  assumes "pt_wf s T" and "is_canonical va" and "va_index 3 va \<noteq> 511"
    and "huge_aligned (pmem s) T (Page (va div PAGE_SIZE))"
  shows "translate s (VirtualAddress va) = Inr (map_option
     (\<lambda>(f, _). PhysicalAddress (frame_number f * PAGE_SIZE + va mod PAGE_SIZE)) (page_map s T (Page (va div PAGE_SIZE))))"
proof -
  let ?p = "Page (va div PAGE_SIZE)"
  have "p4_index ?p \<noteq> 511" using assms(3) by (simp add: div_PAGE_SIZE page_indices)
  note t = translate_page_ok [OF assms(1) this assms(4)]
  show ?thesis
  proof (cases "page_map s T ?p")
    case None
    with t assms(2) show ?thesis by (simp add: translate_def page_containing_address_def)
  next
    case (Some fw)
    moreover obtain f w where "fw = (f, w)" by (cases fw)
    moreover have "frame_ok f"
      using calculation by (auto simp: page_map_def intro: page_walk_frame_ok)
    ultimately show ?thesis
      using t assms(2) physical_address [of f va "\<lambda>x. Inr (Some (PhysicalAddress x))"]
      by (simp add: translate_def page_containing_address_def)
  qed
qed

section \<open>Unmapping a page\<close>

text \<open>A page number the code can form: 52 bits, the start address canonical.\<close>

definition page_ok :: "Page \<Rightarrow> bool" where
  "page_ok p \<longleftrightarrow> unat (page_number p) < 2 ^ 52 \<and> is_canonical (push_bit 12 (page_number p))"

lemma page_start_ok: "page_ok p \<Longrightarrow> page_start_address p = Inr (VirtualAddress (push_bit 12 (page_number p)))"
  by (simp add: page_start_address_def mult_PAGE_SIZE page_ok_def)

lemma page_of_start: "page_ok p \<Longrightarrow> Page (push_bit 12 (page_number p) div PAGE_SIZE) = p"
proof -
  assume "page_ok p"
  then have "take_bit 52 (page_number p) = page_number p"
    by (simp add: page_ok_def word_unat_eq_iff unsigned_take_bit_eq take_bit_nat_eq_self_iff)
  then have "bit (page_number p) n \<Longrightarrow> n < 52" for n by (metis bit_take_bit_iff)
  then have "drop_bit 12 (push_bit 12 (page_number p)) = page_number p"
    by (intro bit_word_eqI) (fastforce simp: bit_simps)
  then show ?thesis by (simp add: div_PAGE_SIZE)
qed

lemma small_aligned: "table_at m T [p4_index p, p3_index p, p2_index p] = Some t \<Longrightarrow> huge_aligned m T p"
  by (auto simp: huge_aligned_def split: if_splits)

lemma unmap_ok:
  assumes wf: "pt_wf s T" and p4: "p4_index p \<noteq> 511" and pg: "page_ok p" and mapped: "small_mapped s T p"
  shows "\<exists>s'. unmap p s = Inr (MapperFlush p, s') \<and> pt_wf s' T \<and> page_map s' T p = None
     \<and> (\<forall>q. p4_index q \<noteq> 511 \<longrightarrow> page_path q \<noteq> page_path p \<longrightarrow>
          page_map s' T q = page_map s T q \<and> (mappable s T q \<longrightarrow> mappable s' T q))
     \<and> kept s T s' \<and> mappable s' T p \<and> free_now s' = free_now s
     \<and> tlb_events s' = tlb_events s @ [Invlpg (push_bit 12 (page_number p))]"
proof -
  from mapped obtain t where t: "table_at (pmem s) T [p4_index p, p3_index p, p2_index p] = Some t"
    and pres: "bit (pmem s t (p1_index p)) 0" by (auto simp: small_mapped_def)
  let ?a = "push_bit 12 (page_number p)" and ?s = "poke t (p1_index p) 0 s"
  have p: "Page (?a div PAGE_SIZE) = p" using pg by (rule page_of_start)
  then have va4: "va_index 3 ?a \<noteq> 511" using p4 page_indices(1) [of ?a] by (simp add: div_PAGE_SIZE)
  have map: "page_map s T p \<noteq> None"
    using page_walk_leaf [OF t] pres by (simp add: page_map_def)
  have tr: "\<exists>x. translate s (VirtualAddress ?a) = Inr (Some x)"
    using translate_ok [OF wf _ va4] small_aligned [OF t] p map pg by (auto simp: page_ok_def)
  from t obtain t3 t2 where c: "child (pmem s) T (p4_index p) = Some t3" "child (pmem s) t3 (p3_index p) = Some t2"
    "child (pmem s) t2 (p2_index p) = Some t"
    by (auto simp: child_def split: if_splits)
  note nt = translate_tables [OF wf p4]
  have wr: "table_index_mut (table_address [p4_index p, p3_index p, p2_index p]) (p1_index p) 0 s = Inr ?s"
    using table_index_mut_phys [OF pt_wf_recursive [OF wf] path_ok_page(3) [OF p4] t]
      tables_ok_writable [OF pt_wf_tables_ok [OF wf] path_ok_page(3) [OF p4] t] by simp
  have "unmap p s = Inr (MapperFlush p, tlb_record (Invlpg ?a) ?s)"
    using page_start_ok [OF pg] tr nt(1) nt(2) [OF c(1)] nt(4) [OF c(1,2)] nt(6) [OF c] c wr pres
    by (auto simp: unmap_def next_table_mut_def next_table_def pointed_frame_eq entry_set_unused_def)
  moreover note lw = leaf_write [OF wf p4 t, where s' = ?s and v = 0, OF refl]
  moreover have "pt_wf (tlb_record (Invlpg ?a) ?s) T" using lw(1) by (simp add: pt_wf_def split: option.splits)
  moreover have "kept s T (tlb_record (Invlpg ?a) ?s)" using lw(2) by (simp add: kept_def free_now_def)
  moreover have "mappable (tlb_record (Invlpg ?a) ?s) T q"
    if "p4_index q \<noteq> 511" "page_path q \<noteq> page_path p" "mappable s T q" for q
    using leaf_write_mappable [OF wf p4 that(1) t that(2,3), of 0] by (simp add: mappable_def)
  moreover have "mappable (tlb_record (Invlpg ?a) ?s) T p"
    using lw(5) by (intro mappable_leaf [of _ _ _ t]) simp_all
  ultimately show ?thesis
    by (intro exI [of _ "tlb_record (Invlpg ?a) ?s"]) (simp add: page_map_def free_now_def)
qed


section \<open>Mapping a mapped page\<close>

lemma next_table_create_there:
  assumes "pt_wf s T" and "path_ok is" and "table_at (pmem s) T is = Some f" and "i < 512"
  shows "child (pmem s) f i \<noteq> None \<Longrightarrow> next_table_create (table_address is) i s = Inr (table_address (is @ [i]), s)"
    and "bit (pmem s f i) 7 \<Longrightarrow> next_table_create (table_address is) i s
      = Inl (Assertion ''mapping code does not support huge pages'')"
proof -
  note nt = next_table_address_phys [OF pt_wf_recursive [OF assms(1)] assms(2-4)]
    and ti = table_index_phys [OF pt_wf_recursive [OF assms(1)] assms(2-4)]
  show "next_table_create (table_address is) i s = Inr (table_address (is @ [i]), s)" if "child (pmem s) f i \<noteq> None"
    using nt that by (simp add: next_table_create_def next_table_def next_table_mut_def)
  show "next_table_create (table_address is) i s = Inl (Assertion ''mapping code does not support huge pages'')"
    if "bit (pmem s f i) 7"
    using nt ti that by (simp add: next_table_create_def next_table_def child_def entry_flags_contains rassert_def)
qed

lemma map_to_mapped:
  assumes wf: "pt_wf s T" and p4: "p4_index p \<noteq> 511" and mapped: "page_map s T p \<noteq> None"
  shows "\<exists>msg. map_to p frame flags s = Inl (Assertion msg)"
proof -
  note P = path_ok_page [OF p4] and there = next_table_create_there [OF wf]
  from mapped obtain t3 where c3: "child (pmem s) T (p4_index p) = Some t3"
    by (auto simp: page_map_def page_walk_def child_def Let_def split: if_splits)
  then have at3: "table_at (pmem s) T [p4_index p] = Some t3" by (auto simp: child_def split: if_splits)
  have m4: "next_table_create P4 (p4_index p) s = Inr (table_address [p4_index p], s)"
    using there(1) [of "[]" T "p4_index p"] c3 by (simp add: table_address_simps(1))
  show ?thesis
  proof (cases "bit (pmem s t3 (p3_index p)) 7")
    case True
    with there(2) [OF P(1) at3] m4 show ?thesis by (simp add: map_to_def)
  next
    case False
    with mapped c3 obtain t2 where c2: "child (pmem s) t3 (p3_index p) = Some t2"
      by (auto simp: page_map_def page_walk_def child_def Let_def split: if_splits)
    with c3 have at2: "table_at (pmem s) T [p4_index p, p3_index p] = Some t2"
      by (auto simp: child_def split: if_splits)
    have m3: "next_table_create (table_address [p4_index p]) (p3_index p) s = Inr (table_address [p4_index p, p3_index p], s)"
      using there(1) [OF P(1) at3] c2 by simp
    show ?thesis
    proof (cases "bit (pmem s t2 (p2_index p)) 7")
      case True
      with there(2) [OF P(2) at2] m4 m3 show ?thesis by (simp add: map_to_def)
    next
      case False
      with mapped c3 c2 obtain t1 where c1: "child (pmem s) t2 (p2_index p) = Some t1"
        by (auto simp: page_map_def page_walk_def child_def Let_def split: if_splits)
      with c3 c2 have at1: "table_at (pmem s) T [p4_index p, p3_index p, p2_index p] = Some t1"
        by (auto simp: child_def split: if_splits)
      have m2: "next_table_create (table_address [p4_index p, p3_index p]) (p2_index p) s
          = Inr (table_address [p4_index p, p3_index p, p2_index p], s)"
        using there(1) [OF P(2) at2] c1 by simp
      have "pmem s t1 (p1_index p) \<noteq> 0"
        using mapped page_walk_leaf [OF at1] by (auto simp: page_map_def)
      with m4 m3 m2 table_index_phys [OF pt_wf_recursive [OF wf] P(3) at1] show ?thesis
        by (simp add: map_to_def entry_is_unused_def rassert_def)
    qed
  qed
qed

section \<open>An example machine\<close>

text \<open>The top table in frame 9 with only its recursive entry, the frames from \<open>0x10\<close> on free.\<close>

definition example_vm :: vm where
  "example_vm = \<lparr>pmem = (\<lambda>f i. if f = Frame 9 \<and> i = 511 then table_entry (Frame 9) else 0),
     cr3 = 0x9000, ALLOCATOR = Some (example_allocator 0x10), tlb_events = []\<rparr>"

lemma example_cr3: "cr3_frame example_vm = Frame 9"
  by (simp add: cr3_frame_def example_vm_def)

lemma example_table_at:
  assumes "path_ok is" and "table_at (pmem example_vm) (Frame 9) is = Some f"
  shows "is = []"
  using assms by (cases "is") (auto simp: example_vm_def path_ok_def split: if_splits)

lemma frame_ok_9: "frame_ok (Frame 9)"
  by (simp add: frame_ok_bound)

lemma example_free:
  assumes "f \<in> free_set (example_allocator 0x10)"
  shows "frame_ok f \<and> f \<noteq> Frame 9"
proof (cases f)
  case (Frame n)
  with assms show ?thesis
    by (auto simp: free_set_def example_allocator_def example_areas_def in_area_def last_frame_def frame_ok_bound
        frame_containing_address_def PAGE_SIZE_def word_le_nat_alt)
qed

lemma example_table_frames: "table_frames (pmem example_vm) (Frame 9) = {Frame 9}"
proof -
  have "f = Frame 9" if "path_ok is" "table_at (pmem example_vm) (Frame 9) is = Some f" for "is" f
    using example_table_at [OF that] that(2) by simp
  moreover have "Frame 9 \<in> table_frames (pmem example_vm) (Frame 9)"
    by (rule in_table_frames [OF path_ok_Nil]) simp
  ultimately show ?thesis by (auto simp: table_frames_def)
qed

lemma example_pt_wf_alloc:
  assumes "alloc_wf a" and "\<forall>f \<in> free_set a. frame_ok f \<and> f \<noteq> Frame 9"
  shows "pt_wf (example_vm\<lparr>ALLOCATOR := Some a\<rparr>) (Frame 9)"
proof -
  have "recursive (pmem example_vm) (Frame 9) (Frame 9)"
    using table_entry_bits [OF frame_ok_9] by (simp add: recursive_def recursive_entry_def example_vm_def)
  moreover have "tables_ok (pmem example_vm) (Frame 9)"
    unfolding tables_ok_def using example_table_at by (metis path_writable.simps(1))
  moreover have "cr3_frame (example_vm\<lparr>ALLOCATOR := Some a\<rparr>) = Frame 9" using example_cr3 by (simp add: cr3_frame_def)
  ultimately show ?thesis
    using example_table_frames assms by (simp add: pt_wf_def alloc_apart_def)
qed

lemma example_pt_wf: "pt_wf example_vm (Frame 9)"
proof -
  have "example_vm\<lparr>ALLOCATOR := Some (example_allocator 0x10)\<rparr> = example_vm" by (simp add: example_vm_def)
  with example_pt_wf_alloc [OF example_wf] example_free show ?thesis by metis
qed

lemma example_card: "3 \<le> card (free_now example_vm)"
proof -
  have "{Frame 0x10, Frame 0x11, Frame 0x12} \<subseteq> free_now example_vm"
    by (simp add: free_now_def example_vm_def free_set_def example_allocator_def example_areas_def in_area_def
        last_frame_def area_first_frame_def frame_containing_address_def PAGE_SIZE_def reserved_def)
  then have "card {Frame 0x10, Frame 0x11, Frame 0x12} \<le> card (free_now example_vm)"
    by (rule card_mono [rotated]) simp
  then show ?thesis by simp
qed

lemma example_mappable:
  assumes "p4_index p \<noteq> 511"
  shows "mappable example_vm (Frame 9) p"
proof -
  have none: "table_at (pmem example_vm) (Frame 9) (take n (page_path p)) \<noteq> Some t" if "0 < n" "n < 4" for n t
    using example_table_at [OF path_ok_take [OF assms that(2)], of t] that(1) by (auto simp: page_path_def)
  moreover have "pmem example_vm (Frame 9) (p4_index p) = 0" using assms by (simp add: example_vm_def)
  ultimately show ?thesis
    unfolding mappable_def using none [of 3] by (auto simp: page_path_def gr0_conv_Suc take_Cons' nth_Cons')
qed

section \<open>Properties\<close>

text \<open>
  C1. Mapping a page of the lower half or any page outside the recursive slot: when no huge page
  is on the way, the page is not mapped yet and three frames are free, \<^verbatim>\<open>map_to\<close> returns (no
  assertion, page fault or overflow on the way), the invariant of the tables is kept, the
  processor's walk takes the page to the given frame, writable exactly when the flags say so,
  the translation of every other page is unchanged, no frame but the tables and the free frames
  is written, and at most three free frames are used up.
\<close>

theorem map_to_maps:
  assumes "pt_wf s T" and "mappable s T p" and "p4_index p \<noteq> 511" and "3 \<le> card (free_now s)"
    and "frame_ok frame" and "flags_ok flags"
  shows "\<exists>s'. map_to p frame flags s = Inr (MapperFlush p, s') \<and> pt_wf s' T
     \<and> page_map s' T p = Some (frame, bit flags 1) \<and> small_mapped s' T p
     \<and> (\<forall>q. p4_index q \<noteq> 511 \<longrightarrow> page_path q \<noteq> page_path p \<longrightarrow>
          page_map s' T q = page_map s T q \<and> (mappable s T q \<longrightarrow> mappable s' T q))
     \<and> kept s T s' \<and> card (free_now s) \<le> card (free_now s') + 3 \<and> tlb_events s' = tlb_events s"
  using assms by (rule map_to_ok)

theorem map_to_maps_witness:
  "\<exists>s'. map_to (Page 0x1234) (Frame 0x42) WRITABLE example_vm = Inr (MapperFlush (Page 0x1234), s')
     \<and> page_map s' (Frame 9) (Page 0x1234) = Some (Frame 0x42, True)"
proof -
  have "p4_index (Page 0x1234) \<noteq> 511" by (simp add: p4_index_def)
  from map_to_maps [OF example_pt_wf example_mappable [OF this] this example_card, of "Frame 0x42" WRITABLE]
  show ?thesis by (auto simp: frame_ok_bound bit_flag_consts)
qed

text \<open>
  C22. Mapping never replaces a mapping: on a page the tables already translate, by a small or a
  huge page, \<^verbatim>\<open>map_to\<close> fails an assertion.
\<close>

theorem map_to_mapped_panics:
  assumes "pt_wf s T" and "p4_index p \<noteq> 511" and "page_map s T p \<noteq> None"
  shows "\<exists>msg. map_to p frame flags s = Inl (Assertion msg)"
  using assms by (rule map_to_mapped)

theorem map_to_mapped_panics_witness:
  "\<exists>s' msg. map_to (Page 0x1234) (Frame 0x42) 0 example_vm = Inr (MapperFlush (Page 0x1234), s')
     \<and> map_to (Page 0x1234) (Frame 0x43) 0 s' = Inl (Assertion msg)"
proof -
  have p4: "p4_index (Page 0x1234) \<noteq> 511" by (simp add: p4_index_def)
  from map_to_ok [OF example_pt_wf example_mappable [OF p4] p4 example_card, of "Frame 0x42" 0]
  obtain s' where s': "map_to (Page 0x1234) (Frame 0x42) 0 example_vm = Inr (MapperFlush (Page 0x1234), s')"
    "pt_wf s' (Frame 9)" "page_map s' (Frame 9) (Page 0x1234) \<noteq> None"
    by (auto simp: frame_ok_bound)
  with map_to_mapped_panics [OF s'(2) p4 s'(3), of "Frame 0x43" 0] show ?thesis by auto
qed

text \<open>
  C2. Unmapping a page that a last table maps returns, removes the translation of that page and
  of no other, keeps the invariant, leaves the page ready to be mapped again, and flushes the
  page's address from the TLB.
\<close>

theorem unmap_unmaps:
  assumes "pt_wf s T" and "p4_index p \<noteq> 511" and "page_ok p" and "small_mapped s T p"
  shows "\<exists>s'. unmap p s = Inr (MapperFlush p, s') \<and> pt_wf s' T \<and> page_map s' T p = None
     \<and> (\<forall>q. p4_index q \<noteq> 511 \<longrightarrow> page_path q \<noteq> page_path p \<longrightarrow>
          page_map s' T q = page_map s T q \<and> (mappable s T q \<longrightarrow> mappable s' T q))
     \<and> kept s T s' \<and> mappable s' T p \<and> free_now s' = free_now s
     \<and> tlb_events s' = tlb_events s @ [Invlpg (push_bit 12 (page_number p))]"
  using assms by (rule unmap_ok)

theorem unmap_unmaps_witness:
  "\<exists>s' s''. map_to (Page 0x1234) (Frame 0x42) 0 example_vm = Inr (MapperFlush (Page 0x1234), s')
     \<and> unmap (Page 0x1234) s' = Inr (MapperFlush (Page 0x1234), s'')
     \<and> page_map s'' (Frame 9) (Page 0x1234) = None \<and> tlb_events s'' = [Invlpg 0x1234000]"
proof -
  have p4: "p4_index (Page 0x1234) \<noteq> 511" by (simp add: p4_index_def)
  from map_to_ok [OF example_pt_wf example_mappable [OF p4] p4 example_card, of "Frame 0x42" 0]
  obtain s' where s': "map_to (Page 0x1234) (Frame 0x42) 0 example_vm = Inr (MapperFlush (Page 0x1234), s')"
    "pt_wf s' (Frame 9)" "small_mapped s' (Frame 9) (Page 0x1234)" "tlb_events s' = tlb_events example_vm"
    by (auto simp: frame_ok_bound)
  have "page_ok (Page 0x1234)" by (simp add: page_ok_def is_canonical_def)
  from unmap_unmaps [OF s'(2) p4 this s'(3)] s' show ?thesis
    by (auto simp: example_vm_def)
qed

text \<open>
  C3. The software translation agrees with the processor: for an address outside the recursive
  slot, \<^verbatim>\<open>Mapper::translate\<close> returns the physical address the MMU reaches, and \<^verbatim>\<open>None\<close> exactly
  when the MMU faults, provided the frames of huge pages are aligned.
\<close>

theorem translate_agrees_with_mmu:
  assumes "pt_wf s (cr3_frame s)" and "is_canonical va" and "va_index 3 va \<noteq> 511"
    and "huge_aligned (pmem s) (cr3_frame s) (Page (va div PAGE_SIZE))"
  shows "translate s (VirtualAddress va) = Inr (map_option
     (\<lambda>(f, _). PhysicalAddress (frame_number f * PAGE_SIZE + va mod PAGE_SIZE)) (mmu s va))"
  using translate_ok [OF assms] assms(2) by (simp add: page_map_def mmu_def div_PAGE_SIZE page_indices)

theorem translate_agrees_with_mmu_witness:
  "translate example_vm (VirtualAddress 0x1234567) = Inr (map_option
     (\<lambda>(f, _). PhysicalAddress (frame_number f * PAGE_SIZE + 0x1234567 mod PAGE_SIZE)) (mmu example_vm 0x1234567))"
proof (rule translate_agrees_with_mmu)
  show "pt_wf example_vm (cr3_frame example_vm)" by (simp add: example_cr3 example_pt_wf)
  show "huge_aligned (pmem example_vm) (cr3_frame example_vm) (Page (0x1234567 div PAGE_SIZE))"
    by (simp add: example_cr3 huge_aligned_def example_vm_def p4_index_def PAGE_SIZE_def)
qed (simp_all add: is_canonical_def va_index_def)

end
