(* ===== verification/Active_Correct.thy ===== *)
theory Active_Correct
  imports Active_Table Mapper_Correct
begin

text \<open>
  Correctness of the temporary page, of \<^verbatim>\<open>InactivePageTable::new\<close> and of
  \<^verbatim>\<open>ActivePageTable::with\<close>: a frame mapped at the temporary page is edited through it, a new
  table is created empty but for its recursive entry, and inside \<^verbatim>\<open>with\<close> the mapper works on the
  tables of the inactive table while the active ones stay as they were.
\<close>

section \<open>Table trees that agree\<close>

text \<open>Two memories with the same tables below \<open>T\<close>, up to the recursive entry of \<open>T\<close> itself.\<close>

definition agree :: "memory \<Rightarrow> memory \<Rightarrow> Frame \<Rightarrow> bool" where
  "agree m m' T \<longleftrightarrow> (\<forall>f \<in> table_frames m T. \<forall>j. \<not> (f = T \<and> j = 511) \<longrightarrow> m' f j = m f j)"

lemma agree_entry:
  assumes "tables_ok m T" and "agree m m' T" and "path_ok (js @ [j])" and "table_at m T js = Some f"
  shows "m' f j = m f j"
proof -
  have js: "path_ok js" using path_ok_snocD [OF assms(3)] by simp
  have "\<not> (f = T \<and> j = 511)"
    using tables_ok_inj [OF assms(1) js path_ok_Nil] assms(3,4) by (auto simp: path_ok_def)
  then show ?thesis using assms(2) in_table_frames [OF js assms(4)] by (auto simp: agree_def)
qed

lemma agree_table_at:
  assumes "tables_ok m T" and "agree m m' T" and "path_ok js"
  shows "table_at m' T js = table_at m T js"
  using assms(3)
proof (induction js rule: rev_induct)
  case (snoc j js)
  have IH: "table_at m' T js = table_at m T js" using snoc.IH path_ok_snocD [OF snoc.prems] by simp
  show ?case
  proof (cases "table_at m T js")
    case (Some f)
    with agree_entry [OF assms(1,2) snoc.prems Some] IH show ?thesis by (simp add: table_at_snoc child_def)
  qed (simp add: IH table_at_snoc)
qed simp

lemma agree_writable:
  assumes "tables_ok m T" and "agree m m' T" and "path_ok js" and "table_at m T js = Some f"
  shows "path_writable m' T js"
  using assms(3,4)
proof (induction js arbitrary: f rule: rev_induct)
  case (snoc j js)
  have js: "path_ok js" using path_ok_snocD [OF snoc.prems(1)] by simp
  from snoc.prems(2) obtain h where h: "table_at m T js = Some h" by (auto simp: table_at_snoc bind_eq_Some_conv)
  have "bit (m h j) 1"
    using tables_ok_writable [OF assms(1) snoc.prems] h by (simp add: path_writable_snoc)
  with snoc.IH [OF js h] agree_entry [OF assms(1,2) snoc.prems(1) h] agree_table_at [OF assms(1,2) js] h
  show ?case by (simp add: path_writable_snoc)
qed simp

lemma agree_frames:
  assumes "tables_ok m T" and "agree m m' T"
  shows "table_frames m' T = table_frames m T"
  unfolding table_frames_def using agree_table_at [OF assms] by auto

lemma agree_tables_ok:
  assumes "tables_ok m T" and "agree m m' T"
  shows "tables_ok m' T"
  unfolding tables_ok_def
  using agree_table_at [OF assms] agree_writable [OF assms] tables_ok_inj [OF assms(1)] by metis

lemma agree_page_walk:
  assumes "tables_ok m T" and "agree m m' T" and "p4_index p \<noteq> 511"
  shows "page_walk m' T (p4_index p) (p3_index p) (p2_index p) (p1_index p)
       = page_walk m T (p4_index p) (p3_index p) (p2_index p) (p1_index p)"
proof (rule page_walk_cong)
  fix n t
  assume n: "n < 4" and t: "table_at m T (take n [p4_index p, p3_index p, p2_index p, p1_index p]) = Some t"
  let ?q = "[p4_index p, p3_index p, p2_index p, p1_index p]"
  have po: "path_ok (take n ?q)" using path_ok_take [OF assms(3) n] by (simp add: page_path_def)
  have "\<not> (t = T \<and> ?q ! n = 511)"
  proof
    assume a: "t = T \<and> ?q ! n = 511"
    then have "take n ?q = []"
      using tables_ok_inj [OF assms(1) po path_ok_Nil] t by auto
    then have "n = 0" by simp
    with a assms(3) show False by simp
  qed
  with assms(2) in_table_frames [OF po t] show "m' t (?q ! n) = m t (?q ! n)" by (auto simp: agree_def)
qed

lemma agree_refl [simp]: "agree m m T"
  by (simp add: agree_def)

lemma agree_trans:
  assumes "tables_ok m T" and "agree m m' T" and "agree m' m'' T"
  shows "agree m m'' T"
  using agree_frames [OF assms(1,2)] assms(2,3) by (auto simp: agree_def)

lemma agree_outside: "\<forall>f \<in> table_frames m T. m' f = m f \<Longrightarrow> agree m m' T"
  by (auto simp: agree_def)

lemma root_in_frames: "T \<in> table_frames m T"
  by (rule in_table_frames [OF path_ok_Nil]) simp

section \<open>Access through a mapped page\<close>

lemma canonical_page:
  "is_canonical a \<longleftrightarrow> drop_bit 12 a < 0x800000000 \<or> 0xffff800000000 \<le> drop_bit 12 a"
proof -
  have "unat a div 4096 < 0x800000000 \<longleftrightarrow> unat a < 0x800000000000"
    and "0xffff800000000 \<le> unat a div 4096 \<longleftrightarrow> 0xffff800000000000 \<le> unat a" by arith+
  moreover have "unat (drop_bit 12 a) = unat a div 4096"
    by (simp add: unat_drop_bit_eq) (simp add: drop_bit_eq_div)
  ultimately show ?thesis
    by (simp add: is_canonical_def word_less_nat_alt word_le_nat_alt)
qed

lemma drop_12_entry:
  assumes "page_aligned t" and "j < 512"
  shows "drop_bit 12 (entry_address t j) = drop_bit 12 t"
  unfolding entry_address_or [OF assms]
  by (rule bit_word_eqI) (use assms in \<open>auto simp: bit_simps dest: index_bits\<close>)

lemma page_aligned_push: "page_aligned (push_bit 12 n)"
  unfolding page_aligned_def by (rule bit_word_eqI) (simp add: bit_simps)

lemma mmu_page:
  assumes "page_ok p" and "j < 512"
  shows "mmu s (entry_address (push_bit 12 (page_number p)) j) = page_map s (cr3_frame s) p"
proof -
  let ?a = "push_bit 12 (page_number p)"
  have p: "Page (drop_bit 12 ?a) = p" using page_of_start [OF assms(1)] by (simp add: div_PAGE_SIZE)
  have "is_canonical (entry_address ?a j)"
    using assms(1) canonical_page [of "entry_address ?a j"] canonical_page [of ?a]
    by (simp only: drop_12_entry [OF page_aligned_push assms(2)] page_ok_def)
  then show ?thesis
    using page_indices [of ?a] va_index_entry [OF page_aligned_push assms(2)]
    by (simp add: mmu_def page_map_def p)
qed

lemma page_table_index:
  assumes "page_ok p" and "j < 512" and "page_map s (cr3_frame s) p = Some (f, w)"
  shows "table_index s (push_bit 12 (page_number p)) j = Inr (pmem s f j)"
  using assms
  by (simp add: table_index_def ENTRY_COUNT_def vm_read_def mmu_page word_in_page_entry page_aligned_push)

lemma page_table_index_mut:
  assumes "page_ok p" and "j < 512" and "page_map s (cr3_frame s) p = Some (f, True)"
  shows "table_index_mut (push_bit 12 (page_number p)) j v s = Inr (poke f j v s)"
  using assms
  by (simp add: table_index_mut_def ENTRY_COUNT_def vm_write_def mmu_page word_in_page_entry page_aligned_push)

text \<open>Writing a frame that is no table keeps every translation.\<close>

lemma agree_poke: "g \<notin> table_frames (pmem s) T \<Longrightarrow> agree (pmem s) (pmem (poke g j v s)) T"
  by (auto simp: agree_def)

lemma page_map_agree:
  assumes "tables_ok (pmem s) T" and "agree (pmem s) (pmem s') T" and "p4_index q \<noteq> 511"
  shows "page_map s' T q = page_map s T q"
  using agree_page_walk [OF assms] by (simp add: page_map_def)

lemma zero_page_entries:
  assumes "page_ok p" and "p4_index p \<noteq> 511" and "\<forall>j \<in> set xs. j < 512"
    and "tables_ok (pmem s) (cr3_frame s)" and "g \<notin> table_frames (pmem s) (cr3_frame s)"
    and "page_map s (cr3_frame s) p = Some (g, True)"
  shows "rfold (\<lambda>i s. rbind (table_index s (push_bit 12 (page_number p)) i)
            (\<lambda>e. table_index_mut (push_bit 12 (page_number p)) i (entry_set_unused e) s)) xs s
     = Inr (s\<lparr>pmem := (pmem s)(g := (\<lambda>j. if j \<in> set xs then 0 else pmem s g j))\<rparr>)"
  using assms(3-6)
proof (induction xs arbitrary: s)
  case (Cons x xs)
  let ?s = "poke g x 0 s"
  have ag: "agree (pmem s) (pmem ?s) (cr3_frame s)" using Cons.prems(3) by (rule agree_poke)
  note ok = agree_tables_ok [OF Cons.prems(2) ag] agree_frames [OF Cons.prems(2) ag]
    page_map_agree [OF Cons.prems(2) ag assms(2)]
  have "rbind (table_index s (push_bit 12 (page_number p)) x)
      (\<lambda>e. table_index_mut (push_bit 12 (page_number p)) x (entry_set_unused e) s) = Inr ?s"
    using Cons.prems page_table_index [OF assms(1)] page_table_index_mut [OF assms(1)]
    by (simp add: entry_set_unused_def)
  moreover have "(\<lambda>j. if j \<in> set xs then 0 else pmem ?s g j) = (\<lambda>j. if j \<in> set (x # xs) then 0 else pmem s g j)"
    by (auto simp: fun_eq_iff)
  moreover have "rfold (\<lambda>i s. rbind (table_index s (push_bit 12 (page_number p)) i)
            (\<lambda>e. table_index_mut (push_bit 12 (page_number p)) i (entry_set_unused e) s)) xs ?s
     = Inr (?s\<lparr>pmem := (pmem ?s)(g := (\<lambda>j. if j \<in> set xs then 0 else pmem ?s g j))\<rparr>)"
    by (rule Cons.IH [of ?s]) (use Cons.prems ok in \<open>simp_all add: fun_upd_def\<close>)
  ultimately show ?case by (simp add: poke_def fun_upd_def cong: if_cong)
qed (simp add: fun_upd_def)

lemma page_table_zero:
  assumes "page_ok p" and "p4_index p \<noteq> 511"
    and "tables_ok (pmem s) (cr3_frame s)" and "g \<notin> table_frames (pmem s) (cr3_frame s)"
    and "page_map s (cr3_frame s) p = Some (g, True)"
  shows "table_zero (push_bit 12 (page_number p)) s = Inr (s\<lparr>pmem := zeroed (pmem s) g\<rparr>)"
proof -
  have le: "j \<le> 511 \<longleftrightarrow> j < (512 :: usize)" for j
    unfolding word_le_nat_alt word_less_nat_alt by simp arith
  with zero_page_entries [OF assms(1,2) _ assms(3-5), of "word_range 0 511"] show ?thesis
    by (simp add: table_zero_def zeroed_def)
qed


section \<open>The temporary page\<close>

lemma mappable_unmapped:
  assumes "mappable s T p"
  shows "page_map s T p = None" and "huge_aligned (pmem s) T p"
proof -
  have "(\<forall>n < 3. P n) \<longleftrightarrow> P 0 \<and> P 1 \<and> P (2 :: nat)" for P
    by (metis less_Suc0 less_Suc_eq numeral_2_eq_2 numeral_3_eq_3 One_nat_def)
  note m = assms [unfolded mappable_def this]
  show "page_map s T p = None"
    using m by (auto simp: page_map_def page_walk_def Let_def page_path_def numeral_3_eq_3 numeral_2_eq_2)
  show "huge_aligned (pmem s) T p"
    using m by (auto simp: huge_aligned_def page_path_def numeral_2_eq_2)
qed

text \<open>The temporary page is ready: it can be mapped in the active table.\<close>

definition tp_ready :: "TemporaryPage \<Rightarrow> vm \<Rightarrow> bool" where
  "tp_ready tp s \<longleftrightarrow> page_ok (tp_page tp) \<and> p4_index (tp_page tp) \<noteq> 511
     \<and> mappable s (cr3_frame s) (tp_page tp) \<and> 3 \<le> card (free_now s)"

lemma mapper_flush_ok:
  "page_ok p \<Longrightarrow> mapper_flush (MapperFlush p) s = Inr (tlb_record (Invlpg (push_bit 12 (page_number p))) s)"
  by (simp add: active_table_flush_def page_start_ok)

lemma pt_wf_tlb [simp]: "pt_wf (tlb_record ev s) T = pt_wf s T"
  by (simp add: pt_wf_def split: option.splits)

lemma tlb_same [simp]:
  "kept s T (tlb_record ev s') = kept s T s'" "page_map (tlb_record ev s) T q = page_map s T q"
  "small_mapped (tlb_record ev s) T q = small_mapped s T q" "mappable (tlb_record ev s) T q = mappable s T q"
  "free_now (tlb_record ev s) = free_now s"
  by (simp_all add: kept_def free_now_def page_map_def small_mapped_def mappable_def)

lemma kept_cr3: "kept s T s' \<Longrightarrow> cr3_frame s' = cr3_frame s"
  by (simp add: kept_def cr3_frame_def)

lemma map_table_frame_ok:
  assumes wf: "pt_wf s (cr3_frame s)" and tp: "tp_ready tp s" and fr: "frame_ok frame"
  shows "\<exists>s'. map_table_frame tp frame s = Inr (push_bit 12 (page_number (tp_page tp)), s')
     \<and> pt_wf s' (cr3_frame s) \<and> cr3_frame s' = cr3_frame s
     \<and> page_map s' (cr3_frame s) (tp_page tp) = Some (frame, True) \<and> small_mapped s' (cr3_frame s) (tp_page tp)
     \<and> (\<forall>q. p4_index q \<noteq> 511 \<longrightarrow> page_path q \<noteq> page_path (tp_page tp) \<longrightarrow>
          page_map s' (cr3_frame s) q = page_map s (cr3_frame s) q)
     \<and> kept s (cr3_frame s) s' \<and> card (free_now s) \<le> card (free_now s') + 3"
proof -
  let ?p = "tp_page tp" and ?r = "cr3_frame s"
  have p: "page_ok ?p" "p4_index ?p \<noteq> 511" "mappable s ?r ?p" "3 \<le> card (free_now s)"
    using tp by (simp_all add: tp_ready_def)
  have "translate_page s ?p = Inr None"
    using translate_page_ok [OF wf p(2) mappable_unmapped(2) [OF p(3)]] mappable_unmapped(1) [OF p(3)] by simp
  moreover obtain s' where "map_to ?p frame WRITABLE s = Inr (MapperFlush ?p, s')" and "pt_wf s' ?r"
    "page_map s' ?r ?p = Some (frame, bit WRITABLE 1)" "small_mapped s' ?r ?p"
    "\<forall>q. p4_index q \<noteq> 511 \<longrightarrow> page_path q \<noteq> page_path ?p \<longrightarrow> page_map s' ?r q = page_map s ?r q"
    "kept s ?r s'" "card (free_now s) \<le> card (free_now s') + 3"
    using map_to_ok [OF wf p(3,2,4) fr flags_ok_consts(2)] by blast
  ultimately show ?thesis
    using page_start_ok [OF p(1)] mapper_flush_ok [OF p(1)] kept_cr3 [of s ?r s']
    by (intro exI [of _ "tlb_record (Invlpg (push_bit 12 (page_number ?p))) s'"])
      (simp add: map_table_frame_def temporary_page_map_def bit_flag_consts del: One_nat_def mapper_flush.simps)
qed

lemma temporary_page_unmap_ok:
  assumes wf: "pt_wf s (cr3_frame s)" and p: "page_ok (tp_page tp)" "p4_index (tp_page tp) \<noteq> 511"
    and m: "small_mapped s (cr3_frame s) (tp_page tp)"
  shows "\<exists>s'. temporary_page_unmap tp s = Inr s' \<and> pt_wf s' (cr3_frame s) \<and> cr3_frame s' = cr3_frame s
     \<and> page_map s' (cr3_frame s) (tp_page tp) = None \<and> mappable s' (cr3_frame s) (tp_page tp)
     \<and> (\<forall>q. p4_index q \<noteq> 511 \<longrightarrow> page_path q \<noteq> page_path (tp_page tp) \<longrightarrow>
          page_map s' (cr3_frame s) q = page_map s (cr3_frame s) q)
     \<and> kept s (cr3_frame s) s' \<and> free_now s' = free_now s"
proof -
  let ?p = "tp_page tp" and ?r = "cr3_frame s"
  obtain s' where "unmap ?p s = Inr (MapperFlush ?p, s')" "pt_wf s' ?r" "page_map s' ?r ?p = None"
    "\<forall>q. p4_index q \<noteq> 511 \<longrightarrow> page_path q \<noteq> page_path ?p \<longrightarrow> page_map s' ?r q = page_map s ?r q"
    "kept s ?r s'" "mappable s' ?r ?p" "free_now s' = free_now s"
    using unmap_ok [OF wf p(2,1) m] by blast
  then show ?thesis
    using mapper_flush_ok [OF p(1)] kept_cr3 [of s ?r s']
    by (intro exI [of _ "tlb_record (Invlpg (push_bit 12 (page_number ?p))) s'"])
      (simp add: temporary_page_unmap_def del: mapper_flush.simps)
qed


section \<open>Tables that are not active\<close>

lemma pt_wf_agree:
  assumes wf: "pt_wf s T" and ag: "agree (pmem s) (pmem s') T" and r: "cr3_frame s' = cr3_frame s"
    and a: "ALLOCATOR s' = Some a" "alloc_wf a" "free_set a \<subseteq> free_now s"
    and rec: "recursive (pmem s') (cr3_frame s) T"
  shows "pt_wf s' T"
proof -
  note ok = pt_wf_tables_ok [OF wf]
  have "alloc_apart a (pmem s') (cr3_frame s) T"
    using wf a agree_frames [OF ok ag]
    by (auto simp: pt_wf_def alloc_apart_def free_now_def split: option.splits)
  then show ?thesis
    using wf r rec a(1) agree_frames [OF ok ag] agree_tables_ok [OF ok ag] by (simp add: pt_wf_def)
qed

lemma pt_wf_allocator: "pt_wf s T \<Longrightarrow> \<exists>a. ALLOCATOR s = Some a \<and> alloc_wf a \<and> free_set a = free_now s"
  by (auto simp: pt_wf_def alloc_apart_def free_now_def split: option.splits)

lemma small_mapped_agree:
  assumes "tables_ok (pmem s) T" and "agree (pmem s) (pmem s') T" and "p4_index p \<noteq> 511" and "small_mapped s T p"
  shows "small_mapped s' T p"
proof -
  from assms(4) obtain t where t: "table_at (pmem s) T [p4_index p, p3_index p, p2_index p] = Some t"
    and b: "bit (pmem s t (p1_index p)) 0" by (auto simp: small_mapped_def)
  note P = path_ok_page(3) [OF assms(3)]
  have "t \<noteq> T" using tables_ok_inj [OF assms(1) P path_ok_Nil, of t] t by auto
  then have "pmem s' t (p1_index p) = pmem s t (p1_index p)"
    using assms(2) in_table_frames [OF P t] by (auto simp: agree_def)
  with b t agree_table_at [OF assms(1,2) P] show ?thesis by (auto simp: small_mapped_def)
qed

text \<open>
  Frames that are in nobody's hands, neither free nor a table below one of \<open>Ts\<close>: what an operation
  leaves alone.
\<close>

definition idle :: "vm \<Rightarrow> Frame set \<Rightarrow> Frame \<Rightarrow> bool" where
  "idle s Ts h \<longleftrightarrow> h \<notin> free_now s \<and> (\<forall>T \<in> Ts. h \<notin> table_frames (pmem s) T)"

definition spared :: "vm \<Rightarrow> Frame set \<Rightarrow> vm \<Rightarrow> Frame set \<Rightarrow> bool" where
  "spared s Ts s' Ts' \<longleftrightarrow> (\<forall>h. idle s Ts h \<longrightarrow> pmem s' h = pmem s h \<and> idle s' Ts' h)"

lemma spared_trans: "spared s A s' B \<Longrightarrow> spared s' B s'' C \<Longrightarrow> spared s A s'' C"
  by (simp add: spared_def)

lemma spared_fewer: "spared s A s' B \<Longrightarrow> C \<subseteq> B \<Longrightarrow> spared s A s' C"
  by (auto simp: spared_def idle_def)

lemma kept_spared: "kept s T s' \<Longrightarrow> spared s {T} s' {T}"
  by (auto simp: spared_def idle_def kept_def)

text \<open>A table with its recursive entry that shares no frame with the active one or the free frames.\<close>

definition inactive_ok :: "vm \<Rightarrow> Frame \<Rightarrow> bool" where
  "inactive_ok s T \<longleftrightarrow>
     frame_ok T \<and> recursive_entry (pmem s T 511) T \<and> tables_ok (pmem s) T
     \<and> table_frames (pmem s) T \<inter> table_frames (pmem s) (cr3_frame s) = {}
     \<and> table_frames (pmem s) T \<inter> free_now s = {}"

definition empty_table :: "memory \<Rightarrow> Frame \<Rightarrow> bool" where
  "empty_table m g \<longleftrightarrow> (\<forall>j < 512. m g j = (if j = 511 then table_entry g else 0))"

lemma empty_table_at:
  assumes "empty_table m g" and "path_ok is" and "table_at m g is = Some f"
  shows "is = []"
  using assms by (cases "is") (auto simp: empty_table_def path_ok_def split: if_splits)

lemma empty_table_ok:
  assumes "empty_table m g"
  shows "tables_ok m g" and "table_frames m g = {g}"
proof -
  show "tables_ok m g"
    unfolding tables_ok_def using empty_table_at [OF assms] by (metis path_writable.simps(1))
  have "f = g" if "path_ok is" "table_at m g is = Some f" for "is" f
    using empty_table_at [OF assms that] that(2) by simp
  then show "table_frames m g = {g}" using root_in_frames by (auto simp: table_frames_def)
qed

lemma empty_table_unmapped: "empty_table m g \<Longrightarrow> p4_index p \<noteq> 511 \<Longrightarrow> page_walk m g (p4_index p) b c d = None"
  by (simp add: page_walk_def empty_table_def)

lemma empty_inactive_ok:
  assumes "empty_table (pmem s) g" and "frame_ok g" and "g \<notin> table_frames (pmem s) (cr3_frame s)" and "g \<notin> free_now s"
  shows "inactive_ok s g"
  using assms empty_table_ok [OF assms(1)] table_entry_bits [OF assms(2)]
  by (simp add: inactive_ok_def recursive_entry_def empty_table_def)

lemma unmapped_same:
  assumes "\<forall>q. p4_index q \<noteq> 511 \<longrightarrow> page_path q \<noteq> page_path p \<longrightarrow> page_map s' T q = page_map s T q"
    and "page_map s' T p = None" and "page_map s T p = None"
  shows "same_maps s T s'"
  unfolding same_maps_def
proof (intro allI impI)
  fix q assume "p4_index q \<noteq> 511"
  then show "page_map s' T q = page_map s T q"
    using assms by (cases "page_path q = page_path p") (auto simp: page_map_def page_path_def)
qed

lemma inactive_page_table_new_ok:
  assumes wf: "pt_wf s (cr3_frame s)" and tp: "tp_ready tp s" and g: "frame_ok g"
    "g \<notin> table_frames (pmem s) (cr3_frame s)" "g \<notin> free_now s"
  shows "\<exists>s'. inactive_page_table_new g tp s = Inr (InactivePageTable g, s') \<and> pt_wf s' (cr3_frame s)
     \<and> cr3 s' = cr3 s \<and> same_maps s (cr3_frame s) s' \<and> empty_table (pmem s') g \<and> inactive_ok s' g
     \<and> mappable s' (cr3_frame s) (tp_page tp) \<and> card (free_now s) \<le> card (free_now s') + 3
     \<and> (\<forall>h. idle s {cr3_frame s} h \<longrightarrow> h \<noteq> g \<longrightarrow> pmem s' h = pmem s h \<and> idle s' {cr3_frame s, g} h)"
proof -
  let ?r = "cr3_frame s" and ?p = "tp_page tp"
  have p: "page_ok ?p" "p4_index ?p \<noteq> 511" "mappable s ?r ?p" using tp by (simp_all add: tp_ready_def)
  obtain s1 where s1: "map_table_frame tp g s = Inr (push_bit 12 (page_number ?p), s1)"
    "pt_wf s1 ?r" "cr3_frame s1 = ?r" "page_map s1 ?r ?p = Some (g, True)" "small_mapped s1 ?r ?p"
    "\<forall>q. p4_index q \<noteq> 511 \<longrightarrow> page_path q \<noteq> page_path ?p \<longrightarrow> page_map s1 ?r q = page_map s ?r q"
    "kept s ?r s1" "card (free_now s) \<le> card (free_now s1) + 3"
    using map_table_frame_ok [OF wf tp g(1)] by blast
  have g1: "g \<notin> table_frames (pmem s1) ?r" "g \<notin> free_now s1" using s1(7) g by (auto simp: kept_def)
  note ok1 = pt_wf_tables_ok [OF s1(2)]
  define s2 where "s2 = s1\<lparr>pmem := zeroed (pmem s1) g\<rparr>"
  define s3 where "s3 = poke g 511 (table_entry g) s2"
  have cr: "cr3_frame s2 = ?r" "cr3_frame s3 = ?r" "cr3 s3 = cr3 s1" using s1(3) by (simp_all add: s2_def s3_def cr3_frame_def)
  have ag2: "agree (pmem s1) (pmem s2) ?r" and ag3: "agree (pmem s1) (pmem s3) ?r"
    using g1 by (auto simp: agree_def s2_def s3_def zeroed_def)
  have zero: "table_zero (push_bit 12 (page_number ?p)) s1 = Inr s2"
    using page_table_zero [OF p(1,2)] s1 g1 ok1 by (simp add: s2_def)
  have set: "entry_set g (PRESENT OR WRITABLE) = Inr (table_entry g)"
    using g(1) by (simp add: entry_set_ok table_entry_def)
  have "page_map s2 ?r ?p = Some (g, True)" using page_map_agree [OF ok1 ag2 p(2)] s1(4) by simp
  then have wr: "table_index_mut (push_bit 12 (page_number ?p)) 511 (table_entry g) s2 = Inr s3"
    using page_table_index_mut [OF p(1)] by (simp add: s3_def cr)
  have rg: "?r \<noteq> g" using g(2) root_in_frames by metis
  have rec3: "recursive (pmem s3) ?r ?r"
    using pt_wf_recursive [OF s1(2)] rg s1(3) by (simp add: recursive_def s3_def s2_def zeroed_def)
  obtain a where a: "ALLOCATOR s1 = Some a" "alloc_wf a" "free_set a = free_now s1" using pt_wf_allocator [OF s1(2)] by blast
  have wf3: "pt_wf s3 ?r"
    by (rule pt_wf_agree [OF s1(2) ag3 _ _ a(2)]) (use a rec3 s1(3) cr in \<open>simp_all add: s2_def s3_def\<close>)
  have fr3: "free_now s3 = free_now s1" by (simp add: free_now_def s2_def s3_def)
  obtain s4 where s4: "temporary_page_unmap tp s3 = Inr s4" "pt_wf s4 ?r" "page_map s4 ?r ?p = None" "mappable s4 ?r ?p"
    "\<forall>q. p4_index q \<noteq> 511 \<longrightarrow> page_path q \<noteq> page_path ?p \<longrightarrow> page_map s4 ?r q = page_map s3 ?r q"
    "kept s3 ?r s4" "free_now s4 = free_now s3" "cr3_frame s4 = ?r"
    using temporary_page_unmap_ok [of s3 tp] wf3 p small_mapped_agree [OF ok1 ag3 p(2) s1(5)] cr by auto
  have g3: "g \<notin> table_frames (pmem s3) ?r" "g \<notin> free_now s3"
    using g1 agree_frames [OF ok1 ag3] fr3 by simp_all
  then have g4: "pmem s4 g = pmem s3 g" "g \<notin> table_frames (pmem s4) ?r" "g \<notin> free_now s4"
    using s4(6,7) by (auto simp: kept_def)
  have e: "empty_table (pmem s4) g" by (auto simp: empty_table_def g4(1) s3_def s2_def zeroed_def)
  have same: "same_maps s ?r s4"
    using s4(5) s1(6) page_map_agree [OF ok1 ag3] mappable_unmapped(1) [OF p(3)] s4(3)
    by (intro unmapped_same [of ?p]) auto
  have "inactive_page_table_new g tp s = Inr (InactivePageTable g, s4)"
    using s1(1) zero set wr s4(1) by (simp add: inactive_page_table_new_def)
  moreover have "cr3 s4 = cr3 s" using s4(6) s1(7) cr(3) by (simp add: kept_def)
  moreover have "inactive_ok s4 g" using empty_inactive_ok [OF e g(1)] g4 s4(8) by simp
  moreover have "pmem s4 h = pmem s h \<and> idle s4 {?r, g} h" if "idle s {?r} h" "h \<noteq> g" for h
  proof -
    have "pmem s1 h = pmem s h" "idle s1 {?r} h" using kept_spared [OF s1(7)] that(1) by (simp_all add: spared_def)
    then have "pmem s3 h = pmem s h" "idle s3 {?r} h"
      using that(2) fr3 agree_frames [OF ok1 ag3] by (simp_all add: idle_def s3_def s2_def zeroed_def)
    then show ?thesis
      using kept_spared [OF s4(6)] that(2) empty_table_ok(2) [OF e] by (simp add: spared_def idle_def)
  qed
  ultimately show ?thesis using s4 e same fr3 s1(8) by (intro exI [of _ s4]) simp
qed


section \<open>Working on an inactive table\<close>

text \<open>The state \<^verbatim>\<open>with\<close> hands to its closure: the recursive mapping leads to the tables of \<open>T\<close>.\<close>

definition inside :: "vm \<Rightarrow> Frame \<Rightarrow> vm \<Rightarrow> bool" where
  "inside s T s1 \<longleftrightarrow>
     pt_wf s1 T \<and> (\<forall>h \<in> table_frames (pmem s) T. pmem s1 h = pmem s h)
     \<and> cr3 s1 = cr3 s \<and> free_now s1 \<subseteq> free_now s \<and> card (free_now s) \<le> card (free_now s1) + 3"

definition cr3_ok :: "vm \<Rightarrow> bool" where
  "cr3_ok s \<longleftrightarrow> take_bit 40 (drop_bit 12 (cr3 s)) = drop_bit 12 (cr3 s)"

lemma cr3_ok_frame:
  "cr3_ok s \<Longrightarrow> frame_containing_address (PhysicalAddress (cr3 s)) = cr3_frame s \<and> frame_ok (cr3_frame s)"
  by (simp add: cr3_ok_def frame_containing_address_def div_PAGE_SIZE cr3_frame_def frame_ok_def)

lemma inactive_ne_root: "inactive_ok s T \<Longrightarrow> T \<noteq> cr3_frame s"
  using root_in_frames by (auto simp: inactive_ok_def)

text \<open>Entering: the temporary page is mapped to the old top table, entry 511 points to \<open>T\<close>.\<close>

lemma with_enter:
  assumes wf: "pt_wf s1 (cr3_frame s1)" and T: "inactive_ok s1 T"
    and s2: "s2 = cr3_write (cr3 s1) (poke (cr3_frame s1) 511 (table_entry T) s1)"
  shows "table_index_mut P4 511 (table_entry T) s1 = Inr (poke (cr3_frame s1) 511 (table_entry T) s1)"
    and "pt_wf s2 T" and "agree (pmem s1) (pmem s2) (cr3_frame s1)"
    and "\<forall>h. h \<noteq> cr3_frame s1 \<longrightarrow> pmem s2 h = pmem s1 h" and "table_frames (pmem s2) T = table_frames (pmem s1) T"
    and "free_now s2 = free_now s1" and "cr3 s2 = cr3 s1" and "cr3_frame s2 = cr3_frame s1"
proof -
  let ?r = "cr3_frame s1"
  have m2: "pmem s2 = (pmem s1)(?r := (pmem s1 ?r)(511 := table_entry T))"
    and al: "ALLOCATOR s2 = ALLOCATOR s1" by (simp_all add: s2 cr3_write_def)
  show cr: "cr3_frame s2 = ?r" and "cr3 s2 = cr3 s1" by (simp_all add: s2 cr3_write_def cr3_frame_def)
  show fr: "free_now s2 = free_now s1" using al by (simp add: free_now_def)
  show "\<forall>h. h \<noteq> ?r \<longrightarrow> pmem s2 h = pmem s1 h" by (simp add: m2)
  show "agree (pmem s1) (pmem s2) ?r" by (simp add: agree_def m2)
  show "table_index_mut P4 511 (table_entry T) s1 = Inr (poke ?r 511 (table_entry T) s1)"
    using table_index_mut_phys [OF pt_wf_recursive [OF wf] path_ok_Nil, of ?r 511] by (simp add: table_address_simps(1))
  note Tr = inactive_ne_root [OF T]
  have rT: "?r \<notin> table_frames (pmem s1) T" using T root_in_frames by (auto simp: inactive_ok_def)
  then have agT: "agree (pmem s1) (pmem s2) T" by (auto simp: agree_def m2)
  have okT: "tables_ok (pmem s1) T" and fT: "frame_ok T" using T by (simp_all add: inactive_ok_def)
  show frT: "table_frames (pmem s2) T = table_frames (pmem s1) T" using agree_frames [OF okT agT] .
  have "recursive (pmem s2) ?r T"
    using table_entry_bits [OF fT] T Tr by (simp add: recursive_def recursive_entry_def inactive_ok_def m2)
  then show "pt_wf s2 T"
    using wf agree_tables_ok [OF okT agT] rT frT T al
    by (auto simp: pt_wf_def cr alloc_apart_def free_now_def inactive_ok_def split: option.splits)
qed

lemma inactive_kept:
  assumes "inactive_ok s T" and "kept s (cr3_frame s) s'"
  shows "inactive_ok s' T" and "\<forall>h \<in> table_frames (pmem s) T. pmem s' h = pmem s h"
    and "table_frames (pmem s') T = table_frames (pmem s) T"
proof -
  show same: "\<forall>h \<in> table_frames (pmem s) T. pmem s' h = pmem s h"
    using assms by (auto simp: inactive_ok_def kept_def)
  have ok: "tables_ok (pmem s) T" using assms(1) by (simp add: inactive_ok_def)
  note ag = agree_outside [OF same]
  show fr: "table_frames (pmem s') T = table_frames (pmem s) T" by (rule agree_frames [OF ok ag])
  show "inactive_ok s' T"
    unfolding inactive_ok_def fr kept_cr3 [OF assms(2)]
  proof (intro conjI)
    show "frame_ok T" "recursive_entry (pmem s' T 511) T"
      using assms(1) same root_in_frames [of T "pmem s"] by (simp_all add: inactive_ok_def)
    show "tables_ok (pmem s') T" by (rule agree_tables_ok [OF ok ag])
    have "h \<notin> table_frames (pmem s') (cr3_frame s) \<and> h \<notin> free_now s'" if "h \<in> table_frames (pmem s) T" for h
    proof -
      have "h \<notin> table_frames (pmem s) (cr3_frame s)" "h \<notin> free_now s"
        using assms(1) that by (auto simp: inactive_ok_def)
      with assms(2) show ?thesis unfolding kept_def by blast
    qed
    then show "table_frames (pmem s) T \<inter> table_frames (pmem s') (cr3_frame s) = {}"
      and "table_frames (pmem s) T \<inter> free_now s' = {}" by blast+
  qed
qed

text \<open>Leaving: the recursive entry is written back through the temporary page, which is then unmapped.\<close>

lemma with_leave:
  assumes wf0: "pt_wf s0 r" and r: "cr3_frame s0 = r" "frame_ok r"
    and p: "page_ok (tp_page tp)" "p4_index (tp_page tp) \<noteq> 511"
    and m0: "page_map s0 r (tp_page tp) = Some (r, True)" "small_mapped s0 r (tp_page tp)"
    and T: "inactive_ok s0 T" and s1: "s1 = cr3_write (cr3 s0) (poke r 511 (table_entry T) s0)"
    and s2: "pt_wf s2 T" "kept s1 T s2"
    and s3: "s3 = cr3_write (cr3 s2) (poke r 511 (table_entry r) s2)"
  shows "table_index_mut (push_bit 12 (page_number (tp_page tp))) 511 (table_entry r) s2 = Inr (poke r 511 (table_entry r) s2)"
    and "agree (pmem s0) (pmem s3) r" and "pt_wf s3 r" and "cr3_frame s3 = r" and "cr3 s3 = cr3 s0"
    and "small_mapped s3 r (tp_page tp)" and "free_now s3 = free_now s2" and "inactive_ok s3 T"
    and "\<forall>h \<in> table_frames (pmem s2) T. pmem s3 h = pmem s2 h" and "table_frames (pmem s3) T = table_frames (pmem s2) T"
    and "spared s0 {r, T} s3 {r, T}"
proof -
  note e = with_enter [of s0 T s1, unfolded r(1), OF wf0 T s1]
  have c2: "cr3_frame s2 = r" "cr3 s2 = cr3 s0" using s2(2) e(7,8) by (simp_all add: kept_def cr3_frame_def)
  note ok0 = pt_wf_tables_ok [OF wf0]
  have out: "h \<notin> table_frames (pmem s1) T \<and> h \<notin> free_now s1" if "h \<in> table_frames (pmem s0) r" for h
    using that T e(5,6) wf0 r(1) pt_wf_alloc_fresh(2) by (auto simp: inactive_ok_def)
  then have out2: "table_frames (pmem s2) T \<inter> table_frames (pmem s0) r = {}" using s2(2) by (auto simp: kept_def)
  have ag02: "agree (pmem s0) (pmem s2) r"
    using out s2(2) e(3) by (auto simp: agree_def kept_def)
  have m3: "pmem s3 = (pmem s2)(r := (pmem s2 r)(511 := table_entry r))" and al3: "ALLOCATOR s3 = ALLOCATOR s2"
    by (simp_all add: s3 cr3_write_def)
  show c3: "cr3_frame s3 = r" and "cr3 s3 = cr3 s0" and fr3: "free_now s3 = free_now s2"
    using c2 by (simp_all add: s3 cr3_write_def cr3_frame_def free_now_def)
  show ag03: "agree (pmem s0) (pmem s3) r" using ag02 by (simp add: agree_def m3)
  have "page_map s2 r (tp_page tp) = Some (r, True)" using page_map_agree [OF ok0 ag02 p(2)] m0(1) by simp
  then show "table_index_mut (push_bit 12 (page_number (tp_page tp))) 511 (table_entry r) s2 = Inr (poke r 511 (table_entry r) s2)"
    using page_table_index_mut [OF p(1), of 511 s2] c2(1) by simp
  have rec3: "recursive (pmem s3) r r"
    using table_entry_bits [OF r(2)] by (simp add: recursive_def recursive_entry_def m3)
  obtain a where a: "ALLOCATOR s2 = Some a" "alloc_wf a" "free_set a = free_now s2" using pt_wf_allocator [OF s2(1)] by blast
  show "pt_wf s3 r"
  proof (rule pt_wf_agree [OF wf0 ag03 _ _ a(2)])
    show "free_set a \<subseteq> free_now s0" using a(3) s2(2) e(6) by (auto simp: kept_def)
  qed (use a(1) al3 c3 r(1) rec3 in simp_all)
  show "small_mapped s3 r (tp_page tp)" by (rule small_mapped_agree [OF ok0 ag03 p(2) m0(2)])
  have "r \<notin> table_frames (pmem s2) T" using out2 root_in_frames by blast
  then show agT: "\<forall>h \<in> table_frames (pmem s2) T. pmem s3 h = pmem s2 h" by (auto simp: m3)
  note ok2 = pt_wf_tables_ok [OF s2(1)]
  show fT3: "table_frames (pmem s3) T = table_frames (pmem s2) T" by (rule agree_frames [OF ok2 agree_outside [OF agT]])
  show "inactive_ok s3 T"
    unfolding inactive_ok_def c3 fT3 fr3 agree_frames [OF ok0 ag03]
  proof (intro conjI)
    show "frame_ok T" using T by (simp add: inactive_ok_def)
    show "recursive_entry (pmem s3 T 511) T"
      using pt_wf_recursive [OF s2(1)] inactive_ne_root [OF T] r(1) by (simp add: recursive_def m3)
    show "tables_ok (pmem s3) T" by (rule agree_tables_ok [OF ok2 agree_outside [OF agT]])
    show "table_frames (pmem s2) T \<inter> free_now s2 = {}" using pt_wf_alloc_fresh(2) [OF s2(1)] by blast
  qed (rule out2)
  have "pmem s3 h = pmem s0 h \<and> idle s3 {r, T} h" if "idle s0 {r, T} h" for h
  proof -
    have h: "h \<noteq> r" "pmem s1 h = pmem s0 h" "idle s1 {T} h"
      using that root_in_frames [of r "pmem s0"] e(4,5,6) by (auto simp: idle_def)
    then have "pmem s2 h = pmem s0 h" "idle s2 {T} h" using kept_spared [OF s2(2)] by (simp_all add: spared_def)
    then show ?thesis using that h(1) fT3 fr3 agree_frames [OF ok0 ag03] by (simp add: m3 idle_def)
  qed
  then show "spared s0 {r, T} s3 {r, T}" by (simp add: spared_def)
qed

lemma active_table_with_ok:
  assumes wf: "pt_wf s (cr3_frame s)" and cr3: "cr3_ok s" and tp: "tp_ready tp s" and T: "inactive_ok s T"
    and f: "\<And>s1. inside s T s1 \<Longrightarrow> \<exists>s2. f s1 = Inr s2 \<and> pt_wf s2 T \<and> kept s1 T s2"
  shows "\<exists>s1 s2 s'. active_table_with (InactivePageTable T) tp f s = Inr s' \<and> inside s T s1 \<and> f s1 = Inr s2
     \<and> pt_wf s' (cr3_frame s) \<and> cr3 s' = cr3 s \<and> same_maps s (cr3_frame s) s' \<and> same_maps s2 T s'
     \<and> inactive_ok s' T \<and> free_now s' = free_now s2
     \<and> (\<forall>h \<in> table_frames (pmem s2) T. pmem s' h = pmem s2 h)
     \<and> spared s {cr3_frame s, T} s' {cr3_frame s, T}"
proof -
  let ?r = "cr3_frame s" and ?p = "tp_page tp"
  have p: "page_ok ?p" "p4_index ?p \<noteq> 511" "mappable s ?r ?p" using tp by (simp_all add: tp_ready_def)
  note bk = cr3_ok_frame [OF cr3]
  obtain s0 where s0: "map_table_frame tp ?r s = Inr (push_bit 12 (page_number ?p), s0)"
    "pt_wf s0 ?r" "cr3_frame s0 = ?r" "page_map s0 ?r ?p = Some (?r, True)" "small_mapped s0 ?r ?p"
    "\<forall>q. p4_index q \<noteq> 511 \<longrightarrow> page_path q \<noteq> page_path ?p \<longrightarrow> page_map s0 ?r q = page_map s ?r q"
    "kept s ?r s0" "card (free_now s) \<le> card (free_now s0) + 3"
    using map_table_frame_ok [OF wf tp conjunct2 [OF bk]] by blast
  note T0 = inactive_kept [OF T s0(7)]
  define s1 where "s1 = cr3_write (cr3 s0) (poke ?r 511 (table_entry T) s0)"
  note e = with_enter [of s0 T s1, unfolded s0(3), OF s0(2) T0(1) s1_def]
  have c0: "cr3 s0 = cr3 s" using s0(7) by (simp add: kept_def)
  have rT: "?r \<notin> table_frames (pmem s) T" using T root_in_frames by (auto simp: inactive_ok_def)
  have "\<forall>h \<in> table_frames (pmem s) T. pmem s1 h = pmem s h" using e(4) T0(2) rT by metis
  then have ins: "inside s T s1"
    using e T0 c0 s0(7,8) by (simp add: inside_def kept_def)
  obtain s2 where s2: "f s1 = Inr s2" "pt_wf s2 T" "kept s1 T s2" using f [OF ins] by blast
  have c2: "cr3 s2 = cr3 s0" using s2(3) e(7) by (simp add: kept_def)
  define s3 where "s3 = cr3_write (cr3 s2) (poke ?r 511 (table_entry ?r) s2)"
  note l = with_leave [OF s0(2,3) conjunct2 [OF bk] p(1,2) s0(4,5) T0(1) s1_def s2(2,3) s3_def]
  note ok0 = pt_wf_tables_ok [OF s0(2)]
  obtain s4 where s4: "temporary_page_unmap tp s3 = Inr s4" "pt_wf s4 ?r" "page_map s4 ?r ?p = None"
    "\<forall>q. p4_index q \<noteq> 511 \<longrightarrow> page_path q \<noteq> page_path ?p \<longrightarrow> page_map s4 ?r q = page_map s3 ?r q"
    "kept s3 ?r s4" "free_now s4 = free_now s3" "cr3_frame s4 = ?r"
    using temporary_page_unmap_ok [of s3 tp] l(3,4,6) p by auto
  have same: "same_maps s ?r s4"
    using s4(4) s0(6) page_map_agree [OF ok0 l(2)] mappable_unmapped(1) [OF p(3)] s4(3)
    by (intro unmapped_same [of ?p]) auto
  note T4 = inactive_kept [OF l(8), unfolded l(4), OF s4(5)]
  have ag4: "\<forall>h \<in> table_frames (pmem s2) T. pmem s4 h = pmem s2 h" using T4(2) l(9,10) by simp
  then have "same_maps s2 T s4"
    using page_map_agree [OF pt_wf_tables_ok [OF s2(2)] agree_outside] unfolding same_maps_def by blast
  moreover have "active_table_with (InactivePageTable T) tp f s = Inr s4"
    using bk s0(1) s0(3) e(1) s2(1) l(1) s4(1) c2 c0 T
    by (simp add: active_table_with_def entry_set_ok inactive_ok_def s1_def s3_def table_entry_def)
  moreover have "cr3 s4 = cr3 s" using s4(5) l(5) c0 by (simp add: kept_def)
  moreover have "spared s {?r, T} s4 {?r, T}"
    using kept_spared [OF s0(7)] l(11) kept_spared [OF s4(5)] T0(3) T4(3) by (simp add: spared_def idle_def)
  ultimately show ?thesis
    using ins s2(1) s4 same T4(1) l(7) ag4 by (intro exI [of _ s1] exI [of _ s2] exI [of _ s4]) simp
qed

section \<open>Properties\<close>

lemma example_card_many: "8 \<le> card (free_now example_vm)"
proof -
  let ?F = "{Frame 0x10, Frame 0x11, Frame 0x12, Frame 0x13, Frame 0x14, Frame 0x15, Frame 0x16, Frame 0x17}"
  have "?F \<subseteq> free_now example_vm"
    by (simp add: free_now_def example_vm_def free_set_def example_allocator_def example_areas_def in_area_def
        last_frame_def area_first_frame_def frame_containing_address_def PAGE_SIZE_def reserved_def)
  then have "card ?F \<le> card (free_now example_vm)"
    by (rule card_mono [rotated]) simp
  then show ?thesis by simp
qed

lemma temporary_page_indices: "page_ok (tp_page TEMPORARY_PAGE)" "p4_index (tp_page TEMPORARY_PAGE) \<noteq> 511"
  by (simp_all add: TEMPORARY_PAGE_def page_ok_def is_canonical_def p4_index_def)

lemma example_tp_ready: "tp_ready TEMPORARY_PAGE example_vm"
  using temporary_page_indices example_mappable [OF temporary_page_indices(2)] example_card
  by (simp add: tp_ready_def example_cr3)

lemma example_frame_10: "frame_ok (Frame 0xa)" "Frame 0xa \<notin> table_frames (pmem example_vm) (cr3_frame example_vm)"
  "Frame 0xa \<notin> free_now example_vm"
proof -
  have "f = Frame 9" if "path_ok is" "table_at (pmem example_vm) (Frame 9) is = Some f" for "is" f
    using example_table_at [OF that] that(2) by simp
  from this [of _ "Frame 0xa"] show "Frame 0xa \<notin> table_frames (pmem example_vm) (cr3_frame example_vm)"
    by (auto simp: table_frames_def example_cr3)
  show "Frame 0xa \<notin> free_now example_vm"
    by (simp add: free_now_def example_vm_def free_set_def example_allocator_def)
qed (simp add: frame_ok_bound)

text \<open>
  C16. \<^verbatim>\<open>InactivePageTable::new\<close> on a frame that is neither a table of the active tree nor free:
  it returns, the frame holds a table that is empty but for the recursive entry 511, the
  translation of every page is what it was, and the temporary page is free again.
\<close>

theorem inactive_page_table_new_creates:
  assumes "pt_wf s (cr3_frame s)" and "tp_ready tp s" and "frame_ok g"
    and "g \<notin> table_frames (pmem s) (cr3_frame s)" and "g \<notin> free_now s"
  shows "\<exists>s'. inactive_page_table_new g tp s = Inr (InactivePageTable g, s') \<and> pt_wf s' (cr3_frame s)
     \<and> cr3 s' = cr3 s \<and> same_maps s (cr3_frame s) s' \<and> empty_table (pmem s') g \<and> inactive_ok s' g
     \<and> mappable s' (cr3_frame s) (tp_page tp) \<and> card (free_now s) \<le> card (free_now s') + 3"
  using inactive_page_table_new_ok [OF assms] by blast

theorem inactive_page_table_new_creates_witness:
  "\<exists>s'. inactive_page_table_new (Frame 0xa) TEMPORARY_PAGE example_vm = Inr (InactivePageTable (Frame 0xa), s')
     \<and> empty_table (pmem s') (Frame 0xa)"
  using inactive_page_table_new_creates [OF _ example_tp_ready example_frame_10] example_pt_wf example_cr3
  by auto

text \<open>
  C8. \<^verbatim>\<open>ActivePageTable::with\<close>: its closure runs with the recursive mapping on the tables of the
  inactive table and finds them as they were; when the closure returns and keeps to those
  tables, \<^verbatim>\<open>with\<close> returns, the active table translates every page as before, the recursive entry
  is back and the invariant holds, and the inactive table translates every page as the closure
  left it.
\<close>

theorem active_table_with_edits_inactive:
  assumes "pt_wf s (cr3_frame s)" and "cr3_ok s" and "tp_ready tp s" and "inactive_ok s T"
    and "\<And>s1. inside s T s1 \<Longrightarrow> \<exists>s2. f s1 = Inr s2 \<and> pt_wf s2 T \<and> kept s1 T s2"
  shows "\<exists>s1 s2 s'. active_table_with (InactivePageTable T) tp f s = Inr s' \<and> inside s T s1 \<and> f s1 = Inr s2
     \<and> pt_wf s' (cr3_frame s) \<and> cr3 s' = cr3 s \<and> same_maps s (cr3_frame s) s' \<and> same_maps s2 T s'
     \<and> inactive_ok s' T \<and> free_now s' = free_now s2"
  using active_table_with_ok [of s tp T f] assms by blast

theorem active_table_with_edits_inactive_witness:
  "\<exists>s0 s1 s2 s'. inactive_page_table_new (Frame 0xa) TEMPORARY_PAGE example_vm = Inr (InactivePageTable (Frame 0xa), s0)
     \<and> active_table_with (InactivePageTable (Frame 0xa)) TEMPORARY_PAGE Inr s0 = Inr s'
     \<and> inside s0 (Frame 0xa) s1 \<and> Inr s1 = (Inr s2 :: vm res) \<and> same_maps s2 (Frame 0xa) s'"
proof -
  obtain s0 where s0: "inactive_page_table_new (Frame 0xa) TEMPORARY_PAGE example_vm = Inr (InactivePageTable (Frame 0xa), s0)"
    "pt_wf s0 (Frame 9)" "cr3 s0 = cr3 example_vm" "inactive_ok s0 (Frame 0xa)"
    "mappable s0 (Frame 9) (tp_page TEMPORARY_PAGE)" "card (free_now example_vm) \<le> card (free_now s0) + 3"
    using inactive_page_table_new_ok [OF _ example_tp_ready example_frame_10] example_pt_wf example_cr3 by auto
  have cr: "cr3_frame s0 = Frame 9" using s0(3) example_cr3 by (simp add: cr3_frame_def)
  have "cr3_ok s0" using s0(3) by (simp add: cr3_ok_def example_vm_def)
  moreover have "tp_ready TEMPORARY_PAGE s0"
    using s0(5,6) example_card_many temporary_page_indices by (simp add: tp_ready_def cr)
  moreover have "\<exists>s2. Inr s1 = (Inr s2 :: vm res) \<and> pt_wf s2 (Frame 0xa) \<and> kept s1 (Frame 0xa) s2"
    if "inside s0 (Frame 0xa) s1" for s1
    using that by (simp add: inside_def)
  ultimately obtain s1 s2 s' where "active_table_with (InactivePageTable (Frame 0xa)) TEMPORARY_PAGE Inr s0 = Inr s'"
    "inside s0 (Frame 0xa) s1" "Inr s1 = (Inr s2 :: vm res)" "same_maps s2 (Frame 0xa) s'"
    using active_table_with_edits_inactive [of s0 TEMPORARY_PAGE "Frame 0xa" Inr] s0(2,4) cr by metis
  with s0(1) show ?thesis by blast
qed

end
