(* ===== verification/Map_Loops.thy ===== *)
theory Map_Loops
  imports Active_Correct
begin

text \<open>
  The loops that map a range of pages: the heap (\<^verbatim>\<open>memory::init\<close>), the stacks
  (\<^verbatim>\<open>StackAllocator::alloc_stack\<close>) and the identity mappings of \<^verbatim>\<open>paging::init\<close>. The locale
  \<open>page_loop\<close> is the contract of one round: it maps the round's page and leaves the other pages
  alone. Its lemma \<open>loop_maps\<close> gives the effect of the whole loop; it is used for rounds that
  allocate the frame and for rounds that are given one.
\<close>

section \<open>One round\<close>

definition mapped_page :: "vm \<Rightarrow> Frame \<Rightarrow> Page \<Rightarrow> Frame \<Rightarrow> bool \<Rightarrow> vm \<Rightarrow> bool" where
  "mapped_page s T p F w s' \<longleftrightarrow>
     pt_wf s' T \<and> page_map s' T p = Some (F, w) \<and> small_mapped s' T p
     \<and> (\<forall>q. p4_index q \<noteq> 511 \<longrightarrow> page_path q \<noteq> page_path p \<longrightarrow>
          page_map s' T q = page_map s T q \<and> (mappable s T q \<longrightarrow> mappable s' T q))
     \<and> kept s T s' \<and> card (free_now s) \<le> card (free_now s') + 4"

lemma mapped_page_tlb [simp]: "mapped_page s T p F w (tlb_record ev s') = mapped_page s T p F w s'"
  by (simp add: mapped_page_def)

lemma map_to_mapped_page:
  assumes "pt_wf s T" and "mappable s T p" and "p4_index p \<noteq> 511" and "3 \<le> card (free_now s)"
    and "frame_ok frame" and "flags_ok flags"
  shows "\<exists>s'. map_to p frame flags s = Inr (MapperFlush p, s') \<and> mapped_page s T p frame (bit flags 1) s'"
  using map_to_ok [OF assms] by (force simp: mapped_page_def)

text \<open>Taking a frame out of the allocator keeps the tables.\<close>

lemma allocate_frames_kept:
  assumes wf: "pt_wf s T" and free: "free_now s \<noteq> {}"
  obtains g s' where "allocate_frames 1 s = Inr (Some g, s')" "pt_wf s' T" "g \<in> free_now s"
    "free_now s' = free_now s - {g}" "pmem s' = pmem s" "cr3 s' = cr3 s" "tlb_events s' = tlb_events s"
proof -
  obtain g a' where g: "allocate_frames 1 s = Inr (Some g, s\<lparr>ALLOCATOR := Some a'\<rparr>)" "alloc_wf a'"
    "g \<in> free_now s" "free_set a' = free_now s - {g}"
    using allocate_frames_pt [OF wf free] by blast
  let ?s = "s\<lparr>ALLOCATOR := Some a'\<rparr>"
  have "pt_wf ?s T"
    by (rule pt_wf_agree [OF wf _ _ _ g(2)])
      (use g pt_wf_recursive [OF wf] in \<open>auto simp: cr3_frame_def\<close>)
  with g show ?thesis by (intro that [of g ?s]) (simp_all add: free_now_def)
qed

lemma map_page_mapped:
  assumes wf: "pt_wf s T" and m: "mappable s T p" and p4: "p4_index p \<noteq> 511" and free: "4 \<le> card (free_now s)"
    and fl: "flags_ok flags"
  shows "\<exists>F s'. map_page p flags s = Inr (MapperFlush p, s') \<and> F \<in> free_now s \<and> F \<notin> free_now s'
     \<and> mapped_page s T p F (bit flags 1) s'"
proof -
  have "free_now s \<noteq> {}" using free by auto
  then obtain g s0 where g: "allocate_frames 1 s = Inr (Some g, s0)" "pt_wf s0 T" "g \<in> free_now s"
    "free_now s0 = free_now s - {g}" "pmem s0 = pmem s" "cr3 s0 = cr3 s"
    using allocate_frames_kept [OF wf] by metis
  have m0: "mappable s0 T q = mappable s T q" "page_map s0 T q = page_map s T q" for q
    by (simp_all add: mappable_def page_map_def g(5))
  have c0: "card (free_now s) = Suc (card (free_now s0))"
    using g(3,4) card_Suc_Diff1 [of "free_now s" g] by simp
  obtain s' where s': "map_to p g flags s0 = Inr (MapperFlush p, s')" "pt_wf s' T"
      "page_map s' T p = Some (g, bit flags 1)" "small_mapped s' T p"
      "\<forall>q. p4_index q \<noteq> 511 \<longrightarrow> page_path q \<noteq> page_path p \<longrightarrow>
          page_map s' T q = page_map s0 T q \<and> (mappable s0 T q \<longrightarrow> mappable s' T q)"
      "kept s0 T s'" "card (free_now s0) \<le> card (free_now s') + 3"
    using map_to_ok [OF g(2) _ p4 _ pt_wf_alloc_fresh(1) [OF wf g(3)] fl] m m0(1) free c0 by auto
  have "kept s T s0" using g by (auto simp: kept_def)
  then have "kept s T s'" using s'(6) by (rule kept_trans)
  moreover have "g \<notin> free_now s'" using s'(6) g(4) by (auto simp: kept_def)
  ultimately show ?thesis
    using s' g(1,3) m0 c0 by (intro exI [of _ g] exI [of _ s']) (simp add: map_page_def mapped_page_def)
qed

section \<open>The loop\<close>

locale page_loop =
  fixes op :: "'x \<Rightarrow> vm \<Rightarrow> vm res"
    and page :: "'x \<Rightarrow> Page"
    and ok :: "'x \<Rightarrow> bool"
    and spec :: "'x \<Rightarrow> Frame set \<Rightarrow> Frame \<Rightarrow> bool \<Rightarrow> bool"
  assumes round: "pt_wf s T \<Longrightarrow> mappable s T (page x) \<Longrightarrow> p4_index (page x) \<noteq> 511 \<Longrightarrow> 4 \<le> card (free_now s) \<Longrightarrow>
      ok x \<Longrightarrow> \<exists>F w s'. op x s = Inr s' \<and> spec x (free_now s) F w \<and> mapped_page s T (page x) F w s'"
    and spec_mono: "spec x A F w \<Longrightarrow> A \<subseteq> B \<Longrightarrow> spec x B F w"
begin

definition loop_ready :: "vm \<Rightarrow> Frame \<Rightarrow> 'x list \<Rightarrow> bool" where
  "loop_ready s T xs \<longleftrightarrow>
     (\<forall>x \<in> set xs. mappable s T (page x) \<and> p4_index (page x) \<noteq> 511 \<and> ok x)
     \<and> distinct (map (\<lambda>x. page_path (page x)) xs) \<and> 4 * length xs \<le> card (free_now s)"

definition loop_done :: "vm \<Rightarrow> Frame \<Rightarrow> 'x list \<Rightarrow> vm \<Rightarrow> bool" where
  "loop_done s T xs s' \<longleftrightarrow>
     pt_wf s' T \<and> kept s T s' \<and> card (free_now s) \<le> card (free_now s') + 4 * length xs
     \<and> (\<forall>x \<in> set xs. \<exists>F w. page_map s' T (page x) = Some (F, w) \<and> spec x (free_now s) F w)
     \<and> (\<forall>x \<in> set xs. small_mapped s' T (page x))
     \<and> (\<forall>q. p4_index q \<noteq> 511 \<longrightarrow> (\<forall>x \<in> set xs. page_path q \<noteq> page_path (page x)) \<longrightarrow>
          page_map s' T q = page_map s T q \<and> (mappable s T q \<longrightarrow> mappable s' T q))"

lemma ready_head:
  assumes "loop_ready s T (x # xs)"
  shows "mappable s T (page x)" and "p4_index (page x) \<noteq> 511" and "4 \<le> card (free_now s)" and "ok x"
    and "\<forall>y \<in> set xs. page_path (page y) \<noteq> page_path (page x)"
proof -
  have "page_path (page x) \<notin> (\<lambda>y. page_path (page y)) ` set xs" using assms by (simp add: loop_ready_def)
  then show "\<forall>y \<in> set xs. page_path (page y) \<noteq> page_path (page x)" by (metis image_eqI)
qed (use assms in \<open>simp_all add: loop_ready_def\<close>)

lemma loop_step:
  assumes "pt_wf s T" and "loop_ready s T (x # xs)"
  shows "\<exists>F w s1. op x s = Inr s1 \<and> spec x (free_now s) F w \<and> mapped_page s T (page x) F w s1 \<and> loop_ready s1 T xs"
proof -
  note x = ready_head [OF assms(2)]
  obtain F w s1 where s1: "op x s = Inr s1" "spec x (free_now s) F w" "mapped_page s T (page x) F w s1"
    using round [OF assms(1) x(1-4)] by blast
  have "card (free_now s) \<le> card (free_now s1) + 4" using s1(3) by (simp add: mapped_page_def)
  then have "loop_ready s1 T xs" using assms(2) s1(3) x(5) by (auto simp: loop_ready_def mapped_page_def)
  with s1 show ?thesis by blast
qed

lemma loop_maps:
  assumes "pt_wf s T" and "loop_ready s T xs"
  shows "\<exists>s'. rfold op xs s = Inr s' \<and> loop_done s T xs s'"
  using assms
proof (induction xs arbitrary: s)
  case Nil
  then show ?case by (simp add: loop_done_def)
next
  case (Cons x xs)
  note x = ready_head [OF Cons.prems(2)]
  note other = x(5)
  obtain F w s1 where s1: "op x s = Inr s1" "spec x (free_now s) F w" "mapped_page s T (page x) F w s1"
    and ready1: "loop_ready s1 T xs"
    using loop_step [OF Cons.prems] by blast
  have k: "kept s T s1" and c: "card (free_now s) \<le> card (free_now s1) + 4" using s1(3) by (simp_all add: mapped_page_def)
  have "pt_wf s1 T" using s1(3) by (simp add: mapped_page_def)
  from Cons.IH [OF this ready1] obtain s' where s': "rfold op xs s1 = Inr s'" "loop_done s1 T xs s'" by blast
  have sub: "free_now s1 \<subseteq> free_now s" using k by (simp add: kept_def)
  have px: "page_map s' T (page x) = page_map s1 T (page x)"
    using s'(2) other x(2) unfolding loop_done_def by metis
  have small: "\<forall>y \<in> set (x # xs). small_mapped s' T (page y)"
    using kept_small_mapped [OF _ x(2) px] s'(2) s1(3) by (simp add: loop_done_def mapped_page_def)
  from px have "page_map s' T (page x) = Some (F, w)" using s1(3) by (simp add: mapped_page_def)
  with s1(2) have here: "\<exists>F w. page_map s' T (page x) = Some (F, w) \<and> spec x (free_now s) F w" by blast
  have rest: "\<forall>y \<in> set xs. \<exists>F w. page_map s' T (page y) = Some (F, w) \<and> spec y (free_now s) F w"
    using s'(2) spec_mono sub unfolding loop_done_def by meson
  have "kept s T s'" using k s'(2) kept_trans by (auto simp: loop_done_def)
  moreover have "\<forall>q. p4_index q \<noteq> 511 \<longrightarrow> (\<forall>y \<in> set (x # xs). page_path q \<noteq> page_path (page y)) \<longrightarrow>
      page_map s' T q = page_map s T q \<and> (mappable s T q \<longrightarrow> mappable s' T q)"
    using s'(2) s1(3) by (simp add: loop_done_def mapped_page_def)
  ultimately have "loop_done s T (x # xs) s'"
    using s'(2) here rest small c by (simp add: loop_done_def)
  with s1(1) s'(1) show ?case by auto
qed

end

text \<open>Rounds that allocate: the frames of the pages are taken from the allocator and all different.\<close>

definition fresh_frames :: "vm \<Rightarrow> Frame \<Rightarrow> Page list \<Rightarrow> vm \<Rightarrow> bool" where
  "fresh_frames s T ps s' \<longleftrightarrow>
     distinct (map (\<lambda>p. map_option fst (page_map s' T p)) ps)
     \<and> (\<forall>p \<in> set ps. \<exists>F w. page_map s' T p = Some (F, w) \<and> F \<in> free_now s \<and> F \<notin> free_now s')"

locale fresh_page_loop = page_loop +
  assumes taken: "pt_wf s T \<Longrightarrow> mappable s T (page x) \<Longrightarrow> p4_index (page x) \<noteq> 511 \<Longrightarrow> 4 \<le> card (free_now s) \<Longrightarrow>
      ok x \<Longrightarrow> op x s = Inr s' \<Longrightarrow> \<exists>F w. page_map s' T (page x) = Some (F, w) \<and> F \<in> free_now s \<and> F \<notin> free_now s'"
begin

lemma loop_fresh:
  assumes "pt_wf s T" and "loop_ready s T xs" and "rfold op xs s = Inr s'"
  shows "fresh_frames s T (map page xs) s'"
  using assms
proof (induction xs arbitrary: s)
  case Nil
  then show ?case by (simp add: fresh_frames_def)
next
  case (Cons x xs)
  note x = ready_head [OF Cons.prems(2)]
  obtain F w s1 where s1: "op x s = Inr s1" "mapped_page s T (page x) F w s1" and ready1: "loop_ready s1 T xs"
    using loop_step [OF Cons.prems(1,2)] by blast
  have wf1: "pt_wf s1 T" and k1: "free_now s1 \<subseteq> free_now s" and px: "page_map s1 T (page x) = Some (F, w)"
    using s1(2) by (simp_all add: mapped_page_def kept_def)
  have F: "F \<in> free_now s" "F \<notin> free_now s1" using taken [OF Cons.prems(1) x(1-4) s1(1)] px by auto
  have r: "rfold op xs s1 = Inr s'" using Cons.prems(3) s1(1) by simp
  from Cons.IH [OF wf1 ready1 r] have IH: "fresh_frames s1 T (map page xs) s'" .
  have d: "loop_done s1 T xs s'" using loop_maps [OF wf1 ready1] r by auto
  then have sub: "free_now s' \<subseteq> free_now s1" unfolding loop_done_def kept_def by blast
  have px': "page_map s' T (page x) = Some (F, w)" using d x(2,5) px unfolding loop_done_def by metis
  have "map_option fst (page_map s' T (page y)) \<noteq> Some F" if "y \<in> set xs" for y
    using IH that F(2) by (fastforce simp: fresh_frames_def)
  then show ?case
    using IH px' F k1 sub unfolding fresh_frames_def by fastforce
qed

end

section \<open>The loops of the code\<close>

text \<open>A round of the heap and stack loops: map the page to a new frame and flush it.\<close>

definition map_and_flush :: "EntryFlags \<Rightarrow> Page \<Rightarrow> vm \<Rightarrow> vm res" where
  "map_and_flush flags page s = rbind (map_page page flags s) (\<lambda>(result, s). mapper_flush result s)"

definition new_frame :: "EntryFlags \<Rightarrow> Frame set \<Rightarrow> Frame \<Rightarrow> bool \<Rightarrow> bool" where
  "new_frame flags A F w \<longleftrightarrow> F \<in> A \<and> w = bit flags 1"

lemma map_and_flush_round:
  assumes "pt_wf s T" and "mappable s T p" and "p4_index p \<noteq> 511" and "4 \<le> card (free_now s)" and "page_ok p"
    and "flags_ok flags"
  shows "\<exists>F s'. map_and_flush flags p s = Inr s' \<and> F \<in> free_now s \<and> F \<notin> free_now s' \<and> mapped_page s T p F (bit flags 1) s'"
  using map_page_mapped [OF assms(1-4,6)] mapper_flush_ok [OF assms(5)]
  by (fastforce simp: map_and_flush_def simp del: mapper_flush.simps)

lemma map_and_flush_loop:
  assumes "flags_ok flags"
  shows "fresh_page_loop (map_and_flush flags) (\<lambda>p. p) page_ok (\<lambda>_. new_frame flags)"
proof
  fix s T x assume a: "pt_wf s T" "mappable s T x" "p4_index x \<noteq> 511" "4 \<le> card (free_now s)" "page_ok x"
  from map_and_flush_round [OF a assms] obtain F s' where
    r: "map_and_flush flags x s = Inr s'" "F \<in> free_now s" "F \<notin> free_now s'" "mapped_page s T x F (bit flags 1) s'" by blast
  then show "\<exists>F w s'. map_and_flush flags x s = Inr s' \<and> new_frame flags (free_now s) F w \<and> mapped_page s T x F w s'"
    by (auto simp: new_frame_def)
  show "\<exists>F w. page_map t T x = Some (F, w) \<and> F \<in> free_now s \<and> F \<notin> free_now t"
    if "map_and_flush flags x s = Inr t" for t
    using r that by (auto simp: mapped_page_def)
qed (auto simp: new_frame_def)

interpretation heap_loop: fresh_page_loop "map_and_flush (PRESENT OR WRITABLE)" "\<lambda>p. p" page_ok
  "\<lambda>_. new_frame (PRESENT OR WRITABLE)"
  by (rule map_and_flush_loop) (simp add: flags_ok_or)

interpretation stack_loop: fresh_page_loop "map_and_flush PRESENT" "\<lambda>p. p" page_ok "\<lambda>_. new_frame PRESENT"
  by (rule map_and_flush_loop) simp

text \<open>A round of an identity mapping, with its flags.\<close>

definition identity_page :: "Frame \<Rightarrow> Page" where
  "identity_page f = Page (frame_number f)"

definition low_frame :: "Frame \<Rightarrow> bool" where
  "low_frame f \<longleftrightarrow> frame_number f < 0x800000000"

lemma low_page_ok:
  assumes "n < 0x800000000"
  shows "page_ok (Page n)" and "p4_index (Page n) \<noteq> 511" and "drop_bit 12 (push_bit 12 n) = n"
proof -
  have n: "unat n < 2 ^ 35" using assms by (simp add: word_less_nat_alt)
  then have t: "take_bit 35 n = n"
    by (simp add: word_unat_eq_iff unsigned_take_bit_eq take_bit_nat_eq_self_iff)
  then have b: "k < 35" if "bit n k" for k using that by (metis bit_take_bit_iff)
  show d: "drop_bit 12 (push_bit 12 n) = n" by (rule bit_word_eqI) (auto simp: bit_simps dest: b)
  have "is_canonical (push_bit 12 n)" using canonical_page [of "push_bit 12 n"] assms d by simp
  with n show "page_ok (Page n)" by (simp add: page_ok_def)
  have "\<not> bit (p4_index (Page n)) 8" using b [of 35] by (auto simp: p4_index_def bit_simps)
  moreover have "bit (511 :: usize) 8" by simp
  ultimately show "p4_index (Page n) \<noteq> 511" by metis
qed

lemma low_frame_ok: "low_frame f \<Longrightarrow> frame_ok f"
  by (simp add: low_frame_def frame_ok_bound word_less_nat_alt)

lemma identity_map_low:
  assumes "low_frame f"
  shows "identity_map f flags s = map_to (identity_page f) f flags s"
proof -
  have n: "frame_number f < 0x800000000" using assms by (simp add: low_frame_def)
  have "unat (frame_number f) < 2 ^ 52" using n by (simp add: word_less_nat_alt)
  moreover have "is_canonical (push_bit 12 (frame_number f))" using low_page_ok(1) [OF n] by (simp add: page_ok_def)
  ultimately show ?thesis
    using low_page_ok(3) [OF n]
    by (simp add: identity_map_def frame_start_address_def mult_PAGE_SIZE page_containing_address_def
        div_PAGE_SIZE identity_page_def)
qed

interpretation identity_loop: page_loop "\<lambda>(f, fl). identity_map_ignore fl f" "\<lambda>(f, _). identity_page f"
  "\<lambda>(f, fl). low_frame f \<and> flags_ok fl" "\<lambda>(f, fl) A F w. F = f \<and> w = bit fl 1"
proof unfold_locales
  fix s T and x :: "Frame \<times> EntryFlags"
  obtain f fl where x: "x = (f, fl)" by (cases x)
  assume "pt_wf s T" "mappable s T (case x of (f, _) \<Rightarrow> identity_page f)"
    "p4_index (case x of (f, _) \<Rightarrow> identity_page f) \<noteq> 511" "4 \<le> card (free_now s)"
    "case x of (f, fl) \<Rightarrow> low_frame f \<and> flags_ok fl"
  then have "low_frame f" "\<exists>s'. map_to (identity_page f) f fl s = Inr (MapperFlush (identity_page f), s')
      \<and> mapped_page s T (identity_page f) f (bit fl 1) s'"
    using map_to_mapped_page [of s T "identity_page f" f fl] low_frame_ok by (auto simp: x)
  then show "\<exists>F w s'. (case x of (f, fl) \<Rightarrow> identity_map_ignore fl f) s = Inr s'
      \<and> (case x of (f, fl) \<Rightarrow> \<lambda>A F w. F = f \<and> w = bit fl 1) (free_now s) F w
      \<and> mapped_page s T (case x of (f, _) \<Rightarrow> identity_page f) F w s'"
    by (auto simp: x identity_map_ignore_def identity_map_low)
qed auto

text \<open>The indices give the lower 36 bits of a page number, so pages of the lower half are told apart by them.\<close>

lemma page_path_bits:
  assumes "page_path (Page n) = page_path (Page m)" and "b < 36"
  shows "bit n b = bit m b"
proof -
  have idx: "bit n (9 * i + j) = bit m (9 * i + j)" if "i < 4" "j < 9" for i j
  proof -
    have "take_bit 9 (drop_bit (9 * i) n) = take_bit 9 (drop_bit (9 * i) m)"
      using assms(1) that(1)
      by (auto simp: page_path_def p4_index_def p3_index_def p2_index_def p1_index_def mask_9
          take_bit_eq_mask [symmetric] less_Suc_eq numeral_eq_Suc)
    then have "bit (take_bit 9 (drop_bit (9 * i) n)) j = bit (take_bit 9 (drop_bit (9 * i) m)) j" by simp
    with that(2) show ?thesis by (simp add: bit_simps)
  qed
  from idx [of "b div 9" "b mod 9"] assms(2) show ?thesis by simp
qed

lemma page_path_low_inj:
  assumes "page_path (Page n) = page_path (Page m)" and "n < 0x800000000" "m < 0x800000000"
  shows "n = m"
proof -
  have low: "bit k b \<Longrightarrow> b < 35" if "k < 0x800000000" for k :: usize and b
  proof -
    have "take_bit 35 k = k"
      using that by (simp add: word_unat_eq_iff unsigned_take_bit_eq take_bit_nat_eq_self_iff word_less_nat_alt)
    then show "bit k b \<Longrightarrow> b < 35" by (metis bit_take_bit_iff)
  qed
  have "bit n b = bit m b" for b
    using page_path_bits [OF assms(1), of b] low [OF assms(2), of b] low [OF assms(3), of b] by (cases "b < 36") auto
  then show ?thesis by (intro bit_word_eqI) blast
qed

end
