(* ===== verification/Bytes.thy ===== *)
theory Bytes
  imports Prelude
begin

text \<open>
  Numbers as bytes with the low byte first, the way packed structures of the firmware and of the
  devices hold them in memory.
\<close>

definition le_bytes :: "nat \<Rightarrow> 'a::len word \<Rightarrow> u8 list" where
  "le_bytes n w = map (\<lambda>k. ucast (drop_bit (8 * k) w)) [0 ..< n]"

fun of_le :: "u8 list \<Rightarrow> 'a::len word" where
  "of_le [] = 0"
| "of_le (b # bs) = ucast b OR push_bit 8 (of_le bs)"

lemma le_bytes_length [simp]: "length (le_bytes n w) = n"
  by (simp add: le_bytes_def)

lemma le_bytes_Suc: "le_bytes (Suc n) w = ucast w # le_bytes n (drop_bit 8 w)"
  unfolding le_bytes_def upt_conv_Cons [OF zero_less_Suc] map_Suc_upt [symmetric] by (simp add: comp_def add.commute)

lemma of_le_bytes: "of_le (le_bytes n (w :: 'a::len word)) = take_bit (8 * n) w"
proof (induction n arbitrary: w)
  case (Suc n)
  show ?case
    unfolding le_bytes_Suc of_le.simps Suc.IH
    by (rule bit_word_eqI) (auto simp: bit_simps)
qed (simp add: le_bytes_def)

lemma of_le_bytes_full: "8 * n = LENGTH('a::len) \<Longrightarrow> of_le (le_bytes n w) = (w :: 'a word)"
  by (simp add: of_le_bytes take_bit_word_eq_self)

lemma bit_of_le:
  "bit (of_le bs :: 'a::len word) i \<longleftrightarrow> i < LENGTH('a) \<and> i < 8 * length bs \<and> bit (bs ! (i div 8)) (i mod 8)"
proof (induction bs arbitrary: i)
  case (Cons b bs)
  show ?case
  proof (cases "i < 8")
    case True
    then show ?thesis by (simp add: bit_simps)
  next
    case False
    then obtain j where i: "i = j + 8" by (metis add.commute le_Suc_ex not_less)
    have "\<not> bit b i" using False bit_imp_le_length [of b i] by auto
    moreover have "(j + 8) div 8 = Suc (j div 8)" by simp
    ultimately show ?thesis using Cons.IH [of j] by (simp add: bit_simps i) auto
  qed
qed simp

lemma ucast_of_le: "LENGTH('b) \<le> LENGTH('a) \<Longrightarrow> ucast (of_le bs :: 'a::len word) = (of_le bs :: 'b::len word)"
  by (rule bit_word_eqI) (auto simp: bit_simps bit_of_le)

end
