(* ===== verification/Acpi.thy ===== *)
theory Acpi
  imports Devices Map_Loops Bytes
begin

text \<open>
  The search for the ACPI tables and the set-up of the interrupt controllers they describe:
  \<^verbatim>\<open>acpi/rsdp.rs\<close>, \<^verbatim>\<open>sdt.rs\<close>, \<^verbatim>\<open>rsdt.rs\<close>, \<^verbatim>\<open>xsdt.rs\<close>, \<^verbatim>\<open>madt.rs\<close>, \<^verbatim>\<open>mod.rs\<close> and \<^verbatim>\<open>device/apic.rs\<close>.
  The tables are bytes in memory, read through the MMU; a pointer to a table is its address. The
  firmware's memory, the \<^verbatim>\<open>IA32_APIC_BASE\<close> register, the processor's features and the capacity
  behaviour of the \<^verbatim>\<open>heapless\<close> vectors are inputs.

  The functions of \<^verbatim>\<open>device/apic.rs\<close> that should access the controllers' registers take the address
  of a temporary that holds the register's address: the model follows the source, so they read
  and write that temporary. An entry of the controller table is copied out when it is read; the source keeps a
  reference to it and reads its fields later, from memory nobody writes.
\<close>

section \<open>Bytes in memory\<close>

definition read8 :: "vm \<Rightarrow> usize \<Rightarrow> u8 res" where
  "read8 s a = rbind (vm_read s a) (\<lambda>w. Inr (ucast (drop_bit (8 * unat (a AND 7)) w)))"

fun read_bytes :: "vm \<Rightarrow> usize \<Rightarrow> nat \<Rightarrow> u8 list res" where
  "read_bytes s a 0 = Inr []"
| "read_bytes s a (Suc n) = rbind (read8 s a) (\<lambda>b. rbind (read_bytes s (a + 1) n) (\<lambda>bs. Inr (b # bs)))"

text \<open>A number of \<open>n\<close> bytes.\<close>

definition read_le :: "vm \<Rightarrow> usize \<Rightarrow> nat \<Rightarrow> u64 res" where
  "read_le s a n = rbind (read_bytes s a n) (\<lambda>bs. Inr (of_le bs))"

definition read32 :: "vm \<Rightarrow> usize \<Rightarrow> u32 res" where
  "read32 s a = rbind (read_le s a 4) (\<lambda>v. Inr (ucast v))"

section \<open>The root pointer\<close>

record RsdpDescriptor =
  rsdp_signature :: "u8 list"
  rsdp_checksum :: u8
  rsdp_oem_id :: "u8 list"
  rsdp_revision :: u8
  rsdt_address :: u32
  rsdp_length :: u32
  xsdt_address :: u64
  rsdp_extended_checksum :: u8
  rsdp_reserved :: "u8 list"

definition read_rsdp :: "vm \<Rightarrow> usize \<Rightarrow> RsdpDescriptor res" where
  "read_rsdp s a =
     rbind (read_bytes s a 8) (\<lambda>sig.
     rbind (read8 s (a + 8)) (\<lambda>ck.
     rbind (read_bytes s (a + 9) 6) (\<lambda>oem.
     rbind (read8 s (a + 15)) (\<lambda>rev.
     rbind (read32 s (a + 16)) (\<lambda>rsdt.
     rbind (read32 s (a + 20)) (\<lambda>len.
     rbind (read_le s (a + 24) 8) (\<lambda>xsdt.
     rbind (read8 s (a + 32)) (\<lambda>eck.
     rbind (read_bytes s (a + 33) 3) (\<lambda>resv.
     Inr \<lparr>rsdp_signature = sig, rsdp_checksum = ck, rsdp_oem_id = oem, rsdp_revision = rev, rsdt_address = rsdt,
          rsdp_length = len, xsdt_address = xsdt, rsdp_extended_checksum = eck, rsdp_reserved = resv\<rparr>)))))))))"

definition RSD_PTR :: "u8 list" where
  "RSD_PTR = [0x52, 0x53, 0x44, 0x20, 0x50, 0x54, 0x52, 0x20]"

fun rsdp_search_loop :: "hw \<Rightarrow> vm \<Rightarrow> usize \<Rightarrow> usize list \<Rightarrow> 'a io_scheme \<Rightarrow> (RsdpDescriptor option \<times> 'a io_scheme) res" where
  "rsdp_search_loop hw s start_addr [] l = Inr (None, l)"
| "rsdp_search_loop hw s start_addr (i # is) l =
     rbind (checked_mul i 16) (\<lambda>o16.
     rbind (checked_add start_addr o16) (\<lambda>rsdp.
     rbind (read_bytes s rsdp 8) (\<lambda>sig.
     if sig = RSD_PTR then
       rbind (println hw (''[ acpi ] Found RSDP at '' @ fmt_alternate_hex rsdp) l) (\<lambda>l.
       rbind (read_rsdp s rsdp) (\<lambda>r. Inr (Some r, l)))
     else rsdp_search_loop hw s start_addr is l)))"

definition rsdp_search :: "hw \<Rightarrow> vm \<Rightarrow> usize \<Rightarrow> usize \<Rightarrow> 'a io_scheme \<Rightarrow> (RsdpDescriptor option \<times> 'a io_scheme) res" where
  "rsdp_search hw s start_addr end_addr l =
     rbind (checked_add end_addr 1) (\<lambda>e.
     rbind (checked_sub e start_addr) (\<lambda>n.
     rsdp_search_loop hw s start_addr (map of_nat [0 ..< unat (n div 16)]) l))"

definition map_frame_flush :: "EntryFlags \<Rightarrow> Frame \<Rightarrow> vm \<Rightarrow> vm res" where
  "map_frame_flush flags frame s =
     rbind (frame_start_address frame) (\<lambda>a.
     rbind (page_containing_address (VirtualAddress (pa_get a))) (\<lambda>page.
     rbind (map_to page frame flags s) (\<lambda>(res, s).
     mapper_flush res s)))"

definition rsdp_sdt :: "RsdpDescriptor \<Rightarrow> usize" where
  "rsdp_sdt self = (if rsdp_revision self \<ge> 2 then xsdt_address self else ucast (rsdt_address self))"

section \<open>Table headers\<close>

definition SDT_HEADER_SIZE :: usize where
  "SDT_HEADER_SIZE = 36"

definition sdt_signature :: "vm \<Rightarrow> usize \<Rightarrow> u8 list res" where
  "sdt_signature s sdt = read_bytes s sdt 4"

definition sdt_length :: "vm \<Rightarrow> usize \<Rightarrow> u32 res" where
  "sdt_length s sdt = read32 s (sdt + 4)"

definition data_address :: "usize \<Rightarrow> usize res" where
  "data_address sdt = checked_add sdt SDT_HEADER_SIZE"

definition data_len :: "vm \<Rightarrow> usize \<Rightarrow> usize res" where
  "data_len s sdt =
     rbind (sdt_length s sdt) (\<lambda>l.
     let total_size = ucast l in
     if total_size \<ge> SDT_HEADER_SIZE then checked_sub total_size SDT_HEADER_SIZE else Inr 0)"

definition map_if_unmapped :: "Page \<Rightarrow> vm \<Rightarrow> vm res" where
  "map_if_unmapped page s =
     rbind (translate_page s page) (\<lambda>t.
     if t = None then
       rbind (page_start_address page) (\<lambda>a.
       let frame = frame_containing_address (PhysicalAddress (va_get a)) in
       rbind (map_to page frame (PRESENT OR NO_EXECUTE) s) (\<lambda>(result, s).
       mapper_flush result s))
     else Inr s)"

definition get_sdt :: "usize \<Rightarrow> vm \<Rightarrow> (usize \<times> vm) res" where
  "get_sdt address s =
     rbind (page_containing_address (VirtualAddress address)) (\<lambda>page.
     rbind (map_if_unmapped page s) (\<lambda>s.
     let sdt = address in
     rbind (checked_add address 4096) (\<lambda>a.
     rbind (page_containing_address (VirtualAddress a)) (\<lambda>start_page.
     rbind (sdt_length s sdt) (\<lambda>l.
     rbind (checked_add address (ucast l)) (\<lambda>e.
     rbind (page_containing_address (VirtualAddress e)) (\<lambda>end_page.
     rbind (pages_of (page_range_inclusive start_page end_page)) (\<lambda>pages.
     rbind (rfold map_if_unmapped pages s) (\<lambda>s.
     Inr (sdt, s))))))))))"

section \<open>The root tables\<close>

record Rsdt =
  rsdt_sdt :: usize
  entries_address :: usize
  entries_len :: nat

record Madt =
  madt_sdt :: usize
  madt_address :: u32
  madt_flags :: u32

datatype TableType = MadtTable Madt | Facp | Hpet

definition SIG_RSDT :: "u8 list" where "SIG_RSDT = [0x52, 0x53, 0x44, 0x54]"
definition SIG_XSDT :: "u8 list" where "SIG_XSDT = [0x58, 0x53, 0x44, 0x54]"
definition SIG_APIC :: "u8 list" where "SIG_APIC = [0x41, 0x50, 0x49, 0x43]"

text \<open>The slices of a table's data: \<^verbatim>\<open>SdtHeader::data\<close> its bytes, \<^verbatim>\<open>Rsdt::data\<close> its 32-bit entries, as address and length.\<close>

definition sdt_data :: "vm \<Rightarrow> usize \<Rightarrow> (usize \<times> nat) res" where
  "sdt_data s sdt = rbind (data_address sdt) (\<lambda>a. rbind (data_len s sdt) (\<lambda>l. Inr (a, unat l)))"

definition rsdt_data :: "vm \<Rightarrow> usize \<Rightarrow> (usize \<times> nat) res" where
  "rsdt_data s sdt = rbind (data_address sdt) (\<lambda>a. rbind (data_len s sdt) (\<lambda>l. Inr (a, unat (l div 4))))"

definition rsdt_new :: "vm \<Rightarrow> usize \<Rightarrow> Rsdt res" where
  "rsdt_new s sdt =
     rbind (sdt_signature s sdt) (\<lambda>sig.
     if sig = SIG_RSDT then
       rbind (rsdt_data s sdt) (\<lambda>(a, n).
       Inr \<lparr>rsdt_sdt = sdt, entries_address = a, entries_len = n\<rparr>)
     else Inl (Panic ''Non-matching signature, aborting ...''))"

definition xsdt_new :: "vm \<Rightarrow> usize \<Rightarrow> usize option res" where
  "xsdt_new s sdt =
     rbind (sdt_signature s sdt) (\<lambda>sig. Inr (if sig = SIG_XSDT then Some sdt else None))"

definition madt_new :: "vm \<Rightarrow> usize \<Rightarrow> Madt res" where
  "madt_new s sdt =
     rbind (data_address sdt) (\<lambda>a.
     rbind (read32 s a) (\<lambda>local_address.
     rbind (read32 s (a + 4)) (\<lambda>flags.
     Inr \<lparr>madt_sdt = sdt, madt_address = local_address, madt_flags = flags\<rparr>)))"

fun find_sdt_loop :: "vm \<Rightarrow> u8 list \<Rightarrow> usize list \<Rightarrow> TableType option res" where
  "find_sdt_loop s signature [] = Inr None"
| "find_sdt_loop s signature (i # is) =
     rbind (read32 s i) (\<lambda>p.
     let sdt = ucast p in
     rbind (sdt_signature s sdt) (\<lambda>sig.
     if sig \<noteq> signature then find_sdt_loop s signature is
     else if signature = SIG_APIC then rbind (madt_new s sdt) (\<lambda>m. Inr (Some (MadtTable m)))
     else Inr None))"

definition find_sdt :: "vm \<Rightarrow> Rsdt \<Rightarrow> u8 list \<Rightarrow> TableType option res" where
  "find_sdt s self signature =
     find_sdt_loop s signature (map (\<lambda>k. entries_address self + 4 * of_nat k) [0 ..< entries_len self])"

section \<open>The entries of the interrupt controller table\<close>

record LapicEntry =
  lapic_processor_id :: u8
  lapic_id :: u8
  lapic_flags :: u32

record IoApicEntry =
  io_apic_id :: u8
  io_apic_address :: u32
  gsib :: u32

record InterruptSourceOverride =
  bus_source :: u8
  irq_source :: u8
  gsi :: u32
  iso_flags :: u16

record ApicNMI =
  nmi_processor_id :: u8
  nmi_flags :: u16
  lint_no :: u8

datatype MadtEntry =
    Lapic LapicEntry
  | InvalidLapic usize
  | IoApic IoApicEntry
  | InvalidIoApic usize
  | Iso InterruptSourceOverride
  | InvalidIso usize
  | Nmi ApicNMI
  | InvalidNmi usize
  | Unknown u8

definition read_lapic :: "vm \<Rightarrow> usize \<Rightarrow> MadtEntry res" where
  "read_lapic s a =
     rbind (read8 s a) (\<lambda>p. rbind (read8 s (a + 1)) (\<lambda>i. rbind (read32 s (a + 2)) (\<lambda>f.
     Inr (Lapic \<lparr>lapic_processor_id = p, lapic_id = i, lapic_flags = f\<rparr>))))"

definition read_io_apic :: "vm \<Rightarrow> usize \<Rightarrow> MadtEntry res" where
  "read_io_apic s a =
     rbind (read8 s a) (\<lambda>i. rbind (read32 s (a + 2)) (\<lambda>ad. rbind (read32 s (a + 6)) (\<lambda>g.
     Inr (IoApic \<lparr>io_apic_id = i, io_apic_address = ad, gsib = g\<rparr>))))"

definition read_iso :: "vm \<Rightarrow> usize \<Rightarrow> MadtEntry res" where
  "read_iso s a =
     rbind (read8 s a) (\<lambda>b. rbind (read8 s (a + 1)) (\<lambda>i. rbind (read32 s (a + 2)) (\<lambda>g.
     rbind (read_le s (a + 6) 2) (\<lambda>f.
     Inr (Iso \<lparr>bus_source = b, irq_source = i, gsi = g, iso_flags = ucast f\<rparr>)))))"

definition read_nmi :: "vm \<Rightarrow> usize \<Rightarrow> MadtEntry res" where
  "read_nmi s a =
     rbind (read8 s a) (\<lambda>p. rbind (read_le s (a + 1) 2) (\<lambda>f. rbind (read8 s (a + 3)) (\<lambda>l.
     Inr (Nmi \<lparr>nmi_processor_id = p, nmi_flags = ucast f, lint_no = l\<rparr>))))"

record MadtIter =
  mi_sdt :: usize
  mi_i :: usize

definition madt_iter :: "Madt \<Rightarrow> MadtIter" where
  "madt_iter self = \<lparr>mi_sdt = madt_sdt self, mi_i = 8\<rparr>"

text \<open>The packed entries have 6, 10, 8 and 4 bytes behind the two bytes of type and length.\<close>

definition madt_item :: "vm \<Rightarrow> u8 \<Rightarrow> usize \<Rightarrow> usize \<Rightarrow> MadtEntry res" where
  "madt_item s ty len a =
     (if ty = 0 then if len = 6 + 2 then read_lapic s a else Inr (InvalidLapic len)
      else if ty = 1 then if len = 10 + 2 then read_io_apic s a else Inr (InvalidIoApic len)
      else if ty = 2 then if len = 8 + 2 then read_iso s a else Inr (InvalidIso len)
      else if ty = 4 then if len = 4 + 2 then read_nmi s a else Inr (InvalidNmi len)
      else Inr (Unknown ty))"

definition madt_next :: "hw \<Rightarrow> vm \<Rightarrow> MadtIter \<Rightarrow> 'a io_scheme \<Rightarrow> (MadtEntry option \<times> MadtIter \<times> 'a io_scheme) res" where
  "madt_next hw s it l =
     rbind (checked_add (mi_i it) 1) (\<lambda>i1.
     rbind (data_len s (mi_sdt it)) (\<lambda>dl.
     if i1 < dl then
       rbind (data_address (mi_sdt it)) (\<lambda>da.
       rbind (read8 s (da + mi_i it)) (\<lambda>ty.
       rbind (read8 s (da + mi_i it + 1)) (\<lambda>len8.
       let len = ucast len8 in
       rbind (checked_add (mi_i it) len) (\<lambda>e.
       if e \<le> dl then
         rbind (checked_add da (mi_i it)) (\<lambda>x.
         rbind (checked_add x 2) (\<lambda>a.
         rbind (madt_item s ty len a) (\<lambda>item.
         rbind (println hw (''[ acpi ] MADT entry at address: '' @ fmt_alternate_hex a) l) (\<lambda>l.
         Inr (Some item, it\<lparr>mi_i := e\<rparr>, l)))))
       else Inr (None, it, l)))))
     else Inr (None, it, l)))"

section \<open>The interrupt controllers\<close>

record ApicManager =
  lapic_base :: u32
  local_apics :: "LapicEntry list"
  io_apics :: "IoApicEntry list"
  nmis :: "ApicNMI list"
  isos :: "InterruptSourceOverride list"

definition apic_manager_new :: ApicManager where
  "apic_manager_new = \<lparr>lapic_base = 0, local_apics = [], io_apics = [], nmis = [], isos = []\<rparr>"

text \<open>
  \<^verbatim>\<open>&(self.lapic_base + register)\<close> is the address of a temporary that holds the sum: reading it
  returns the sum, writing it is lost.
\<close>

definition lapic_read :: "ApicManager \<Rightarrow> u32 \<Rightarrow> u32 res" where
  "lapic_read self register = checked_add (lapic_base self) register"

definition lapic_write :: "ApicManager \<Rightarrow> u32 \<Rightarrow> u32 \<Rightarrow> unit res" where
  "lapic_write self register v = rbind (checked_add (lapic_base self) register) (\<lambda>_. Inr ())"

text \<open>The literal \<^verbatim>\<open>800\<close> is a \<^verbatim>\<open>u8\<close> here, that is \<open>0x20\<close>.\<close>

definition lapic_nmi_value :: "u8 \<Rightarrow> u16 \<Rightarrow> u32" where
  "lapic_nmi_value vec flags =
     (let nmi = ucast (word_of_int 800 OR vec);
          nmi = (if flags AND 2 \<noteq> 0 then nmi OR push_bit 13 1 else nmi)
      in if flags AND 8 \<noteq> 0 then nmi OR push_bit 15 1 else nmi)"

definition lapic_set_nmi :: "hw \<Rightarrow> ApicManager \<Rightarrow> u8 \<Rightarrow> u16 \<Rightarrow> u8 \<Rightarrow> 'a io_scheme \<Rightarrow> 'a io_scheme res" where
  "lapic_set_nmi hw self vec flags lint l =
     (let nmi = lapic_nmi_value vec flags in
      rbind (println hw (''[ dev ] Setting NMI, '' @ fmt_alternate_hex nmi) l) (\<lambda>l.
      rbind (if lint = 1 then lapic_write self 0x360 nmi
             else if lint = 0 then lapic_write self 0x350 nmi
             else Inr ()) (\<lambda>_.
      Inr l)))"

definition install_nmi :: "hw \<Rightarrow> ApicManager \<Rightarrow> nat \<times> ApicNMI \<Rightarrow> 'a io_scheme \<Rightarrow> 'a io_scheme res" where
  "install_nmi hw self = (\<lambda>(i, nmi) l.
     rbind (checked_add 0x90 (of_nat i)) (\<lambda>offset.
     rbind (println hw (''[ dev ] Installing NMI '' @ fmt_display (of_nat i :: usize) @ '', vector offset: ''
       @ fmt_alternate_hex (offset :: usize)) l) (\<lambda>l.
     rbind (println hw (''[ dev ] NMI has flags: '' @ fmt_display (nmi_flags nmi) @ '', using register LVT''
       @ fmt_display (lint_no nmi)) l) (\<lambda>l.
     rbind (checked_add 0x90 (of_nat i)) (\<lambda>vec. lapic_set_nmi hw self vec (nmi_flags nmi) (lint_no nmi) l)))))"

definition install_nmis :: "hw \<Rightarrow> ApicManager \<Rightarrow> 'a io_scheme \<Rightarrow> 'a io_scheme res" where
  "install_nmis hw self l = rfold (install_nmi hw self) (enumerate 0 (nmis self)) l"

definition lapic_enable :: "ApicManager \<Rightarrow> unit res" where
  "lapic_enable self = rbind (lapic_read self 0xf0) (\<lambda>r. lapic_write self 0xf0 (r OR (0x100 OR 0xff)))"

definition io_apic_read :: "ApicManager \<Rightarrow> u32 \<Rightarrow> nat \<Rightarrow> u32 res" where
  "io_apic_read self reg num =
     rbind (rnth (io_apics self) num) (\<lambda>a.
     let addr = io_apic_address a;
         addr = reg in
     checked_add addr 4)"

definition io_apic_write :: "ApicManager \<Rightarrow> u32 \<Rightarrow> nat \<Rightarrow> u32 \<Rightarrow> unit res" where
  "io_apic_write self reg num data =
     rbind (rnth (io_apics self) num) (\<lambda>a.
     let addr = io_apic_address a;
         addr = reg in
     rbind (checked_add addr 4) (\<lambda>_. Inr ()))"

definition get_max_redirect :: "ApicManager \<Rightarrow> nat \<Rightarrow> u32 res" where
  "get_max_redirect self num =
     rbind (io_apic_read self 1 num) (\<lambda>v. Inr (drop_bit 16 (v AND 0xff0000)))"

fun io_apic_from_gsi_loop :: "ApicManager \<Rightarrow> u32 \<Rightarrow> (nat \<times> IoApicEntry) list \<Rightarrow> nat option res" where
  "io_apic_from_gsi_loop self g [] = Inr None"
| "io_apic_from_gsi_loop self g ((i, apic) # rest) =
     (if gsib apic < g then
        rbind (get_max_redirect self i) (\<lambda>m.
        rbind (checked_add (gsib apic) m) (\<lambda>e.
        if e > g then Inr (Some i) else io_apic_from_gsi_loop self g rest))
      else io_apic_from_gsi_loop self g rest)"

definition io_apic_from_gsi :: "ApicManager \<Rightarrow> u32 \<Rightarrow> nat option res" where
  "io_apic_from_gsi self g = io_apic_from_gsi_loop self g (enumerate 0 (io_apics self))"

definition redirection :: "u8 \<Rightarrow> u16 \<Rightarrow> u8 \<Rightarrow> u64" where
  "redirection irq flags i =
     (let r = ucast irq + 0x30;
          r = (if flags AND 2 \<noteq> 0 then r OR push_bit 13 1 else if flags AND 8 \<noteq> 0 then r OR push_bit 15 1 else r)
      in r OR push_bit 56 (ucast i))"

definition set_redirect :: "hw \<Rightarrow> ApicManager \<Rightarrow> u8 \<Rightarrow> u32 \<Rightarrow> u16 \<Rightarrow> u8 \<Rightarrow> 'a io_scheme \<Rightarrow> 'a io_scheme res" where
  "set_redirect hw self irq g flags i l =
     rbind (io_apic_from_gsi self g) (\<lambda>apic.
     case apic of
       None \<Rightarrow> println hw (''[ apic ] Error: Could not find an I/O APIC that handles GSI: '' @ fmt_display g) l
     | Some io_apic \<Rightarrow>
         rbind (rnth (io_apics self) io_apic) (\<lambda>a.
         rbind (checked_sub g (gsib a)) (\<lambda>d.
         rbind (checked_mul d 2) (\<lambda>d2.
         rbind (checked_add d2 16) (\<lambda>ioredtbl.
         rbind (println hw (''[ dev ] Redirecting IRQ '' @ fmt_display irq @ '', redirection data: ''
           @ fmt_display (redirection irq flags i)) l) (\<lambda>l.
         rbind (io_apic_write self ioredtbl io_apic (ucast (redirection irq flags i))) (\<lambda>_.
         rbind (checked_add ioredtbl 1) (\<lambda>ioredtbl1.
         rbind (io_apic_write self ioredtbl1 io_apic (ucast (redirection irq flags i))) (\<lambda>_.
         Inr l)))))))))"

definition install_redirects :: "hw \<Rightarrow> ApicManager \<Rightarrow> 'a io_scheme \<Rightarrow> 'a io_scheme res" where
  "install_redirects hw self l =
     rfold (\<lambda>iso l. rbind (rnth (local_apics self) 0) (\<lambda>apic.
       set_redirect hw self (irq_source iso) (gsi iso) (iso_flags iso) (lapic_id apic) l)) (isos self) l"

definition apic_manager_eoi :: "ApicManager \<Rightarrow> unit res" where
  "apic_manager_eoi self = lapic_write self 0xb0 0"

definition apic_eoi :: "ApicManager option \<Rightarrow> unit res" where
  "apic_eoi m = (case m of Some apic_manager \<Rightarrow> apic_manager_eoi apic_manager | None \<Rightarrow> Inl (Panic ''apic not initialised''))"

definition map_registers :: "u32 \<Rightarrow> vm \<Rightarrow> vm res" where
  "map_registers address s =
     rbind (page_containing_address (VirtualAddress (ucast address))) (\<lambda>page.
     let frame = frame_containing_address (PhysicalAddress (ucast address)) in
     rbind (map_to page frame (PRESENT OR WRITABLE OR NO_EXECUTE) s) (\<lambda>(result, s).
     mapper_flush result s))"

record platform = io +
  pvm :: vm
  APIC_MANAGER :: "ApicManager option"
  CPUS :: usize

definition rsdp_init :: "hw \<Rightarrow> platform \<Rightarrow> (RsdpDescriptor option \<times> platform) res" where
  "rsdp_init hw p =
     (let rsdp_start = 0xe0000; rsdp_end = 0xfffff;
          start_frame = frame_containing_address (PhysicalAddress rsdp_start);
          end_frame = frame_containing_address (PhysicalAddress rsdp_end) in
      rbind (frames_of (frame_range_inclusive start_frame end_frame)) (\<lambda>frames.
      rbind (rfold (map_frame_flush (PRESENT OR NO_EXECUTE)) frames (pvm p)) (\<lambda>v.
      rsdp_search hw v rsdp_start rsdp_end (p\<lparr>pvm := v\<rparr>))))"

definition report_max_redirect :: "hw \<Rightarrow> ApicManager \<Rightarrow> nat \<Rightarrow> 'a io_scheme \<Rightarrow> 'a io_scheme res" where
  "report_max_redirect hw self i l =
     rbind (get_max_redirect self i) (\<lambda>m. println hw (''Max redirect for this i/o apic is '' @ fmt_display m) l)"

definition apic_init :: "hw \<Rightarrow> platform \<Rightarrow> platform res" where
  "apic_init hw p =
     (case APIC_MANAGER p of
        None \<Rightarrow> Inr p
      | Some apic_manager \<Rightarrow>
          rbind (println hw (''[ dev ] Initialising APIC, lapic base at '' @ fmt_alternate_hex (lapic_base apic_manager)) p) (\<lambda>p.
          rbind (println hw ''[ dev ] Mapping local APIC address space...'' p) (\<lambda>p.
          rbind (rfold (report_max_redirect hw apic_manager) [0 ..< length (io_apics apic_manager)] p) (\<lambda>p.
          rbind (map_registers (lapic_base apic_manager) (pvm p)) (\<lambda>v.
          rbind (rfold (\<lambda>a v. map_registers (io_apic_address a) v) (io_apics apic_manager) v) (\<lambda>v.
          rbind (println hw ''[ dev ] Installing non-maskable interrupts...'' (p\<lparr>pvm := v\<rparr>)) (\<lambda>p.
          rbind (install_nmis hw apic_manager p) (\<lambda>p.
          rbind (println hw ''[ dev ] Installing interrupt source overrides...'' p) (\<lambda>p.
          rbind (install_redirects hw apic_manager p) (\<lambda>p.
          rbind (println hw ''[ dev ] Enabling Local APIC'' p) (\<lambda>p.
          rbind (lapic_enable apic_manager) (\<lambda>_.
          Inr p))))))))))))"

section \<open>Setting up from the tables\<close>

record acpi_env =
  accepts :: "nat \<Rightarrow> nat \<Rightarrow> bool"
  apic_base_msr :: u64
  has_apic :: "bool option"

text \<open>\<^verbatim>\<open>push\<close> of a \<^verbatim>\<open>heapless\<close> vector of the given capacity: \<open>accepts\<close> says whether it takes one more.\<close>

definition static_push :: "acpi_env \<Rightarrow> nat \<Rightarrow> 'x \<Rightarrow> 'x list \<Rightarrow> 'x list res" where
  "static_push env cap x xs =
     (if accepts env cap (length xs) then Inr (xs @ [x])
      else Inl (Panic ''Failed to push element to static vector''))"

text \<open>What the loop does with an enabled or disabled processor before it stores the entry.\<close>

definition found_lapic :: "hw \<Rightarrow> acpi_env \<Rightarrow> LapicEntry \<Rightarrow> usize \<Rightarrow> 'a io_scheme \<Rightarrow> (usize \<times> 'a io_scheme) res" where
  "found_lapic hw env local_apic cpus l =
     (if lapic_flags local_apic AND 1 = 1 then
        rbind (println hw (''[ dev ] Found local APIC, id: '' @ fmt_display (lapic_id local_apic) @ '', processor id: ''
          @ fmt_display (lapic_processor_id local_apic)) l) (\<lambda>l.
        if apic_base_msr env AND push_bit 8 1 = ucast (lapic_id local_apic) then
          rbind (println hw (''[ dev ] Found the BSP local APIC, id: '' @ fmt_display (lapic_id local_apic)) l) (\<lambda>l.
          Inr (cpus, l))
        else Inr (cpus + 1, l))
      else
        rbind (println hw (''Found disabled core, id: '' @ fmt_display (lapic_id local_apic)) l) (\<lambda>l.
        Inr (cpus, l)))"

text \<open>
  The loop over the entries. It ends at the end of the table, or with \<^verbatim>\<open>Madt::init\<close> returning at
  the first entry it does not know (\<open>False\<close>); \<open>None\<close> would be a loop that never ends.
\<close>

partial_function (option) madt_loop ::
  "hw \<Rightarrow> acpi_env \<Rightarrow> vm \<Rightarrow> MadtIter \<Rightarrow> ApicManager \<Rightarrow> usize \<Rightarrow> 'a io_scheme \<Rightarrow> (bool \<times> ApicManager \<times> usize \<times> 'a io_scheme) res option" where
  "madt_loop hw env s it m cpus l =
     (case madt_next hw s it l of
        Inl e \<Rightarrow> Some (Inl e)
      | Inr (None, it, l) \<Rightarrow> Some (Inr (True, m, cpus, l))
      | Inr (Some (Lapic a), it, l) \<Rightarrow>
          (case rbind (found_lapic hw env a cpus l) (\<lambda>(cpus, l). rbind (static_push env 20 a (local_apics m)) (\<lambda>xs. Inr (cpus, xs, l))) of
             Inl e \<Rightarrow> Some (Inl e)
           | Inr (cpus, xs, l) \<Rightarrow> madt_loop hw env s it (m\<lparr>local_apics := xs\<rparr>) cpus l)
      | Inr (Some (IoApic a), it, l) \<Rightarrow>
          (case rbind (println hw (''[ dev ] Found I/O APIC, id: '' @ fmt_display (io_apic_id a) @ '', register base: ''
                  @ fmt_alternate_hex (io_apic_address a) @ '', gsib: '' @ fmt_display (gsib a)) l) (\<lambda>l.
                rbind (static_push env 10 a (io_apics m)) (\<lambda>xs. Inr (xs, l))) of
             Inl e \<Rightarrow> Some (Inl e)
           | Inr (xs, l) \<Rightarrow> madt_loop hw env s it (m\<lparr>io_apics := xs\<rparr>) cpus l)
      | Inr (Some (Iso i), it, l) \<Rightarrow>
          (case rbind (println hw (''[ dev ] Found interrupt source override,'' @ newline # '' overrides IRQ '' @ fmt_display (irq_source i)
                  @ '','' @ newline # '' gsi: '' @ fmt_display (gsi i)) l) (\<lambda>l.
                rbind (static_push env 10 i (isos m)) (\<lambda>xs. Inr (xs, l))) of
             Inl e \<Rightarrow> Some (Inl e)
           | Inr (xs, l) \<Rightarrow> madt_loop hw env s it (m\<lparr>isos := xs\<rparr>) cpus l)
      | Inr (Some (Nmi n), it, l) \<Rightarrow>
          (case rbind (println hw (''[ dev ] APIC NMI with flags: '' @ fmt_display (nmi_flags n) @ '', LINT: ''
                  @ fmt_display (lint_no n)) l) (\<lambda>l.
                rbind (static_push env 10 n (nmis m)) (\<lambda>xs. Inr (xs, l))) of
             Inl e \<Rightarrow> Some (Inl e)
           | Inr (xs, l) \<Rightarrow> madt_loop hw env s it (m\<lparr>nmis := xs\<rparr>) cpus l)
      | Inr (Some _, it, l) \<Rightarrow>
          (case println hw ''[ acpi ] No more MADT entries...'' l of
             Inl e \<Rightarrow> Some (Inl e)
           | Inr l \<Rightarrow> Some (Inr (False, m, cpus, l))))"

definition madt_init :: "hw \<Rightarrow> acpi_env \<Rightarrow> Madt \<Rightarrow> platform \<Rightarrow> platform res" where
  "madt_init hw env self p =
     rbind (returns (madt_loop hw env (pvm p) (madt_iter self) apic_manager_new (CPUS p) p)) (\<lambda>(complete, m, cpus, p).
     let p = p\<lparr>CPUS := cpus\<rparr> in
     if \<not> complete then Inr p
     else
       let m = m\<lparr>lapic_base := madt_address self\<rparr>;
           p = p\<lparr>APIC_MANAGER := Some m\<rparr> in
       rbind (pics_init hw PICS p) (\<lambda>p.
       rbind (rexpect (has_apic env) ''unwrap'') (\<lambda>b.
       rbind (if b then apic_init hw p else Inr p) (\<lambda>p.
       println hw (''[ smp ] Found '' @ fmt_display (CPUS p) @ '' APs'') p))))"

definition acpi_init :: "hw \<Rightarrow> acpi_env \<Rightarrow> platform \<Rightarrow> platform res" where
  "acpi_init hw env p =
     rbind (rsdp_init hw p) (\<lambda>(r, p).
     rbind (rexpect r ''Could not find rsdp, aborting ...'') (\<lambda>rsdp.
     rbind (get_sdt (rsdp_sdt rsdp) (pvm p)) (\<lambda>(sdt, v).
     rbind (rsdt_new v sdt) (\<lambda>rsdt.
     rbind (println hw (''[ apci ] Found RSDT at address '' @ fmt_alternate_hex (rsdt_sdt rsdt)) (p\<lparr>pvm := v\<rparr>)) (\<lambda>p.
     rbind (sdt_length v (rsdt_sdt rsdt)) (\<lambda>l.
     rbind (checked_sub (ucast l) SDT_HEADER_SIZE) (\<lambda>d.
     rbind (println hw (''[ acpi ] RSDT length '' @ fmt_display l @ '', data length '' @ fmt_display d) p) (\<lambda>p.
     rbind (println hw (''[ acpi ] RSDT points to '' @ number_text 10 (entries_len rsdt) @ '' tables'') p) (\<lambda>p.
     rbind (find_sdt v rsdt SIG_APIC) (\<lambda>t.
     case t of
       Some (MadtTable m) \<Rightarrow>
         rbind (println hw (''[ apci ] Found MADT at address '' @ fmt_alternate_hex (madt_sdt m)) p) (\<lambda>p. madt_init hw env m p)
     | _ \<Rightarrow> println hw ''Could not find MADT.'' p))))))))))"

section \<open>The loop over the entries ends\<close>

lemma madt_item_len:
  assumes "madt_item s ty len a = Inr e"
  shows "(case e of Lapic _ \<Rightarrow> len \<noteq> 0 | IoApic _ \<Rightarrow> len \<noteq> 0 | Iso _ \<Rightarrow> len \<noteq> 0 | Nmi _ \<Rightarrow> len \<noteq> 0 | _ \<Rightarrow> True)"
  using assms
  by (auto simp: madt_item_def read_lapic_def read_io_apic_def read_iso_def read_nmi_def res_simps split: if_splits)

lemma madt_next_progress:
  assumes "madt_next hw s it l = Inr (Some e, it', l')"
  shows "(case e of Lapic _ \<Rightarrow> True | IoApic _ \<Rightarrow> True | Iso _ \<Rightarrow> True | Nmi _ \<Rightarrow> True | _ \<Rightarrow> False)
     \<longrightarrow> unat (mi_i it) < unat (mi_i it')"
proof -
  from assms obtain ty len a where e: "madt_item s ty len a = Inr e"
    and it': "mi_i it' = mi_i it + len" and b: "unat (mi_i it) + unat len < 2 ^ 64"
    by (auto simp: madt_next_def res_simps Let_def split: if_splits)
  then have "unat (mi_i it') = unat (mi_i it) + unat len" by (simp add: unat_add_small)
  moreover have "len \<noteq> 0 \<Longrightarrow> 0 < unat len" by (simp add: unat_gt_0)
  ultimately show ?thesis using madt_item_len [OF e] by (cases e) auto
qed

lemma madt_loop_returns:
  fixes l :: "'a io_scheme"
  shows "\<exists>r. madt_loop hw env s it m cpus l = Some r"
proof (induction "2 ^ 64 - unat (mi_i it)" arbitrary: it m cpus l rule: less_induct)
  case less
  show ?case
  proof (cases "madt_next hw s it l")
    case (Inl e)
    then show ?thesis by (simp add: madt_loop.simps)
  next
    case (Inr p)
    obtain v it' l' where p: "p = (v, it', l')" by (cases p)
    show ?thesis
    proof (cases v)
      case None
      with Inr p show ?thesis by (simp add: madt_loop.simps)
    next
      case (Some e)
      have bound: "unat (mi_i it') < 2 ^ 64" using unat_bound [of "mi_i it'"] by simp
      note prog = madt_next_progress [of hw s it l e it' l']
      have rec: "\<exists>r. madt_loop hw env s it' m' cpus' l1 = Some r" if "unat (mi_i it) < unat (mi_i it')" for m' cpus' and l1 :: "'a io_scheme"
        by (rule less.hyps) (use that bound in linarith)
      show ?thesis
        using Inr p Some prog rec
        by (cases e) (auto simp: madt_loop.simps [of hw env s it] split: sum.splits)
    qed
  qed
qed

section \<open>Messages\<close>

lemma platform_more:
  assumes "io.more p' = io.more (p :: platform)"
  shows "pvm p' = pvm p" "APIC_MANAGER p' = APIC_MANAGER p" "CPUS p' = CPUS p"
  using assms by (cases p, cases p', simp)+

lemmas printed_platform = platform_more [OF printed_more]

definition count_cpu :: "acpi_env \<Rightarrow> LapicEntry \<Rightarrow> usize \<Rightarrow> usize" where
  "count_cpu env local_apic cpus =
     (if lapic_flags local_apic AND 1 = 1 then
        if apic_base_msr env AND push_bit 8 1 = ucast (lapic_id local_apic) then cpus else cpus + 1
      else cpus)"

lemma found_lapic_ok:
  assumes "serial_ready hw COM1"
  shows "\<exists>l'. found_lapic hw env a cpus l = Inr (count_cpu env a cpus, l') \<and> printed l l'"
proof -
  let ?m1 = "''[ dev ] Found local APIC, id: '' @ fmt_display (lapic_id a) @ '', processor id: '' @ fmt_display (lapic_processor_id a)"
  obtain l1 where 1: "println hw ?m1 l = Inr l1" "printed l l1" by (rule println_printed [OF assms])
  obtain l2 where 2: "println hw (''[ dev ] Found the BSP local APIC, id: '' @ fmt_display (lapic_id a)) l1 = Inr l2" "printed l1 l2"
    by (rule println_printed [OF assms])
  obtain l3 where 3: "println hw (''Found disabled core, id: '' @ fmt_display (lapic_id a)) l = Inr l3" "printed l l3"
    by (rule println_printed [OF assms])
  show ?thesis
    using 1 2 3 printed_trans [OF 1(2) 2(2)] by (simp add: found_lapic_def count_cpu_def)
qed

section \<open>Redirections\<close>

lemma get_max_redirect_zero: "i < length (io_apics m) \<Longrightarrow> get_max_redirect m i = Inr 0"
  by (simp add: get_max_redirect_def io_apic_read_def rnth_def checked_add_def)

lemma from_gsi_loop_none:
  "\<forall>(i, a) \<in> set xs. i < length (io_apics m) \<Longrightarrow> io_apic_from_gsi_loop m g xs = Inr None"
  by (induction xs) (auto simp: get_max_redirect_zero)

lemma io_apic_from_gsi_none: "io_apic_from_gsi m g = Inr None"
  unfolding io_apic_from_gsi_def by (rule from_gsi_loop_none) (auto simp: in_set_enumerate_eq)

section \<open>Searching the root pointer\<close>

lemma rsdp_search_loop_none:
  assumes "rsdp_search_loop hw s a is l = Inr (None, l')"
  shows "(\<forall>i \<in> set is. \<exists>sig. read_bytes s (a + i * 16) 8 = Inr sig \<and> sig \<noteq> RSD_PTR) \<and> l' = l"
  using assms by (induction hw s a "is" l rule: rsdp_search_loop.induct) (auto simp: res_simps split: if_splits)

lemma rsdp_search_loop_some:
  assumes "rsdp_search_loop hw s a is l = Inr (Some r, l')"
  shows "\<exists>pre i post. is = pre @ i # post \<and> read_rsdp s (a + i * 16) = Inr r \<and> rsdp_signature r = RSD_PTR
     \<and> (\<forall>j \<in> set pre. read_bytes s (a + j * 16) 8 \<noteq> Inr RSD_PTR)
     \<and> println hw (''[ acpi ] Found RSDP at '' @ fmt_alternate_hex (a + i * 16)) l = Inr l'"
  using assms
proof (induction hw s a "is" l rule: rsdp_search_loop.induct)
  case (2 hw s a i "is" l)
  from 2(2) obtain sig where sig: "checked_mul i 16 = Inr (i * 16)" "checked_add a (i * 16) = Inr (a + i * 16)"
    "read_bytes s (a + i * 16) 8 = Inr sig"
    "if sig = RSD_PTR then println hw (''[ acpi ] Found RSDP at '' @ fmt_alternate_hex (a + i * 16)) l = Inr l'
       \<and> read_rsdp s (a + i * 16) = Inr r
     else rsdp_search_loop hw s a is l = Inr (Some r, l')"
    by (auto simp: res_simps split: if_splits)
  show ?case
  proof (cases "sig = RSD_PTR")
    case True
    with sig have r: "read_rsdp s (a + i * 16) = Inr r"
      "println hw (''[ acpi ] Found RSDP at '' @ fmt_alternate_hex (a + i * 16)) l = Inr l'" by simp_all
    then have "rsdp_signature r = RSD_PTR" using sig(3) True by (auto simp: read_rsdp_def res_simps)
    with r show ?thesis by (intro exI [of _ "[]"]) auto
  next
    case False
    with sig 2(1) [OF sig(1) sig(2) sig(3) False] obtain pre j post where
      "is = pre @ j # post" "read_rsdp s (a + j * 16) = Inr r" "rsdp_signature r = RSD_PTR"
      "\<forall>k \<in> set pre. read_bytes s (a + k * 16) 8 \<noteq> Inr RSD_PTR"
      "println hw (''[ acpi ] Found RSDP at '' @ fmt_alternate_hex (a + j * 16)) l = Inr l'" by auto
    with False sig(3) show ?thesis by (intro exI [of _ "i # pre"]) auto
  qed
qed simp

text \<open>A machine whose page \<open>0xe0\<close> is identity mapped and starts with a root pointer of revision 0.\<close>

definition acpi_vm :: vm where
  "acpi_vm = \<lparr>pmem = (\<lambda>f i.
       if f = Frame 9 \<and> i = 0 then 0x1003 else if f = Frame 1 \<and> i = 0 then 0x2003
       else if f = Frame 2 \<and> i = 0 then 0x3003 else if f = Frame 3 \<and> i = 0xe0 then 0xe0003
       else if f = Frame 0xe0 \<and> i = 0 then 0x2052545020445352 else 0),
     cr3 = 0x9000, ALLOCATOR = None, tlb_events = []\<rparr>"

section \<open>Properties\<close>

text \<open>
  C35. Reading the interrupt controller table comes to an end, whatever bytes the firmware put
  into it (also with entries of length 0): the loop of \<^verbatim>\<open>Madt::init\<close> returns, panics, or waits for the
  serial port in one of its messages.
\<close>

theorem madt_loop_ends: "\<exists>r. madt_loop hw env s it m cpus l = Some r"
  by (rule madt_loop_returns)

text \<open>
  No interrupt is ever redirected: the register read of an I/O APIC returns the number of the
  register plus 4 instead of the register, so every controller seems to have no redirection
  entry, no controller is found for any interrupt, and \<^verbatim>\<open>set_redirect\<close> only says so.
\<close>

theorem set_redirect_does_nothing:
  "io_apic_from_gsi m g = Inr None
     \<and> set_redirect hw m irq g flags i l
       = println hw (''[ apic ] Error: Could not find an I/O APIC that handles GSI: '' @ fmt_display g) l"
  by (simp add: set_redirect_def io_apic_from_gsi_none)

text \<open>
  The search returns the first descriptor: a descriptor it returns has the signature, is read
  from a 16-byte boundary of the range, no boundary before it has the signature and its address is reported;
  when it returns none, no boundary of the range has the signature and nothing is reported.
\<close>

theorem rsdp_search_first:
  assumes "rsdp_search hw s b e l = Inr (res, l')"
  shows "case res of
       Some r \<Rightarrow> \<exists>k < unat (e + 1 - b) div 16. read_rsdp s (b + of_nat k * 16) = Inr r \<and> rsdp_signature r = RSD_PTR
         \<and> (\<forall>j < k. read_bytes s (b + of_nat j * 16) 8 \<noteq> Inr RSD_PTR)
         \<and> println hw (''[ acpi ] Found RSDP at '' @ fmt_alternate_hex (b + of_nat k * 16)) l = Inr l'
     | None \<Rightarrow> (\<forall>k < unat (e + 1 - b) div 16. read_bytes s (b + of_nat k * 16) 8 \<noteq> Inr RSD_PTR) \<and> l' = l"
proof -
  let ?n = "unat (e + 1 - b) div 16"
  from assms have loop: "rsdp_search_loop hw s b (map of_nat [0 ..< ?n]) l = Inr (res, l')"
    by (auto simp: rsdp_search_def res_simps unat_div)
  show ?thesis
  proof (cases res)
    case None
    have "(\<forall>k < ?n. \<exists>sig. read_bytes s (b + of_nat k * 16) 8 = Inr sig \<and> sig \<noteq> RSD_PTR) \<and> l' = l"
      using rsdp_search_loop_none [of hw s b "map of_nat [0 ..< ?n]" l l'] loop None by simp
    then show ?thesis unfolding None by (auto simp del: read_bytes.simps)
  next
    case (Some r)
    with rsdp_search_loop_some loop obtain pre i post where
      l: "map of_nat [0 ..< ?n] = pre @ i # post" and r: "read_rsdp s (b + i * 16) = Inr r" "rsdp_signature r = RSD_PTR"
      "\<forall>j \<in> set pre. read_bytes s (b + j * 16) 8 \<noteq> Inr RSD_PTR"
      "println hw (''[ acpi ] Found RSDP at '' @ fmt_alternate_hex (b + i * 16)) l = Inr l'" by blast
    let ?k = "length pre"
    have kn: "?k < ?n" using arg_cong [OF l, of length] by simp
    have i: "i = of_nat ?k" using arg_cong [OF l, of "\<lambda>xs. xs ! ?k"] kn by simp
    have pre: "pre = map of_nat [0 ..< ?k]"
      using arg_cong [OF l, of "take ?k"] kn by (simp add: take_map)
    have before: "\<forall>j < ?k. read_bytes s (b + of_nat j * 16) 8 \<noteq> Inr RSD_PTR"
    proof (intro allI impI)
      fix j assume "j < ?k"
      then have "of_nat j \<in> set pre" by (subst pre) simp
      with r(3) show "read_bytes s (b + of_nat j * 16) 8 \<noteq> Inr RSD_PTR" by blast
    qed
    show ?thesis unfolding Some using r(1,2,4) i kn before by (auto intro!: exI [of _ ?k])
  qed
qed

theorem rsdp_search_first_witness:
  "\<exists>r l'. rsdp_search (\<lambda>tr p. 0x20) acpi_vm 0xe0000 0xe001f \<lparr>trace = []\<rparr> = Inr (Some r, l') \<and> rsdp_signature r = RSD_PTR
     \<and> read_rsdp acpi_vm 0xe0000 = Inr r"
proof -
  have n: "unat ((0xe001f :: usize) + 1 - 0xe0000) div 16 = 2" by simp
  obtain l' where l': "println (\<lambda>tr p. 0x20) (''[ acpi ] Found RSDP at '' @ fmt_alternate_hex (0xe0000 :: usize)) \<lparr>trace = []\<rparr> = Inr l'"
    by (rule println_printed [OF example_serial_ready])
  have r: "rsdp_search (\<lambda>tr p. 0x20) acpi_vm 0xe0000 0xe001f \<lparr>trace = []\<rparr> = Inr (Some \<lparr>rsdp_signature = RSD_PTR, rsdp_checksum = 0,
      rsdp_oem_id = [0, 0, 0, 0, 0, 0], rsdp_revision = 0, rsdt_address = 0, rsdp_length = 0, xsdt_address = 0,
      rsdp_extended_checksum = 0, rsdp_reserved = [0, 0, 0]\<rparr>, l')"
  proof -
    have "read_bytes acpi_vm 0xe0000 8 = Inr RSD_PTR" by code_simp
    moreover have "read_rsdp acpi_vm 0xe0000 = Inr \<lparr>rsdp_signature = RSD_PTR, rsdp_checksum = 0,
        rsdp_oem_id = [0, 0, 0, 0, 0, 0], rsdp_revision = 0, rsdt_address = 0, rsdp_length = 0, xsdt_address = 0,
        rsdp_extended_checksum = 0, rsdp_reserved = [0, 0, 0]\<rparr>" by code_simp
    moreover have "map of_nat [0 ..< 2] = [0, 1 :: usize]" by (simp add: upt_rec)
    ultimately show ?thesis
      using l' by (simp add: rsdp_search_def checked_add_def checked_sub_def checked_mul_def)
  qed
  have z: "read_rsdp acpi_vm 0xe0010 \<noteq> Inr r'" if "rsdp_signature r' = RSD_PTR" for r'
  proof -
    have "read_bytes acpi_vm 0xe0010 8 = Inr [0, 0, 0, 0, 0, 0, 0, 0]" by code_simp
    with that show ?thesis by (auto simp: read_rsdp_def RSD_PTR_def res_simps)
  qed
  from rsdp_search_first [OF r] obtain k where k: "k < 2" "read_rsdp acpi_vm (0xe0000 + of_nat k * 16) = Inr
      \<lparr>rsdp_signature = RSD_PTR, rsdp_checksum = 0, rsdp_oem_id = [0, 0, 0, 0, 0, 0], rsdp_revision = 0, rsdt_address = 0,
       rsdp_length = 0, xsdt_address = 0, rsdp_extended_checksum = 0, rsdp_reserved = [0, 0, 0]\<rparr>"
    unfolding n by auto
  with z have "k = 0" by (cases "k = 1") auto
  with k r show ?thesis by auto
qed

end
