(* ===== verification/Stack_Alloc.thy ===== *)
theory Stack_Alloc
  imports Map_Loops
begin

text \<open>
  The stack allocator, \<^verbatim>\<open>arch/x86_64/memory/stack_allocator.rs\<close>, with \<^verbatim>\<open>MemoryController::alloc_stack\<close>
  of \<^verbatim>\<open>memory/mod.rs\<close>: a stack is a guard page that is never mapped, followed by its pages. The
  pages are mapped present but not writable, as the source does.
\<close>

section \<open>State and operations\<close>

record StackAllocator =
  range :: PageIter

record Stack =
  stack_top :: usize
  stack_bottom :: usize

definition stack_allocator_new :: "PageIter \<Rightarrow> StackAllocator" where
  "stack_allocator_new page_range = \<lparr>range = page_range\<rparr>"

definition stack_new :: "usize \<Rightarrow> usize \<Rightarrow> Stack res" where
  "stack_new t b = rbind (rassert (b < t) ''top > bottom'') (\<lambda>_. Inr \<lparr>stack_top = t, stack_bottom = b\<rparr>)"

definition alloc_stack :: "StackAllocator \<Rightarrow> usize \<Rightarrow> vm \<Rightarrow> (Stack option \<times> StackAllocator \<times> vm) res" where
  "alloc_stack self size_in_pages s =
     (if size_in_pages = 0 then Inr (None, self, s)
      else
        rbind (page_iter_next (range self)) (\<lambda>(guard_page, it).
        rbind (page_iter_next it) (\<lambda>(stack_start, it).
        rbind (if size_in_pages = 1 then Inr (stack_start, it)
               else rbind (checked_sub size_in_pages 2) (\<lambda>n. iter_nth page_iter_next (unat n) it))
          (\<lambda>(stack_end, it).
        case (guard_page, stack_start, stack_end) of
          (Some _, Some start, Some end_page) \<Rightarrow>
            rbind (pages_of (page_range_inclusive start end_page)) (\<lambda>pages.
            rbind (rfold (map_and_flush PRESENT) pages s) (\<lambda>s.
            rbind (page_start_address end_page) (\<lambda>e.
            rbind (checked_add (va_get e) PAGE_SIZE) (\<lambda>top_of_stack.
            rbind (page_start_address start) (\<lambda>b.
            rbind (stack_new top_of_stack (va_get b)) (\<lambda>stack.
            Inr (Some stack, self\<lparr>range := it\<rparr>, s)))))))
        | _ \<Rightarrow> Inr (None, self, s)))))"

record MemoryController =
  stack_allocator :: StackAllocator

definition controller_alloc_stack :: "MemoryController \<Rightarrow> usize \<Rightarrow> vm \<Rightarrow> (Stack option \<times> MemoryController \<times> vm) res" where
  "controller_alloc_stack self size_in_pages s =
     rbind (alloc_stack (stack_allocator self) size_in_pages s) (\<lambda>(r, sa, s).
     Inr (r, self\<lparr>stack_allocator := sa\<rparr>, s))"

section \<open>Correctness\<close>

text \<open>The allocator hands out pages from \<open>b\<close> to \<open>e\<close>.\<close>

definition stack_range :: "usize \<Rightarrow> usize \<Rightarrow> StackAllocator" where
  "stack_range b e = \<lparr>range = page_range_inclusive (Page b) (Page e)\<rparr>"

definition stack_pages :: "usize \<Rightarrow> usize \<Rightarrow> Page list" where
  "stack_pages b n = map Page (word_range (b + 1) (b + n))"

lemma low_ne_max: "(e :: usize) < 0x800000000 \<Longrightarrow> e \<noteq> -1"
  by (auto simp: word_less_nat_alt unsigned_minus_1_eq_mask mask_eq_exp_minus_1)

lemma alloc_stack_iter:
  assumes e: "e < 0x800000000" and n: "n \<noteq> 0" and fit: "unat b + unat n \<le> unat e"
  shows "page_iter_next (page_range_inclusive (Page b) (Page e))
      = Inr (Some (Page b), page_range_inclusive (Page (b + 1)) (Page e))"
    and "page_iter_next (page_range_inclusive (Page (b + 1)) (Page e))
      = Inr (Some (Page (b + 1)), page_range_inclusive (Page (b + 2)) (Page e))"
    and "n \<noteq> 1 \<Longrightarrow> rbind (checked_sub n 2) (\<lambda>k. iter_nth page_iter_next (unat k) (page_range_inclusive (Page (b + 2)) (Page e)))
      = Inr (Some (Page (b + n)), page_range_inclusive (Page (b + n + 1)) (Page e))"
proof -
  note emax = low_ne_max [OF e]
  have eb: "unat e < 0x800000000" using e by (simp add: word_less_nat_alt)
  have n0: "0 < unat n" using n by (simp add: unat_gt_0)
  have b: "b \<le> e" "b \<noteq> -1" using fit below_max [OF _ emax, of b] by (simp_all add: word_le_nat_alt)
  have b1: "unat (b + 1) = Suc (unat b)" using b by (simp add: unat_succ)
  then have b1': "b + 1 \<le> e" "b + 1 \<noteq> -1" using fit n0 below_max [OF _ emax, of "b + 1"] by (simp_all add: word_le_nat_alt)
  have b2: "unat (b + 2) = unat b + 2" using unat_succ [OF b1'(2)] b1 by (simp add: add.assoc)
  show "page_iter_next (page_range_inclusive (Page b) (Page e))
      = Inr (Some (Page b), page_range_inclusive (Page (b + 1)) (Page e))"
    using page_it.next_some [OF b] .
  show "page_iter_next (page_range_inclusive (Page (b + 1)) (Page e))
      = Inr (Some (Page (b + 1)), page_range_inclusive (Page (b + 2)) (Page e))"
    using page_it.next_some [OF b1'] by (simp add: add.assoc)
  assume "n \<noteq> 1"
  then have "unat n \<noteq> 1" by (simp add: word_unat_eq_iff)
  with n0 have n2: "2 \<le> unat n" by linarith
  then have le2: "2 \<le> n" by (simp add: word_le_nat_alt)
  then have k: "unat (n - 2) = unat n - 2" by (simp add: unat_sub)
  have "iter_nth page_iter_next (unat (n - 2)) (page_range_inclusive (Page (b + 2)) (Page e))
      = Inr (Some (Page (b + 2 + of_nat (unat (n - 2)))), page_range_inclusive (Page (b + 2 + of_nat (unat (n - 2)) + 1)) (Page e))"
    by (rule page_it.nth_some [OF emax]) (use fit b2 k n2 in linarith)
  with le2 show "rbind (checked_sub n 2) (\<lambda>k. iter_nth page_iter_next (unat k) (page_range_inclusive (Page (b + 2)) (Page e)))
      = Inr (Some (Page (b + n)), page_range_inclusive (Page (b + n + 1)) (Page e))"
    by (simp add: checked_sub_def)
qed

lemma stack_pages_ready:
  assumes e: "(e :: usize) < 0x800000000" and fit: "unat b + unat n \<le> unat e"
    and m: "\<forall>p \<in> set (stack_pages b n). mappable s T p" and free: "4 * unat n \<le> card (free_now s)"
  shows "stack_loop.loop_ready s T (stack_pages b n)" and "length (stack_pages b n) = unat n"
    and "unat (b + n) = unat b + unat n"
proof -
  have eb: "unat e < 0x800000000" using e by (simp add: word_less_nat_alt)
  show bn: "unat (b + n) = unat b + unat n" using fit eb by (simp add: unat_add_lem [THEN iffD1])
  have b1: "unat (b + 1) = Suc (unat b)"
    using fit eb by (intro unat_succ) (auto simp: unsigned_minus_1_eq_mask mask_eq_exp_minus_1)
  show len: "length (stack_pages b n) = unat n" using bn b1 by (simp add: stack_pages_def)
  have low: "k < 0x800000000" if "b + 1 \<le> k" "k \<le> b + n" for k
    using that fit eb bn by (simp add: word_le_nat_alt word_less_nat_alt)
  have "inj_on (\<lambda>k. page_path (Page k)) {k. b + 1 \<le> k \<and> k \<le> b + n}"
    using page_path_low_inj low by (intro inj_onI) auto
  then have "distinct (map page_path (stack_pages b n))"
    by (simp add: stack_pages_def distinct_map comp_def inj_on_def)
  moreover have "\<forall>p \<in> set (stack_pages b n). p4_index p \<noteq> 511 \<and> page_ok p"
    using low_page_ok low by (auto simp: stack_pages_def)
  ultimately show "stack_loop.loop_ready s T (stack_pages b n)"
    using m free len by (simp add: stack_loop.loop_ready_def)
qed

lemma alloc_stack_ok:
  assumes wf: "pt_wf s T" and e: "e < 0x800000000" and n: "n \<noteq> 0" and fit: "unat b + unat n \<le> unat e"
    and m: "\<forall>p \<in> set (stack_pages b n). mappable s T p" and free: "4 * unat n \<le> card (free_now s)"
  shows "\<exists>s'. alloc_stack (stack_range b e) n s
      = Inr (Some \<lparr>stack_top = push_bit 12 (b + n) + PAGE_SIZE, stack_bottom = push_bit 12 (b + 1)\<rparr>, stack_range (b + n + 1) e, s')
     \<and> stack_loop.loop_done s T (stack_pages b n) s' \<and> fresh_frames s T (stack_pages b n) s'"
proof -
  note ready = stack_pages_ready [OF e fit m free]
  note it = alloc_stack_iter [OF e n fit]
  have eb: "unat e < 0x800000000" using e by (simp add: word_less_nat_alt)
  have low: "b + 1 < 0x800000000" "b + n < 0x800000000" and lt: "unat (b + 1) = Suc (unat b)"
  proof -
    show l: "unat (b + 1) = Suc (unat b)"
      using fit eb by (intro unat_succ) (auto simp: unsigned_minus_1_eq_mask mask_eq_exp_minus_1)
    have "0 < unat n" using n by (simp add: unat_gt_0)
    with l fit eb ready(3) show "b + 1 < 0x800000000" "b + n < 0x800000000" by (simp_all add: word_less_nat_alt)
  qed
  obtain s' where s': "rfold (map_and_flush PRESENT) (stack_pages b n) s = Inr s'"
      "stack_loop.loop_done s T (stack_pages b n) s'"
    using stack_loop.loop_maps [OF wf ready(1)] by blast
  have pages: "pages_of (page_range_inclusive (Page (b + 1)) (Page (b + n))) = Inr (stack_pages b n)"
    using pages_of_range [of "Page (b + n)" "Page (b + 1)"] low_ne_max [OF low(2)] by (simp add: stack_pages_def)
  have push: "unat (push_bit 12 k) = 4096 * unat k" if "k < 0x800000000" for k :: usize
    using that by (simp add: push_bit_eq_mult unat_word_ariths word_less_nat_alt)
  have bn: "unat (b + n) < 0x800000000" "unat (b + 1) \<le> unat (b + n)"
    using low(2) lt ready(3) n by (simp_all add: word_less_nat_alt unat_gt_0 Suc_le_eq)
  have tp: "checked_add (push_bit 12 (b + n)) PAGE_SIZE = Inr (push_bit 12 (b + n) + PAGE_SIZE)"
    and tb: "push_bit 12 (b + 1) < push_bit 12 (b + n) + PAGE_SIZE"
  proof -
    show c: "checked_add (push_bit 12 (b + n)) PAGE_SIZE = Inr (push_bit 12 (b + n) + PAGE_SIZE)"
      using push [OF low(2)] bn(1) by (simp add: checked_add_def PAGE_SIZE_def)
    have "unat (push_bit 12 (b + n) + PAGE_SIZE) = 4096 * unat (b + n) + 4096"
      using push [OF low(2)] bn(1) by (subst unat_add_lem [THEN iffD1]) (simp_all add: PAGE_SIZE_def)
    then show "push_bit 12 (b + 1) < push_bit 12 (b + n) + PAGE_SIZE"
      unfolding word_less_nat_alt using push [OF low(1)] bn(2) by simp
  qed
  note st = page_start_ok [OF low_page_ok(1) [OF low(1)]] page_start_ok [OF low_page_ok(1) [OF low(2)]]
  have "alloc_stack (stack_range b e) n s
      = Inr (Some \<lparr>stack_top = push_bit 12 (b + n) + PAGE_SIZE, stack_bottom = push_bit 12 (b + 1)\<rparr>, stack_range (b + n + 1) e, s')"
  proof (cases "n = 1")
    case True
    then show ?thesis
      using it(1,2) pages s'(1) st tp tb
      by (simp add: alloc_stack_def stack_range_def stack_new_def add.assoc)
  next
    case False
    then show ?thesis
      using n it(1,2) it(3) [OF False] pages s'(1) st tp tb
      by (simp add: alloc_stack_def stack_range_def stack_new_def)
  qed
  with s'(2) stack_loop.loop_fresh [OF wf ready(1) s'(1)] show ?thesis by auto
qed


lemma stack_end_none:
  assumes "e \<noteq> -1" and "(n :: usize) \<noteq> 0" "n \<noteq> 1" and "unat e < unat b + (unat n - 2)"
  shows "\<exists>it. rbind (checked_sub n 2) (\<lambda>k. iter_nth page_iter_next (unat k) (page_range_inclusive (Page b) (Page e)))
      = Inr (None, it)"
proof -
  have "unat n \<noteq> 0" "unat n \<noteq> 1" using assms(2,3) by (simp_all add: word_unat_eq_iff)
  then have le: "2 \<le> n" by (simp add: word_le_nat_alt)
  then have "unat (n - 2) = unat n - 2" by (simp add: unat_sub)
  with assms(1,4) page_it.nth_none [of e b "unat n - 2"] le show ?thesis by (auto simp: checked_sub_def)
qed

lemma alloc_stack_none:
  assumes e: "e < 0x800000000" and short: "unat e < unat b + unat n"
  shows "alloc_stack (stack_range b e) n s = Inr (None, stack_range b e, s)"
proof (cases "n = 0")
  case False
  note emax = low_ne_max [OF e]
  consider "e < b" | "b = e" | "b < e" by fastforce
  then show ?thesis
  proof cases
    case 1
    then have "page_iter_next (page_range_inclusive (Page b) (Page e)) = Inr (None, page_range_inclusive (Page b) (Page e))"
      by (rule page_it.next_end)
    with 1 stack_end_none [OF emax False, of b] False show ?thesis
      by (cases "n = 1") (auto simp: alloc_stack_def stack_range_def word_less_nat_alt)
  next
    case 2
    have b: "b \<noteq> -1" using 2 emax by simp
    then have gt: "e < b + 1" using unat_succ [OF b] 2 by (simp add: word_less_nat_alt)
    have "page_iter_next (page_range_inclusive (Page b) (Page e)) = Inr (Some (Page b), page_range_inclusive (Page (b + 1)) (Page e))"
      using 2 b by (intro page_it.next_some) simp_all
    moreover have "page_iter_next (page_range_inclusive (Page (b + 1)) (Page e)) = Inr (None, page_range_inclusive (Page (b + 1)) (Page e))"
      using gt by (rule page_it.next_end)
    moreover have "unat e < unat (b + 1) + (unat n - 2)" using gt by (simp add: word_less_nat_alt)
    ultimately show ?thesis
      using stack_end_none [OF emax False, of "b + 1"] False
      by (cases "n = 1") (auto simp: alloc_stack_def stack_range_def)
  next
    case 3
    have b: "b \<noteq> -1" using 3 below_max [OF _ emax, of b] by simp
    have b1: "unat (b + 1) = Suc (unat b)" by (rule unat_succ [OF b])
    then have le: "b + 1 \<le> e" using 3 by (simp add: word_less_nat_alt word_le_nat_alt)
    then have b1m: "b + 1 \<noteq> -1" using below_max emax by blast
    have "page_iter_next (page_range_inclusive (Page b) (Page e)) = Inr (Some (Page b), page_range_inclusive (Page (b + 1)) (Page e))"
      using 3 b by (intro page_it.next_some) simp_all
    moreover have "page_iter_next (page_range_inclusive (Page (b + 1)) (Page e))
        = Inr (Some (Page (b + 1)), page_range_inclusive (Page (b + 2)) (Page e))"
      using page_it.next_some [OF le b1m] by (simp add: add.assoc)
    moreover have n1: "n \<noteq> 1" using short 3 by (auto simp: word_less_nat_alt)
    moreover obtain it where "rbind (checked_sub n 2)
        (\<lambda>k. iter_nth page_iter_next (unat k) (page_range_inclusive (Page (b + 2)) (Page e))) = Inr (None, it)"
    proof -
      have "unat (b + 2) = unat b + 2" using unat_succ [OF b1m] b1 by (simp add: add.assoc)
      moreover have "unat n \<noteq> 0" "unat n \<noteq> 1" using False n1 by (simp_all add: word_unat_eq_iff)
      ultimately have "unat e < unat (b + 2) + (unat n - 2)" using short by linarith
      with stack_end_none [OF emax False n1] that show ?thesis by blast
    qed
    ultimately show ?thesis
      using False by (simp add: alloc_stack_def stack_range_def)
  qed
qed (simp add: alloc_stack_def)

section \<open>Properties\<close>

text \<open>
  C19. A stack of \<open>n\<close> pages from a range that has a guard page and \<open>n\<close> more: the call returns a
  stack whose bottom is the start of the page behind the guard page and whose top is \<open>n\<close> pages
  higher, and takes these pages off the range. Each page of the stack is mapped to a frame that
  was free, each to another one and without the right to write; the guard page and every other page are translated as
  before.
\<close>

theorem alloc_stack_maps_pages:
  assumes "pt_wf s T" and "e < 0x800000000" and "n \<noteq> 0" and "unat b + unat n \<le> unat e"
    and "\<forall>p \<in> set (stack_pages b n). mappable s T p" and "4 * unat n \<le> card (free_now s)"
  shows "\<exists>s'. alloc_stack (stack_range b e) n s
      = Inr (Some \<lparr>stack_top = push_bit 12 (b + n) + PAGE_SIZE, stack_bottom = push_bit 12 (b + 1)\<rparr>,
          stack_range (b + n + 1) e, s')
     \<and> pt_wf s' T \<and> kept s T s'
     \<and> (\<forall>p \<in> set (stack_pages b n). \<exists>f \<in> free_now s. page_map s' T p = Some (f, False))
     \<and> fresh_frames s T (stack_pages b n) s'
     \<and> (\<forall>q. p4_index q \<noteq> 511 \<longrightarrow> page_path q \<notin> page_path ` set (stack_pages b n) \<longrightarrow>
          page_map s' T q = page_map s T q)"
proof -
  obtain s' where "alloc_stack (stack_range b e) n s
      = Inr (Some \<lparr>stack_top = push_bit 12 (b + n) + PAGE_SIZE, stack_bottom = push_bit 12 (b + 1)\<rparr>,
          stack_range (b + n + 1) e, s')"
    and d: "stack_loop.loop_done s T (stack_pages b n) s'" "fresh_frames s T (stack_pages b n) s'"
    using alloc_stack_ok [OF assms] by blast
  moreover have "\<forall>p \<in> set (stack_pages b n). \<exists>f \<in> free_now s. page_map s' T p = Some (f, False)"
    using d by (fastforce simp: stack_loop.loop_done_def new_frame_def bit_flag_consts)
  ultimately show ?thesis
    using d by (intro exI [of _ s']) (auto simp: stack_loop.loop_done_def)
qed

theorem alloc_stack_maps_pages_witness:
  "\<exists>s'. alloc_stack (stack_range 0x4000 0x4010) 2 example_vm
     = Inr (Some \<lparr>stack_top = 0x4003000, stack_bottom = 0x4001000\<rparr>, stack_range 0x4003 0x4010, s')
     \<and> page_map s' (Frame 9) (Page 0x4000) = None"
proof -
  have p4: "p4_index (Page k) \<noteq> 511" if "k < 0x800000000" for k using that by (rule low_page_ok(2))
  have pages: "stack_pages 0x4000 2 = [Page 0x4001, Page 0x4002]"
    by (simp add: stack_pages_def word_range_def upt_rec)
  have m: "\<forall>p \<in> set (stack_pages 0x4000 2). mappable example_vm (Frame 9) p"
    using example_mappable [OF p4] by (simp add: pages)
  have g: "page_map example_vm (Frame 9) (Page 0x4000) = None"
    by (rule mappable_unmapped(1) [OF example_mappable [OF p4]]) simp
  have ne: "page_path (Page 0x4000) \<notin> page_path ` set (stack_pages 0x4000 2)"
    by (simp add: pages page_path_def p4_index_def p3_index_def p2_index_def p1_index_def)
  have c: "4 * unat (2 :: usize) \<le> card (free_now example_vm)" using example_card_many by simp
  from alloc_stack_maps_pages [OF example_pt_wf _ _ _ m c, of "0x4010"]
  obtain s' where "alloc_stack (stack_range 0x4000 0x4010) 2 example_vm
     = Inr (Some \<lparr>stack_top = 0x4003000, stack_bottom = 0x4001000\<rparr>, stack_range 0x4003 0x4010, s')"
    "\<forall>q. p4_index q \<noteq> 511 \<longrightarrow> page_path q \<notin> page_path ` set (stack_pages 0x4000 2) \<longrightarrow>
          page_map s' (Frame 9) q = page_map example_vm (Frame 9) q"
    by (auto simp: PAGE_SIZE_def)
  with g ne p4 [of "0x4000"] show ?thesis by auto
qed

text \<open>
  When the range has fewer than the guard page and \<open>n\<close> pages left, or \<open>n\<close> is zero, the call
  returns \<^verbatim>\<open>None\<close> and changes neither the range nor the tables.
\<close>

theorem alloc_stack_exhausted:
  assumes "e < 0x800000000" and "unat e < unat b + unat n"
  shows "alloc_stack (stack_range b e) n s = Inr (None, stack_range b e, s)"
  using assms by (rule alloc_stack_none)

theorem alloc_stack_exhausted_witness:
  "alloc_stack (stack_range 0x4000 0x4002) 3 example_vm = Inr (None, stack_range 0x4000 0x4002, example_vm)"
  by (rule alloc_stack_exhausted) simp_all

end
