(* ===== verification/Process.thy ===== *)
theory Process
  imports Prelude
begin

text \<open>
  Processes and the task table: \<^verbatim>\<open>task/context.rs\<close>, \<^verbatim>\<open>task/process.rs\<close> and \<^verbatim>\<open>task/proc_list.rs\<close>.
  The registers a context switch saves and loads are the record \<open>Cpu\<close>; the instructions of
  \<^verbatim>\<open>switch_to\<close> move values between them and the two contexts in the order of the source. The
  \<^verbatim>\<open>BTreeMap\<close> of the task table is a map from process ids to processes.
\<close>

section \<open>Contexts\<close>

record Cpu =
  reg_cr3 :: usize
  reg_rbp :: usize
  reg_rflags :: usize
  reg_rsp :: usize
  reg_rbx :: usize
  reg_r12 :: usize
  reg_r13 :: usize
  reg_r14 :: usize
  reg_r15 :: usize

record Context =
  ctx_cr3 :: usize
  ctx_rbp :: usize
  ctx_rflags :: usize
  ctx_rsp :: usize
  ctx_rbx :: usize
  ctx_r12 :: usize
  ctx_r13 :: usize
  ctx_r14 :: usize
  ctx_r15 :: usize

definition context_new :: Context where
  "context_new = \<lparr>ctx_cr3 = 0, ctx_rbp = 0, ctx_rflags = 0, ctx_rsp = 0, ctx_rbx = 0,
     ctx_r12 = 0, ctx_r13 = 0, ctx_r14 = 0, ctx_r15 = 0\<rparr>"

definition switch_to :: "Context \<Rightarrow> Context \<Rightarrow> Cpu \<Rightarrow> Context \<times> Cpu" where
  "switch_to self nxt cpu =
     (let self = self\<lparr>ctx_rflags := reg_rflags cpu\<rparr>;
          cpu = cpu\<lparr>reg_rflags := ctx_rflags nxt\<rparr>;
          self = self\<lparr>ctx_cr3 := reg_cr3 cpu\<rparr>;
          self = self\<lparr>ctx_rbx := reg_rbx cpu\<rparr>;
          self = self\<lparr>ctx_r12 := reg_r12 cpu\<rparr>;
          self = self\<lparr>ctx_r13 := reg_r13 cpu\<rparr>;
          self = self\<lparr>ctx_r14 := reg_r14 cpu\<rparr>;
          self = self\<lparr>ctx_r15 := reg_r15 cpu\<rparr>;
          self = self\<lparr>ctx_rsp := reg_rsp cpu\<rparr>;
          self = self\<lparr>ctx_rbp := reg_rbp cpu\<rparr>;
          cpu = (if ctx_cr3 nxt \<noteq> ctx_cr3 self then cpu\<lparr>reg_cr3 := ctx_cr3 nxt\<rparr> else cpu);
          cpu = cpu\<lparr>reg_rbx := ctx_rbx nxt\<rparr>;
          cpu = cpu\<lparr>reg_r12 := ctx_r12 nxt\<rparr>;
          cpu = cpu\<lparr>reg_r13 := ctx_r13 nxt\<rparr>;
          cpu = cpu\<lparr>reg_r14 := ctx_r14 nxt\<rparr>;
          cpu = cpu\<lparr>reg_r15 := ctx_r15 nxt\<rparr>;
          cpu = cpu\<lparr>reg_rsp := ctx_rsp nxt\<rparr>;
          cpu = cpu\<lparr>reg_rbp := ctx_rbp nxt\<rparr>
      in (self, cpu))"

definition ctx_set_page_table :: "Context \<Rightarrow> usize \<Rightarrow> Context" where
  "ctx_set_page_table self address = self\<lparr>ctx_cr3 := address\<rparr>"

definition ctx_set_stack :: "Context \<Rightarrow> usize \<Rightarrow> Context" where
  "ctx_set_stack self address = self\<lparr>ctx_rsp := address\<rparr>"

text \<open>The registers a context describes, and the context that describes the registers.\<close>

definition load_context :: "Context \<Rightarrow> Cpu" where
  "load_context c = \<lparr>reg_cr3 = ctx_cr3 c, reg_rbp = ctx_rbp c, reg_rflags = ctx_rflags c, reg_rsp = ctx_rsp c,
     reg_rbx = ctx_rbx c, reg_r12 = ctx_r12 c, reg_r13 = ctx_r13 c, reg_r14 = ctx_r14 c, reg_r15 = ctx_r15 c\<rparr>"

definition save_context :: "Cpu \<Rightarrow> Context" where
  "save_context c = \<lparr>ctx_cr3 = reg_cr3 c, ctx_rbp = reg_rbp c, ctx_rflags = reg_rflags c, ctx_rsp = reg_rsp c,
     ctx_rbx = reg_rbx c, ctx_r12 = reg_r12 c, ctx_r13 = reg_r13 c, ctx_r14 = reg_r14 c, ctx_r15 = reg_r15 c\<rparr>"

lemma load_save [simp]: "load_context (save_context c) = c"
  by (cases c) (simp add: load_context_def save_context_def)

lemma switch_to_eq: "switch_to self nxt cpu = (save_context cpu, load_context nxt)"
  by (cases self, cases cpu) (simp add: switch_to_def load_context_def save_context_def Let_def)

section \<open>Processes\<close>

datatype State = Free | Current | Suspended | Ready

datatype Priority = Priority u64

datatype ProcessId = ProcessId (inner: usize)

definition NULL_PROC :: ProcessId where
  "NULL_PROC = ProcessId 0"

record Process =
  pid :: ProcessId
  name :: string
  state :: State
  priority :: Priority
  ctx :: Context
  stack :: "usize list option"

definition process_new :: "ProcessId \<Rightarrow> Process" where
  "process_new i = \<lparr>pid = i, name = ''new_proc'', state = Suspended, priority = Priority 0,
     ctx = context_new, stack = None\<rparr>"

definition set_state :: "State \<Rightarrow> Process \<Rightarrow> Process" where
  "set_state s p = p\<lparr>state := s\<rparr>"

definition set_page_table :: "usize \<Rightarrow> Process \<Rightarrow> Process" where
  "set_page_table addr p = p\<lparr>ctx := ctx_set_page_table (ctx p) addr\<rparr>"

definition set_stack :: "usize \<Rightarrow> Process \<Rightarrow> Process" where
  "set_stack addr p = p\<lparr>ctx := ctx_set_stack (ctx p) addr\<rparr>"

section \<open>The heap\<close>

text \<open>
  What a collection of the standard library does when it needs memory: it goes on when the heap has \<open>given\<close> it
  some, otherwise it calls the allocator's \<^verbatim>\<open>oom\<close>, which panics.
\<close>

definition heap_room :: "bool \<Rightarrow> unit res" where
  "heap_room given = (if given then Inr () else Inl (Panic ''Out of memory''))"

lemma heap_room_simps [simp]: "heap_room True = Inr ()" "heap_room False = Inl (Panic ''Out of memory'')"
  by (simp_all add: heap_room_def)

lemma heap_room_eq_Inr [res_simps]: "heap_room given = Inr u \<longleftrightarrow> given"
  by (simp add: heap_room_def)

section \<open>The task table\<close>

definition MAX_PROCS :: usize where
  "MAX_PROCS = 0xffffffffffffffff - 1"

record ProcessList =
  procs :: "ProcessId \<rightharpoonup> Process"
  next_id :: usize

definition process_list_new :: ProcessList where
  "process_list_new =
     (let null_proc = (process_new NULL_PROC)\<lparr>state := Current, stack := Some []\<rparr>
      in \<lparr>procs = [NULL_PROC \<mapsto> null_proc], next_id = 1\<rparr>)"

definition proc_get :: "ProcessList \<Rightarrow> ProcessId \<Rightarrow> Process option" where
  "proc_get self i = procs self i"

text \<open>The loop that looks for a free id; it ends because the addition is checked.\<close>

function find_free :: "(ProcessId \<rightharpoonup> Process) \<Rightarrow> usize \<Rightarrow> usize res" where
  "find_free ps n =
     (if ps (ProcessId n) \<noteq> None then rbind (checked_add n 1) (find_free ps) else Inr n)"
  by auto

termination
  by (relation "measure (\<lambda>(_, n). 2 ^ 64 - unat n)")
    (auto simp: checked_add_def unat_word_ariths split: if_splits)

declare find_free.simps [simp del]

text \<open>
  \<^verbatim>\<open>Err(-1)\<close> is \<open>Inl (-1)\<close>. The source returns a reference to the new process; the model returns
  its id, under which the caller finds it. \<open>given\<close> says whether the heap has room for the entry: the name, the
  counted box and the tree's nodes; without it the allocator's \<^verbatim>\<open>oom\<close> panics.
\<close>

definition proc_add :: "bool \<Rightarrow> ProcessList \<Rightarrow> ((16 word + ProcessId) \<times> ProcessList) res" where
  "proc_add given self =
     (let self = (if next_id self \<ge> MAX_PROCS then self\<lparr>next_id := 1\<rparr> else self) in
      rbind (find_free (procs self) (next_id self)) (\<lambda>n.
      let self = self\<lparr>next_id := n\<rparr> in
      if next_id self \<ge> MAX_PROCS then Inr (Inl (- 1), self)
      else
        let i = ProcessId (next_id self) in
        rbind (checked_add (next_id self) 1) (\<lambda>n.
        let self = self\<lparr>next_id := n\<rparr> in
        rbind (heap_room given) (\<lambda>_.
        rbind (rassert (procs self i = None) ''Process already exists'') (\<lambda>_.
        let self = self\<lparr>procs := (procs self)(i \<mapsto> process_new i)\<rparr> in
        rbind (rexpect (proc_get self i) ''Failed to add new process.'') (\<lambda>_.
        Inr (Inr i, self)))))))"

definition proc_remove :: "ProcessList \<Rightarrow> ProcessId \<Rightarrow> Process option \<times> ProcessList" where
  "proc_remove self i = (procs self i, self\<lparr>procs := (procs self)(i := None)\<rparr>)"

section \<open>The invariant of the table\<close>

text \<open>
  Every process is filed under its own id, ids stay below \<open>MAX_PROCS\<close>, the kernel's process is
  there, and the search never starts at 0.
\<close>

definition table_wf :: "ProcessList \<Rightarrow> bool" where
  "table_wf l \<longleftrightarrow>
     (\<forall>i p. procs l i = Some p \<longrightarrow> pid p = i \<and> inner i < MAX_PROCS)
     \<and> procs l NULL_PROC \<noteq> None \<and> next_id l \<noteq> 0 \<and> next_id l \<le> MAX_PROCS"

lemma MAX_PROCS_nat: "unat MAX_PROCS = 2 ^ 64 - 2"
  by (simp add: MAX_PROCS_def)

lemma table_wf_new: "table_wf process_list_new"
  by (simp add: table_wf_def process_list_new_def process_new_def NULL_PROC_def MAX_PROCS_def)

lemma find_free_ok:
  assumes "\<forall>i. ps i \<noteq> None \<longrightarrow> inner i < MAX_PROCS" and "n \<le> MAX_PROCS"
  shows "\<exists>m. find_free ps n = Inr m \<and> n \<le> m \<and> m \<le> MAX_PROCS \<and> ps (ProcessId m) = None
     \<and> (\<forall>k. n \<le> k \<longrightarrow> k < m \<longrightarrow> ps (ProcessId k) \<noteq> None)"
  using assms
proof (induction ps n rule: find_free.induct)
  case (1 ps n)
  show ?case
  proof (cases "ps (ProcessId n)")
    case None
    with 1(3) show ?thesis by (auto simp: find_free.simps)
  next
    case (Some p)
    with 1(2) have lt: "n < MAX_PROCS" by (metis ProcessId.sel option.distinct(1))
    then have n: "unat n < 2 ^ 64 - 2" by (simp add: word_less_nat_alt MAX_PROCS_nat)
    then have s: "checked_add n 1 = Inr (n + 1)" "unat (n + 1) = Suc (unat n)"
      by (auto simp: checked_add_def unat_word_ariths)
    have "n + 1 \<le> MAX_PROCS" using n s(2) by (simp add: word_le_nat_alt MAX_PROCS_nat)
    with 1(1) [OF _ s(1) 1(2)] Some obtain m where m: "find_free ps (n + 1) = Inr m" "n + 1 \<le> m" "m \<le> MAX_PROCS"
      "ps (ProcessId m) = None" "\<forall>k. n + 1 \<le> k \<longrightarrow> k < m \<longrightarrow> ps (ProcessId k) \<noteq> None" by auto
    have "ps (ProcessId k) \<noteq> None" if "n \<le> k" "k < m" for k
    proof (cases "k = n")
      case False
      with that s(2) have "n + 1 \<le> k" by (simp add: word_le_nat_alt word_unat_eq_iff)
      with m(5) that show ?thesis by blast
    qed (simp add: Some)
    moreover have "n \<le> m" using m(2) s(2) by (simp add: word_le_nat_alt)
    ultimately show ?thesis using m Some s(1) by (subst find_free.simps) auto
  qed
qed

text \<open>Where the search starts.\<close>

definition search_start :: "ProcessList \<Rightarrow> usize" where
  "search_start l = (if next_id l \<ge> MAX_PROCS then 1 else next_id l)"

lemma proc_add_ok:
  assumes wf: "table_wf l"
  shows "\<exists>r l'. proc_add True l = Inr (r, l') \<and> table_wf l'
     \<and> (case r of
          Inr i \<Rightarrow> procs l i = None \<and> procs l' = (procs l)(i \<mapsto> process_new i)
            \<and> search_start l \<le> inner i \<and> (\<forall>k. search_start l \<le> k \<longrightarrow> k < inner i \<longrightarrow> procs l (ProcessId k) \<noteq> None)
        | Inl e \<Rightarrow> e = - 1 \<and> procs l' = procs l
            \<and> (\<forall>k. search_start l \<le> k \<longrightarrow> k < MAX_PROCS \<longrightarrow> procs l (ProcessId k) \<noteq> None))"
proof -
  let ?b = "search_start l"
  have keys: "\<forall>i. procs l i \<noteq> None \<longrightarrow> inner i < MAX_PROCS" using wf by (auto simp: table_wf_def)
  have b: "?b \<le> MAX_PROCS" "?b \<noteq> 0"
    using wf by (auto simp: search_start_def table_wf_def MAX_PROCS_def word_le_nat_alt)
  obtain m where m: "find_free (procs l) ?b = Inr m" "?b \<le> m" "m \<le> MAX_PROCS" "procs l (ProcessId m) = None"
    "\<forall>k. ?b \<le> k \<longrightarrow> k < m \<longrightarrow> procs l (ProcessId k) \<noteq> None"
    using find_free_ok [OF keys b(1)] by blast
  define l0 where "l0 = (if next_id l \<ge> MAX_PROCS then l\<lparr>next_id := 1\<rparr> else l)"
  have l0: "procs l0 = procs l" "next_id l0 = ?b" by (simp_all add: l0_def search_start_def)
  show ?thesis
  proof (cases "m = MAX_PROCS")
    case True
    then have "proc_add True l = Inr (Inl (- 1), l0\<lparr>next_id := m\<rparr>)"
      using m(1) l0 by (simp add: proc_add_def l0_def [symmetric] Let_def)
    moreover have "table_wf (l0\<lparr>next_id := m\<rparr>)"
      using wf l0 True by (simp add: table_wf_def MAX_PROCS_def)
    ultimately show ?thesis using m True l0 by auto
  next
    case False
    with m(3) have lt: "m < MAX_PROCS" by simp
    then have s: "checked_add m 1 = Inr (m + 1)" "unat (m + 1) = Suc (unat m)"
      by (auto simp: checked_add_def unat_word_ariths word_less_nat_alt MAX_PROCS_nat)
    let ?l = "l0\<lparr>next_id := m + 1, procs := (procs l)(ProcessId m \<mapsto> process_new (ProcessId m))\<rparr>"
    have "proc_add True l = Inr (Inr (ProcessId m), ?l)"
      using m(1,4) l0 s(1) lt by (simp add: proc_add_def l0_def [symmetric] Let_def proc_get_def)
    moreover have "table_wf ?l"
    proof -
      have "m + 1 \<noteq> 0" "m + 1 \<le> MAX_PROCS"
        using s(2) lt by (auto simp: word_unat_eq_iff word_le_nat_alt word_less_nat_alt)
      then show ?thesis using wf lt by (auto simp: table_wf_def process_new_def)
    qed
    ultimately show ?thesis using m l0 by auto
  qed
qed


text \<open>Without room on the heap the result is the same when no id is left, and a panic otherwise.\<close>

lemma proc_add_refused:
  assumes "proc_add True l = Inr (r, l')"
  shows "proc_add False l = (case r of Inr i \<Rightarrow> Inl (Panic ''Out of memory'') | Inl e \<Rightarrow> Inr (Inl e, l'))"
  using assms by (auto simp: proc_add_def Let_def res_simps checked_add_def split: if_splits)

section \<open>Properties\<close>

text \<open>
  A context switch saves and restores: whatever the two contexts hold, switching from \<open>a\<close> to
  \<open>b\<close> loads all nine registers of \<open>b\<close>, and switching back with the context that was saved
  restores all nine registers of the process that was left.
\<close>

theorem switch_to_roundtrip:
  "snd (switch_to a b cpu) = load_context b
   \<and> snd (switch_to b' (fst (switch_to a b cpu)) cpu') = cpu"
  by (simp add: switch_to_eq)

text \<open>
  Adding a process to a well-formed task table, with room on the heap, returns and keeps the table well formed. It
  takes the first id from the search position on that no process has, and files a new process
  under it; it reports \<open>-1\<close> and leaves the processes alone exactly when every id from the search
  position on is taken.
\<close>

theorem proc_add_spec:
  assumes "table_wf l"
  shows "\<exists>r l'. proc_add True l = Inr (r, l') \<and> table_wf l'
     \<and> (case r of
          Inr i \<Rightarrow> procs l i = None \<and> procs l' = (procs l)(i \<mapsto> process_new i)
            \<and> search_start l \<le> inner i \<and> (\<forall>k. search_start l \<le> k \<longrightarrow> k < inner i \<longrightarrow> procs l (ProcessId k) \<noteq> None)
        | Inl e \<Rightarrow> e = - 1 \<and> procs l' = procs l
            \<and> (\<forall>k. search_start l \<le> k \<longrightarrow> k < MAX_PROCS \<longrightarrow> procs l (ProcessId k) \<noteq> None))"
  using assms by (rule proc_add_ok)

theorem proc_add_spec_witness:
  "\<exists>r l'. proc_add True process_list_new = Inr (r, l') \<and> table_wf l'"
  using proc_add_spec [OF table_wf_new] by blast

end
