(* ===== verification/Sched.thy ===== *)
theory Sched
  imports Process
begin

text \<open>
  The cooperative round-robin scheduler, \<^verbatim>\<open>task/coop_sched.rs\<close>, with the trait \<^verbatim>\<open>Scheduling\<close> of
  \<^verbatim>\<open>task/mod.rs\<close>. The fields of \<^verbatim>\<open>CoopScheduler\<close> are read and written whole, under their locks;
  an operation takes the scheduler and the registers and returns both. A context switch is its
  effect on the registers and the saved contexts (the caller goes on when it is switched to
  again). Memory for a new process comes from the heap, which may refuse it; \<open>resched\<close> is modelled with room
  in the ready list for the id it puts back.

  The abstract scheduler is the cycle of the running process followed by the ready ones:
  \<open>resched\<close> rotates it.
\<close>

section \<open>State and operations\<close>

definition INITIAL_STACK :: nat where
  "INITIAL_STACK = 1024"

record CoopScheduler =
  current_pid :: usize
  task_table :: ProcessList
  ready_list :: "ProcessId list"

definition sched_new :: CoopScheduler where
  "sched_new = \<lparr>current_pid = inner NULL_PROC, task_table = process_list_new, ready_list = []\<rparr>"

definition get_id :: "CoopScheduler \<Rightarrow> ProcessId" where
  "get_id self = ProcessId (current_pid self)"

text \<open>Writing through the lock of a process of the table.\<close>

definition put_proc :: "ProcessId \<Rightarrow> Process \<Rightarrow> CoopScheduler \<Rightarrow> CoopScheduler" where
  "put_proc i p self = self\<lparr>task_table := (task_table self)\<lparr>procs := (procs (task_table self))(i \<mapsto> p)\<rparr>\<rparr>"

text \<open>
  What a new process takes from its surroundings: what the heap does with the requests for memory on the way,
  the addresses of the new stack's buffer and of the boxed scheduler reference it hands out, how often the heap is
  called in all, the address of \<^verbatim>\<open>process_return\<close>, and \<^verbatim>\<open>cr3\<close>. The last request is that of the ready list, which
  is given when the list has room.
\<close>

datatype heap_request = StackBuffer | SelfBox | InitialValues | TableEntry | ReadyList

record create_env =
  stack_ptr :: usize
  self_ptr :: usize
  return_ptr :: usize
  active_cr3 :: usize
  heap_gives :: "heap_request \<Rightarrow> bool"
  heap_uses :: nat

definition create :: "create_env \<Rightarrow> usize \<Rightarrow> string \<Rightarrow> CoopScheduler \<Rightarrow> ((16 word + ProcessId) \<times> CoopScheduler) res" where
  "create env func nm self =
     rbind (heap_room (heap_gives env StackBuffer)) (\<lambda>_.
     (let stk = replicate INITIAL_STACK 0;
          proc_top = length stk - 3 in
      rbind (checked_add (stack_ptr env) (of_nat (proc_top * 8))) (\<lambda>proc_sp.
      rbind (heap_room (heap_gives env SelfBox)) (\<lambda>_.
      rbind (heap_room (heap_gives env InitialValues)) (\<lambda>_.
      let stack_vals = [func, return_ptr env, self_ptr env] in
      rbind (rfold (\<lambda>(i, v) stk. rupdate stk (proc_top + i) v) (enumerate 0 stack_vals) stk) (\<lambda>stk.
      rbind (proc_add (heap_gives env TableEntry) (task_table self)) (\<lambda>(r, table).
      let self = self\<lparr>task_table := table\<rparr> in
      case r of
        Inl e \<Rightarrow> Inr (Inl e, self)
      | Inr i \<Rightarrow>
          rbind (rexpect (proc_get table i) ''Failed to add new process.'') (\<lambda>process.
          let process = process\<lparr>stack := Some stk\<rparr>;
              process = process\<lparr>name := nm\<rparr>;
              process = set_page_table (active_cr3 env) process;
              process = set_stack proc_sp process in
          Inr (Inr (pid process), put_proc i process self)))))))))"

definition resched :: "CoopScheduler \<Rightarrow> Cpu \<Rightarrow> (CoopScheduler \<times> Cpu) res" where
  "resched self cpu =
     (if ready_list self = [] then Inr (self, cpu)
      else
        let curr_id = get_id self in
        rbind (rexpect (proc_get (task_table self) curr_id) ''Could not find old process'') (\<lambda>prev.
        let (prev, ready) =
              (if state prev = Current then (set_state Ready prev, ready_list self @ [curr_id])
               else (prev, ready_list self)) in
        case ready of
          [] \<Rightarrow> Inr (put_proc curr_id prev self\<lparr>ready_list := []\<rparr>, cpu)
        | nid # rest \<Rightarrow>
            if nid \<noteq> get_id self then
              rbind (rexpect (proc_get (task_table self) nid) ''Could not find new process'') (\<lambda>nxt.
              let nxt = set_state Current nxt;
                  (c, cpu) = switch_to (ctx prev) (ctx nxt) cpu;
                  self = self\<lparr>ready_list := rest, current_pid := inner (pid nxt)\<rparr>;
                  self = put_proc nid nxt self;
                  self = put_proc curr_id (prev\<lparr>ctx := c\<rparr>) self in
              Inr (self, cpu))
            else Inr (put_proc curr_id prev (self\<lparr>ready_list := rest\<rparr>), cpu)))"

definition kill :: "ProcessId \<Rightarrow> CoopScheduler \<Rightarrow> Cpu \<Rightarrow> (CoopScheduler \<times> Cpu) res" where
  "kill i self cpu =
     rbind (rexpect (proc_get (task_table self) i) ''Cannot kill a non-existent process'') (\<lambda>p.
     let p = set_state Free p;
         p = p\<lparr>stack := None\<rparr> in
     resched (put_proc i p self) cpu)"

text \<open>\<open>given\<close>: the ready list has room for another id, or the heap has.\<close>

definition ready :: "bool \<Rightarrow> ProcessId \<Rightarrow> CoopScheduler \<Rightarrow> CoopScheduler res" where
  "ready given i self =
     rbind (heap_room given) (\<lambda>_.
     Inr (self\<lparr>ready_list := ready_list self @ [i]\<rparr>))"

text \<open>\<^verbatim>\<open>process_return\<close> of \<^verbatim>\<open>task/process.rs\<close>: a process that returns is killed.\<close>

definition process_return :: "CoopScheduler \<Rightarrow> Cpu \<Rightarrow> (CoopScheduler \<times> Cpu) res" where
  "process_return scheduler cpu = kill (get_id scheduler) scheduler cpu"

section \<open>The invariant\<close>

text \<open>
  The cycle of the running process and the ready ones: known processes, each once. Only the
  running process is in state \<open>Current\<close>.
\<close>

definition cycle :: "CoopScheduler \<Rightarrow> ProcessId list" where
  "cycle s = get_id s # ready_list s"

definition proc_of :: "CoopScheduler \<Rightarrow> ProcessId \<Rightarrow> Process option" where
  "proc_of s i = procs (task_table s) i"

definition sched_wf :: "CoopScheduler \<Rightarrow> bool" where
  "sched_wf s \<longleftrightarrow>
     table_wf (task_table s) \<and> distinct (cycle s) \<and> (\<forall>i \<in> set (cycle s). proc_of s i \<noteq> None)
     \<and> (\<forall>i p. proc_of s i = Some p \<longrightarrow> state p = Current \<longrightarrow> i = get_id s)"

text \<open>
  What no call of any operation can break, whatever its arguments: the table is well formed, the running
  process is known, and no other process is in state \<open>Current\<close>.
\<close>

definition sched_safe :: "CoopScheduler \<Rightarrow> bool" where
  "sched_safe s \<longleftrightarrow>
     table_wf (task_table s) \<and> proc_of s (get_id s) \<noteq> None
     \<and> (\<forall>i p. proc_of s i = Some p \<longrightarrow> state p = Current \<longrightarrow> i = get_id s)"

lemma sched_wf_safe: "sched_wf s \<Longrightarrow> sched_safe s"
  by (auto simp: sched_wf_def sched_safe_def cycle_def)

definition running :: "CoopScheduler \<Rightarrow> bool" where
  "running s \<longleftrightarrow> (\<exists>p. proc_of s (get_id s) = Some p \<and> state p = Current)"

lemma proc_of_put [simp]: "proc_of (put_proc i p s) j = (if j = i then Some p else proc_of s j)"
  by (simp add: proc_of_def put_proc_def)

lemma put_proc_simps [simp]:
  "get_id (put_proc i p s) = get_id s" "ready_list (put_proc i p s) = ready_list s"
  "current_pid (put_proc i p s) = current_pid s" "cycle (put_proc i p s) = cycle s"
  by (simp_all add: put_proc_def get_id_def cycle_def)

lemma table_wf_put:
  assumes "table_wf (task_table s)" and "proc_of s i \<noteq> None" and "pid p = i"
  shows "table_wf (task_table (put_proc i p s))"
  using assms by (auto simp: table_wf_def put_proc_def proc_of_def)

lemma sched_wf_new: "sched_wf sched_new"
proof -
  have "table_wf (task_table sched_new)" using table_wf_new by (simp add: sched_new_def)
  then show ?thesis
    unfolding sched_wf_def
    by (auto simp: sched_new_def cycle_def get_id_def proc_of_def process_list_new_def NULL_PROC_def split: if_splits)
qed

lemma running_new: "running sched_new"
  by (simp add: running_def sched_new_def get_id_def proc_of_def process_list_new_def NULL_PROC_def)

lemma proc_get_of [simp]: "proc_get (task_table s) i = proc_of s i"
  by (simp add: proc_get_def proc_of_def)

lemma proc_of_simps [simp]:
  "proc_of (s\<lparr>ready_list := r\<rparr>) i = proc_of s i" "proc_of (s\<lparr>current_pid := c\<rparr>) i = proc_of s i"
  by (simp_all add: proc_of_def)

section \<open>Rescheduling\<close>

text \<open>The switch from the running process to the first ready one.\<close>

lemma resched_switch:
  assumes wf: "sched_wf s" and run: "running s" and r: "ready_list s = i # rest"
  shows "\<exists>s' p q. resched s c = Inr (s', load_context (ctx q)) \<and> proc_of s (get_id s) = Some p \<and> proc_of s i = Some q
     \<and> sched_wf s' \<and> running s' \<and> cycle s' = rotate1 (cycle s) \<and> get_id s' = i
     \<and> proc_of s' = (proc_of s)(get_id s \<mapsto> p\<lparr>state := Ready, ctx := save_context c\<rparr>, i \<mapsto> q\<lparr>state := Current\<rparr>)"
proof -
  let ?c = "get_id s"
  from run obtain p where p: "proc_of s ?c = Some p" "state p = Current" by (auto simp: running_def)
  from wf r obtain q where q: "proc_of s i = Some q" by (auto simp: sched_wf_def cycle_def)
  have ne: "i \<noteq> ?c" using wf r by (auto simp: sched_wf_def cycle_def)
  have pids: "pid p = ?c" "pid q = i" and tw: "table_wf (task_table s)"
    using wf p(1) q by (auto simp: sched_wf_def table_wf_def proc_of_def)
  define s0 where "s0 = s\<lparr>ready_list := rest @ [?c], current_pid := inner i\<rparr>"
  define s1 where "s1 = put_proc i (q\<lparr>state := Current\<rparr>) s0"
  define s2 where "s2 = put_proc ?c (p\<lparr>state := Ready, ctx := save_context c\<rparr>) s1"
  have res: "resched s c = Inr (s2, load_context (ctx q))"
    using r p q ne pids by (simp add: resched_def set_state_def switch_to_eq Let_def s0_def s1_def s2_def)
  have g: "get_id s2 = i" by (simp add: s2_def s1_def s0_def get_id_def)
  have cyc: "cycle s2 = rotate1 (cycle s)" using r g by (simp add: cycle_def) (simp add: s2_def s1_def s0_def)
  have procs2: "proc_of s2 = (proc_of s)(?c \<mapsto> p\<lparr>state := Ready, ctx := save_context c\<rparr>, i \<mapsto> q\<lparr>state := Current\<rparr>)"
    using ne by (auto simp: s2_def s1_def s0_def fun_eq_iff)
  have "table_wf (task_table s0)" using tw by (simp add: s0_def)
  then have "table_wf (task_table s1)"
    unfolding s1_def using q pids by (intro table_wf_put) (simp_all add: s0_def)
  then have tw2: "table_wf (task_table s2)"
    unfolding s2_def using p pids by (intro table_wf_put) (simp_all add: s1_def s0_def)
  have "sched_wf s2"
    unfolding sched_wf_def
  proof (intro conjI ballI allI impI)
    show "distinct (cycle s2)" using wf cyc by (simp add: sched_wf_def)
    show "proc_of s2 j \<noteq> None" if "j \<in> set (cycle s2)" for j
      using that wf cyc procs2 by (auto simp: sched_wf_def)
    show "j = get_id s2" if "proc_of s2 j = Some x" "state x = Current" for j x
      using that wf procs2 g by (auto simp: sched_wf_def split: if_splits)
  qed (rule tw2)
  moreover have "running s2" using procs2 g by (simp add: running_def)
  ultimately show ?thesis using res p(1) q cyc g procs2 by blast
qed

lemma resched_idle: "ready_list s = [] \<Longrightarrow> resched s c = Inr (s, c)"
  by (simp add: resched_def)


text \<open>The switch from a process that was killed: it is not put back into the ready list.\<close>

lemma resched_from_killed:
  assumes wf: "sched_wf s" and run: "\<not> running s" and r: "ready_list s = i # rest"
  shows "\<exists>s' p q. resched s c = Inr (s', load_context (ctx q)) \<and> proc_of s (get_id s) = Some p \<and> proc_of s i = Some q
     \<and> sched_wf s' \<and> running s' \<and> cycle s' = ready_list s \<and> get_id s' = i
     \<and> proc_of s' = (proc_of s)(get_id s \<mapsto> p\<lparr>ctx := save_context c\<rparr>, i \<mapsto> q\<lparr>state := Current\<rparr>)"
proof -
  let ?c = "get_id s"
  from wf r obtain p q where p: "proc_of s ?c = Some p" and q: "proc_of s i = Some q"
    by (auto simp: sched_wf_def cycle_def)
  with run have np: "state p \<noteq> Current" by (simp add: running_def)
  have ne: "i \<noteq> ?c" using wf r by (auto simp: sched_wf_def cycle_def)
  have pids: "pid p = ?c" "pid q = i" and tw: "table_wf (task_table s)"
    using wf p q by (auto simp: sched_wf_def table_wf_def proc_of_def)
  define s0 where "s0 = s\<lparr>ready_list := rest, current_pid := inner i\<rparr>"
  define s1 where "s1 = put_proc i (q\<lparr>state := Current\<rparr>) s0"
  define s2 where "s2 = put_proc ?c (p\<lparr>ctx := save_context c\<rparr>) s1"
  have res: "resched s c = Inr (s2, load_context (ctx q))"
    using r p q ne pids np by (simp add: resched_def set_state_def switch_to_eq Let_def s0_def s1_def s2_def)
  have g: "get_id s2 = i" by (simp add: s2_def s1_def s0_def get_id_def)
  have cyc: "cycle s2 = ready_list s" using r g by (simp add: cycle_def) (simp add: s2_def s1_def s0_def)
  have procs2: "proc_of s2 = (proc_of s)(?c \<mapsto> p\<lparr>ctx := save_context c\<rparr>, i \<mapsto> q\<lparr>state := Current\<rparr>)"
    using ne by (auto simp: s2_def s1_def s0_def fun_eq_iff)
  have "table_wf (task_table s0)" using tw by (simp add: s0_def)
  then have "table_wf (task_table s1)"
    unfolding s1_def using q pids by (intro table_wf_put) (simp_all add: s0_def)
  then have tw2: "table_wf (task_table s2)"
    unfolding s2_def using p pids by (intro table_wf_put) (simp_all add: s1_def s0_def)
  have "sched_wf s2"
    unfolding sched_wf_def
  proof (intro conjI ballI allI impI)
    show "distinct (cycle s2)" using wf cyc by (simp add: sched_wf_def cycle_def)
    show "proc_of s2 j \<noteq> None" if "j \<in> set (cycle s2)" for j
      using that wf procs2 unfolding cyc by (auto simp: sched_wf_def cycle_def)
    show "j = get_id s2" if "proc_of s2 j = Some x" "state x = Current" for j x
      using that wf procs2 g np run by (auto simp: sched_wf_def running_def split: if_splits)
  qed (rule tw2)
  moreover have "running s2" using procs2 g by (simp add: running_def)
  ultimately show ?thesis using res p q cyc g procs2 by blast
qed

lemma resched_cases:
  assumes "sched_wf s" and "resched s c = Inr (s', c')"
  obtains "ready_list s = []" "s' = s" "c' = c"
  | i rest p p' q where "ready_list s = i # rest" "proc_of s (get_id s) = Some p" "proc_of s i = Some q"
      "i \<noteq> get_id s" "get_id s' = i" "c' = load_context (ctx q)" "ctx p' = save_context c"
      "proc_of s' = (proc_of s)(get_id s \<mapsto> p', i \<mapsto> q\<lparr>state := Current\<rparr>)" "sched_wf s'" "running s'"
proof (cases "ready_list s")
  case Nil
  then have "s' = s" "c' = c" using assms(2) by (simp_all add: resched_idle)
  with Nil show ?thesis by (intro that(1))
next
  case (Cons i rest)
  have ne: "i \<noteq> get_id s" using assms(1) Cons by (auto simp: sched_wf_def cycle_def)
  show ?thesis
  proof (cases "running s")
    case True
    obtain s2 p q where "resched s c = Inr (s2, load_context (ctx q))" "proc_of s (get_id s) = Some p" "proc_of s i = Some q"
      "sched_wf s2" "running s2" "get_id s2 = i"
      "proc_of s2 = (proc_of s)(get_id s \<mapsto> p\<lparr>state := Ready, ctx := save_context c\<rparr>, i \<mapsto> q\<lparr>state := Current\<rparr>)"
      using resched_switch [OF assms(1) True Cons, of c] by blast
    with assms(2) ne show ?thesis
      by (intro that(2) [OF Cons, of p q "p\<lparr>state := Ready, ctx := save_context c\<rparr>"]) simp_all
  next
    case False
    obtain s2 p q where "resched s c = Inr (s2, load_context (ctx q))" "proc_of s (get_id s) = Some p" "proc_of s i = Some q"
      "sched_wf s2" "running s2" "get_id s2 = i"
      "proc_of s2 = (proc_of s)(get_id s \<mapsto> p\<lparr>ctx := save_context c\<rparr>, i \<mapsto> q\<lparr>state := Current\<rparr>)"
      using resched_from_killed [OF assms(1) False Cons, of c] by blast
    with assms(2) ne show ?thesis
      by (intro that(2) [OF Cons, of p q "p\<lparr>ctx := save_context c\<rparr>"]) simp_all
  qed
qed

lemma resched_wf: "sched_wf s \<Longrightarrow> resched s c = Inr (s', c') \<Longrightarrow> sched_wf s'"
  by (rule resched_cases) auto

lemma resched_returns: "sched_wf s \<Longrightarrow> \<exists>s' c'. resched s c = Inr (s', c')"
  using resched_idle [of s c] resched_switch [of s _ _ c] resched_from_killed [of s _ _ c]
  by (cases "ready_list s"; cases "running s") blast+

text \<open>
  What \<^verbatim>\<open>resched\<close> does in general, also when the ready list has an id twice or that of the running process: the
  running process goes on, or it is switched for another, whose context is loaded.
\<close>

lemma resched_safe_cases:
  assumes "sched_safe s" and "resched s c = Inr (s', c')"
  obtains (stays) "get_id s' = get_id s" "c' = c" "\<And>j. map_option ctx (proc_of s' j) = map_option ctx (proc_of s j)" "sched_safe s'"
  | (switches) i p p' q where "proc_of s (get_id s) = Some p" "proc_of s i = Some q" "i \<noteq> get_id s" "get_id s' = i"
      "c' = load_context (ctx q)" "ctx p' = save_context c"
      "proc_of s' = (proc_of s)(get_id s \<mapsto> p', i \<mapsto> q\<lparr>state := Current\<rparr>)" "sched_safe s'"
proof (cases "ready_list s")
  case Nil
  then show ?thesis using assms by (intro stays) (simp_all add: resched_idle)
next
  case (Cons n rest)
  let ?c = "get_id s"
  from assms(1) obtain p where p: "proc_of s ?c = Some p" and tw: "table_wf (task_table s)" by (auto simp: sched_safe_def)
  then have pid: "pid p = ?c" by (auto simp: table_wf_def proc_of_def)
  define p0 where "p0 = (if state p = Current then p\<lparr>state := Ready\<rparr> else p)"
  define r where "r = (if state p = Current then rest @ [?c] else rest)"
  have p0: "pid p0 = ?c" "state p0 \<noteq> Current" "ctx p0 = ctx p" using pid by (auto simp: p0_def)
  show ?thesis
  proof (cases "n = ?c")
    case True
    with assms(2) Cons p have s': "s' = put_proc ?c p0 (s\<lparr>ready_list := r\<rparr>)" "c' = c"
      by (simp_all add: resched_def set_state_def p0_def r_def Let_def split: if_splits)
    have "table_wf (task_table s')" unfolding s' using tw p p0 by (intro table_wf_put) simp_all
    moreover have "get_id s' = ?c" by (simp add: s' get_id_def)
    ultimately have "sched_safe s'" using assms(1) p0 p by (auto simp: s' sched_safe_def get_id_def split: if_splits)
    then show ?thesis using s' p p0 by (intro stays) (simp_all add: get_id_def)
  next
    case False
    obtain q where q: "proc_of s n = Some q"
      using assms(2) Cons p False by (cases "proc_of s n") (auto simp: resched_def Let_def res_simps split: if_splits)
    then have pidq: "pid q = n" using tw by (auto simp: table_wf_def proc_of_def)
    let ?s0 = "s\<lparr>ready_list := r, current_pid := inner n\<rparr>"
    let ?s1 = "put_proc n (q\<lparr>state := Current\<rparr>) ?s0"
    have s': "s' = put_proc ?c (p0\<lparr>ctx := save_context c\<rparr>) ?s1" "c' = load_context (ctx q)"
      using assms(2) Cons p q False pidq
      by (simp_all add: resched_def set_state_def switch_to_eq p0_def r_def Let_def split: if_splits)
    have "table_wf (task_table ?s1)" using tw q pidq by (intro table_wf_put) simp_all
    then have "table_wf (task_table s')" unfolding s' using p p0(1) by (intro table_wf_put [of ?s1]) simp_all
    moreover have g: "get_id s' = n" by (simp add: s' get_id_def)
    moreover have pr: "proc_of s' = (proc_of s)(?c \<mapsto> p0\<lparr>ctx := save_context c\<rparr>, n \<mapsto> q\<lparr>state := Current\<rparr>)"
      using False by (auto simp: s' fun_eq_iff)
    ultimately have "sched_safe s'" using assms(1) p0(2) False by (auto simp: sched_safe_def split: if_splits)
    then show ?thesis using switches [OF p q False g s'(2) _ pr] by simp
  qed
qed

lemma resched_safe: "sched_safe s \<Longrightarrow> resched s c = Inr (s', c') \<Longrightarrow> sched_safe s'"
  by (rule resched_safe_cases) auto

text \<open>It brings no process into the cycle and forgets none.\<close>

lemma resched_cycle:
  assumes "sched_wf s" and "resched s c = Inr (s', c')"
  shows "set (cycle s') \<subseteq> set (cycle s)" and "proc_of s j \<noteq> None \<Longrightarrow> proc_of s' j \<noteq> None"
proof -
  have "set (cycle s') \<subseteq> set (cycle s) \<and> (proc_of s j \<noteq> None \<longrightarrow> proc_of s' j \<noteq> None)"
    using resched_idle [of s c] resched_switch [of s _ _ c] resched_from_killed [of s _ _ c] assms
    by (cases "ready_list s"; cases "running s") (fastforce simp: cycle_def)+
  then show "set (cycle s') \<subseteq> set (cycle s)" "proc_of s j \<noteq> None \<Longrightarrow> proc_of s' j \<noteq> None" by simp_all
qed

section \<open>Creating, readying and killing\<close>

lemma rupdate_ok [simp]: "i < length xs \<Longrightarrow> rupdate xs i x = Inr (xs[i := x])"
  by (simp add: rupdate_def)

text \<open>The stack of a new process: entry point, return address and scheduler at its top.\<close>

definition initial_stack :: "create_env \<Rightarrow> usize \<Rightarrow> usize list" where
  "initial_stack env func = replicate 1021 0 @ [func, return_ptr env, self_ptr env]"

definition new_process :: "create_env \<Rightarrow> usize \<Rightarrow> string \<Rightarrow> ProcessId \<Rightarrow> Process" where
  "new_process env func nm i =
     (process_new i)\<lparr>stack := Some (initial_stack env func), name := nm,
       ctx := context_new\<lparr>ctx_cr3 := active_cr3 env, ctx_rsp := stack_ptr env + 8168\<rparr>\<rparr>"

lemma fill_stack:
  "rfold (\<lambda>(i, v) stk. rupdate stk (1021 + i) v) (enumerate 0 [a, b, c]) (replicate 1024 0)
     = Inr (replicate 1021 0 @ [a, b, c :: usize])"
proof -
  have "replicate 1024 (0 :: usize) = replicate 1021 0 @ [0, 0, 0]"
    using replicate_add [of 1021 3 "0 :: usize"] by (simp add: numeral_3_eq_3)
  then show ?thesis by (simp add: list_update_append)
qed

text \<open>An id that a search from the table's position on finds.\<close>

definition room_left :: "CoopScheduler \<Rightarrow> bool" where
  "room_left s \<longleftrightarrow> (\<exists>k. search_start (task_table s) \<le> k \<and> k < MAX_PROCS \<and> proc_of s (ProcessId k) = None)"

lemma proc_add_room:
  assumes "table_wf l"
  shows "\<exists>r l'. proc_add True l = Inr (r, l') \<and> table_wf l'
     \<and> (case r of Inr i \<Rightarrow> procs l i = None \<and> procs l' = (procs l)(i \<mapsto> process_new i)
          \<and> search_start l \<le> inner i \<and> inner i < MAX_PROCS
        | Inl e \<Rightarrow> e = - 1 \<and> procs l' = procs l
            \<and> (\<forall>k. search_start l \<le> k \<longrightarrow> k < MAX_PROCS \<longrightarrow> procs l (ProcessId k) \<noteq> None))"
proof -
  obtain r l' where r: "proc_add True l = Inr (r, l')" "table_wf l'"
    "case r of Inr i \<Rightarrow> procs l i = None \<and> procs l' = (procs l)(i \<mapsto> process_new i) \<and> search_start l \<le> inner i
          \<and> (\<forall>k. search_start l \<le> k \<longrightarrow> k < inner i \<longrightarrow> procs l (ProcessId k) \<noteq> None)
     | Inl e \<Rightarrow> e = - 1 \<and> procs l' = procs l \<and> (\<forall>k. search_start l \<le> k \<longrightarrow> k < MAX_PROCS \<longrightarrow> procs l (ProcessId k) \<noteq> None)"
    using proc_add_ok [OF assms] by blast
  show ?thesis
  proof (cases r)
    case (Inr i)
    with r(3) have i: "procs l i = None" "procs l' = (procs l)(i \<mapsto> process_new i)" "search_start l \<le> inner i" by simp_all
    then have "procs l' i = Some (process_new i)" by simp
    then have "inner i < MAX_PROCS" using r(2) unfolding table_wf_def by blast
    with r(1,2) Inr i show ?thesis by simp
  next
    case (Inl e)
    with r show ?thesis by simp
  qed
qed

text \<open>The heap gives what \<^verbatim>\<open>create\<close> asks for; the entry of the table is asked for only when there is an id.\<close>

definition create_served :: "create_env \<Rightarrow> CoopScheduler \<Rightarrow> bool" where
  "create_served env s \<longleftrightarrow> heap_gives env StackBuffer \<and> heap_gives env SelfBox \<and> heap_gives env InitialValues
     \<and> (room_left s \<longrightarrow> heap_gives env TableEntry)"

lemma create_ok:
  assumes wf: "table_wf (task_table s)" and ptr: "unat (stack_ptr env) + 8168 < 2 ^ 64" and served: "create_served env s"
  shows "\<exists>r s'. create env func nm s = Inr (r, s') \<and> table_wf (task_table s')
     \<and> current_pid s' = current_pid s \<and> ready_list s' = ready_list s
     \<and> (case r of
          Inr i \<Rightarrow> proc_of s i = None \<and> proc_of s' = (proc_of s)(i \<mapsto> new_process env func nm i)
        | Inl e \<Rightarrow> e = - 1 \<and> proc_of s' = proc_of s)
     \<and> (case r of Inr _ \<Rightarrow> room_left s | Inl _ \<Rightarrow> \<not> room_left s)"
proof -
  obtain r l where l0: "proc_add True (task_table s) = Inr (r, l)" and l2: "table_wf l" and l3:
    "case r of Inr i \<Rightarrow> procs (task_table s) i = None \<and> procs l = (procs (task_table s))(i \<mapsto> process_new i)
         \<and> search_start (task_table s) \<le> inner i \<and> inner i < MAX_PROCS
     | Inl e \<Rightarrow> e = - 1 \<and> procs l = procs (task_table s)
         \<and> (\<forall>k. search_start (task_table s) \<le> k \<longrightarrow> k < MAX_PROCS \<longrightarrow> procs (task_table s) (ProcessId k) \<noteq> None)"
    using proc_add_room [OF wf] by blast
  have room: "case r of Inr _ \<Rightarrow> room_left s | Inl _ \<Rightarrow> \<not> room_left s"
    using l3 by (auto simp: room_left_def proc_of_def split: sum.splits)
  then have "proc_add (heap_gives env TableEntry) (task_table s) = Inr (r, l)"
    using l0 proc_add_refused [OF l0] served by (cases r; cases "heap_gives env TableEntry") (simp_all add: create_served_def)
  note l = this l2 l3
  have sp: "checked_add (stack_ptr env) 8168 = Inr (stack_ptr env + 8168)" using ptr by (simp add: checked_add_def)
  show ?thesis
  proof (cases r)
    case (Inl e)
    then have "create env func nm s = Inr (Inl e, s\<lparr>task_table := l\<rparr>)"
      using l(1) sp fill_stack served by (simp add: create_def INITIAL_STACK_def create_served_def Let_def)
    with l Inl room show ?thesis by (auto simp: proc_of_def)
  next
    case (Inr i)
    let ?p = "new_process env func nm i"
    have at: "procs l i = Some (process_new i)" using l(3) Inr by simp
    have "create env func nm s = Inr (Inr i, put_proc i ?p (s\<lparr>task_table := l\<rparr>))"
      using l(1) sp fill_stack Inr at served
      by (simp add: create_def create_served_def INITIAL_STACK_def Let_def proc_get_def set_page_table_def set_stack_def
          ctx_set_page_table_def ctx_set_stack_def new_process_def initial_stack_def process_new_def)
    moreover have "table_wf (task_table (put_proc i ?p (s\<lparr>task_table := l\<rparr>)))"
      using l(2) at by (intro table_wf_put) (simp_all add: proc_of_def new_process_def process_new_def)
    ultimately show ?thesis
      using l(3) Inr room by (auto simp: proc_of_def put_proc_def)
  qed
qed

lemma create_refused:
  assumes "table_wf (task_table s)" and "unat (stack_ptr env) + 8168 < 2 ^ 64" and "\<not> create_served env s"
  shows "create env func nm s = Inl (Panic ''Out of memory'')"
proof -
  obtain r l where l: "proc_add True (task_table s) = Inr (r, l)"
    "case r of Inr i \<Rightarrow> True | Inl e \<Rightarrow> (\<forall>k. search_start (task_table s) \<le> k \<longrightarrow> k < MAX_PROCS \<longrightarrow> procs (task_table s) (ProcessId k) \<noteq> None)"
    using proc_add_room [OF assms(1)] by (force split: sum.splits)
  have "checked_add (stack_ptr env) 8168 = Inr (stack_ptr env + 8168)" using assms(2) by (simp add: checked_add_def)
  then have early: ?thesis if "\<not> (heap_gives env StackBuffer \<and> heap_gives env SelfBox \<and> heap_gives env InitialValues)"
    using that by (auto simp: create_def INITIAL_STACK_def heap_room_def Let_def)
  show ?thesis
  proof (cases "heap_gives env StackBuffer \<and> heap_gives env SelfBox \<and> heap_gives env InitialValues")
    case True
    with assms(3) have no: "room_left s" "\<not> heap_gives env TableEntry" by (auto simp: create_served_def)
    with l(2) have "\<exists>i. r = Inr i" by (cases r) (auto simp: room_left_def proc_of_def)
    with proc_add_refused [OF l(1)] have "proc_add False (task_table s) = Inl (Panic ''Out of memory'')" by auto
    with True no \<open>checked_add _ _ = _\<close> fill_stack show ?thesis by (simp add: create_def INITIAL_STACK_def Let_def)
  qed (rule early)
qed

lemma new_process_simps [simp]:
  "pid (new_process env f nm i) = i" "state (new_process env f nm i) = Suspended"
  "ctx_rflags (ctx (new_process env f nm i)) = 0" "stack (new_process env f nm i) = Some (initial_stack env f)"
  "ctx_rsp (ctx (new_process env f nm i)) = stack_ptr env + 8168"
  by (simp_all add: new_process_def process_new_def context_new_def)

lemma create_result:
  assumes tw: "table_wf (task_table s)" and ret: "create env func nm s = Inr (r, s')"
  shows "table_wf (task_table s')" and "get_id s' = get_id s" and "ready_list s' = ready_list s"
    and "case r of Inr i \<Rightarrow> proc_of s i = None \<and> proc_of s' = (proc_of s)(i \<mapsto> new_process env func nm i)
     | Inl e \<Rightarrow> e = - 1 \<and> proc_of s' = proc_of s"
proof -
  have ptr: "unat (stack_ptr env) + 8168 < 2 ^ 64"
    using ret by (auto simp: create_def INITIAL_STACK_def Let_def res_simps checked_add_def split: if_splits)
  have "create_served env s" using create_refused [OF tw ptr] ret by fastforce
  from create_ok [OF tw ptr this, of func nm] ret
  show "table_wf (task_table s')" "get_id s' = get_id s" "ready_list s' = ready_list s"
    "case r of Inr i \<Rightarrow> proc_of s i = None \<and> proc_of s' = (proc_of s)(i \<mapsto> new_process env func nm i)
     | Inl e \<Rightarrow> e = - 1 \<and> proc_of s' = proc_of s"
    by (auto simp: get_id_def)
qed

lemma create_keeps:
  assumes "table_wf (task_table s)" and "create env func nm s = Inr (r, s')" and "proc_of s j = Some p"
  shows "proc_of s' j = Some p"
  using create_result(4) [OF assms(1,2)] assms(3) by (cases r) auto

lemma create_safe:
  assumes "sched_safe s" and "create env func nm s = Inr (r, s')"
  shows "sched_safe s'"
proof -
  have "table_wf (task_table s)" using assms(1) by (simp add: sched_safe_def)
  note c = create_result [OF this assms(2)]
  show ?thesis using assms(1) c by (cases r) (auto simp: sched_safe_def split: if_splits)
qed

lemma create_wf:
  assumes "sched_wf s" and "create env func nm s = Inr (r, s')"
  shows "sched_wf s'" and "cycle s' = cycle s"
proof -
  have tw: "table_wf (task_table s)" using assms(1) by (simp add: sched_wf_def)
  note c = create_result [OF tw assms(2)]
  show cyc: "cycle s' = cycle s" using c by (simp add: cycle_def)
  show "sched_wf s'"
    using assms(1) c cyc create_keeps [OF tw assms(2)] by (cases r) (fastforce simp: sched_wf_def split: if_splits)+
qed

lemma ready_eq: "ready given i s = Inr s' \<longleftrightarrow> given \<and> s' = s\<lparr>ready_list := ready_list s @ [i]\<rparr>"
  by (auto simp: ready_def heap_room_def)

lemma ready_safe: "sched_safe s \<Longrightarrow> ready given i s = Inr s' \<Longrightarrow> sched_safe s'"
  by (auto simp: ready_eq sched_safe_def get_id_def)

lemma ready_wf:
  assumes "sched_wf s" and "proc_of s i \<noteq> None" and "i \<notin> set (cycle s)" and "ready given i s = Inr s'"
  shows "sched_wf s'" and "cycle s' = cycle s @ [i]" and "proc_of s' = proc_of s"
  using assms by (auto simp: sched_wf_def ready_eq cycle_def get_id_def fun_eq_iff)

definition killed :: "Process \<Rightarrow> Process" where
  "killed p = p\<lparr>state := Free, stack := None\<rparr>"

lemma kill_eq: "proc_of s i = Some p \<Longrightarrow> kill i s c = resched (put_proc i (killed p) s) c"
  by (simp add: kill_def killed_def set_state_def)

lemma put_killed_safe:
  assumes "sched_safe s" and "proc_of s i = Some p"
  shows "sched_safe (put_proc i (killed p) s)"
proof -
  have "pid p = i" using assms by (auto simp: sched_safe_def table_wf_def proc_of_def)
  then have "table_wf (task_table (put_proc i (killed p) s))"
    using assms by (intro table_wf_put) (auto simp: sched_safe_def killed_def)
  with assms show ?thesis by (auto simp: sched_safe_def killed_def split: if_splits)
qed

lemma kill_safe: "sched_safe s \<Longrightarrow> kill i s c = Inr (s', c') \<Longrightarrow> sched_safe s'"
  using resched_safe [OF put_killed_safe] kill_eq [of s i _ c] by (cases "proc_of s i") (simp add: kill_def, metis)

lemma put_killed_wf:
  assumes "sched_wf s" and "proc_of s i = Some p"
  shows "sched_wf (put_proc i (killed p) s)"
  using put_killed_safe [OF sched_wf_safe [OF assms(1)] assms(2)] assms by (auto simp: sched_wf_def sched_safe_def)

lemma kill_wf: "sched_wf s \<Longrightarrow> kill i s c = Inr (s', c') \<Longrightarrow> sched_wf s'"
  using resched_wf [OF put_killed_wf] kill_eq [of s i _ c] by (cases "proc_of s i") (simp add: kill_def, metis)


section \<open>Round robin\<close>

text \<open>
  The contract of a round-robin scheduler: a step rotates the cycle whose head is the running
  process. Its clients get that every process of the cycle runs after as many steps as its
  distance from the head.
\<close>

locale round_robin =
  fixes step :: "'s \<Rightarrow> 's res"
    and cyc :: "'s \<Rightarrow> 'p list"
    and ok :: "'s \<Rightarrow> bool"
  assumes step_rotates: "ok s \<Longrightarrow> \<exists>s'. step s = Inr s' \<and> ok s' \<and> cyc s' = rotate1 (cyc s)"
    and cyc_ne: "ok s \<Longrightarrow> cyc s \<noteq> []"
begin

fun steps :: "nat \<Rightarrow> 's \<Rightarrow> 's res" where
  "steps 0 s = Inr s"
| "steps (Suc n) s = rbind (step s) (steps n)"

lemma steps_rotate:
  assumes "ok s"
  shows "\<exists>s'. steps n s = Inr s' \<and> ok s' \<and> cyc s' = rotate n (cyc s)"
  using assms
proof (induction n arbitrary: s)
  case (Suc n)
  obtain t where t: "step s = Inr t" "ok t" "cyc t = rotate1 (cyc s)" using step_rotates [OF Suc.prems] by blast
  obtain u where "steps n t = Inr u" "ok u" "cyc u = rotate n (cyc t)" using Suc.IH [OF t(2)] by blast
  with t show ?case by (auto simp: rotate1_rotate_swap)
qed simp

lemma fair:
  assumes "ok s" and "k < length (cyc s)"
  shows "\<exists>s'. steps k s = Inr s' \<and> ok s' \<and> hd (cyc s') = cyc s ! k"
proof -
  obtain t where t: "steps k s = Inr t" "ok t" "cyc t = rotate k (cyc s)" using steps_rotate [OF assms(1)] by blast
  have "hd (rotate k (cyc s)) = cyc s ! (k mod length (cyc s))"
    using cyc_ne [OF assms(1)] by (rule hd_rotate_conv_nth)
  with t assms(2) show ?thesis by simp
qed

end

interpretation rr: round_robin "\<lambda>(s, c). resched s c" "\<lambda>(s, c). cycle s" "\<lambda>(s, c). sched_wf s \<and> running s"
proof unfold_locales
  fix x :: "CoopScheduler \<times> Cpu"
  obtain s c where x: "x = (s, c)" by (cases x)
  assume ok: "case x of (s, c) \<Rightarrow> sched_wf s \<and> running s"
  show "(case x of (s, c) \<Rightarrow> cycle s) \<noteq> []" by (simp add: x cycle_def)
  show "\<exists>x'. (case x of (s, c) \<Rightarrow> resched s c) = Inr x' \<and> (case x' of (s, c) \<Rightarrow> sched_wf s \<and> running s)
      \<and> (case x' of (s, c) \<Rightarrow> cycle s) = rotate1 (case x of (s, c) \<Rightarrow> cycle s)"
  proof (cases "ready_list s")
    case Nil
    with ok show ?thesis by (simp add: x resched_idle cycle_def)
  next
    case (Cons i rest)
    with ok resched_switch [of s i rest c] show ?thesis by (auto simp: x)
  qed
qed

section \<open>Steps of the system\<close>

text \<open>
  What can happen to the scheduler and the registers: the running process changes its registers, or one of the
  scheduler's operations is called and returns, whatever its arguments.
\<close>

inductive sched_step :: "CoopScheduler \<times> Cpu \<Rightarrow> CoopScheduler \<times> Cpu \<Rightarrow> bool" where
  run: "sched_step (s, c) (s, c')"
| do_resched: "resched s c = Inr (s', c') \<Longrightarrow> sched_step (s, c) (s', c')"
| do_kill: "kill i s c = Inr (s', c') \<Longrightarrow> sched_step (s, c) (s', c')"
| do_ready: "ready given i s = Inr s' \<Longrightarrow> sched_step (s, c) (s', c)"
| do_create: "create env func nm s = Inr (r, s') \<Longrightarrow> sched_step (s, c) (s', c)"

inductive_cases sched_stepE: "sched_step (s, c) (s', c')"

lemma sched_step_safe: "sched_step x y \<Longrightarrow> sched_safe (fst x) \<Longrightarrow> sched_safe (fst y)"
  by (induction rule: sched_step.induct) (auto dest: resched_safe kill_safe create_safe ready_safe)

lemma sched_steps_safe: "sched_step\<^sup>*\<^sup>* x y \<Longrightarrow> sched_safe (fst x) \<Longrightarrow> sched_safe (fst y)"
  by (induction rule: rtranclp_induct) (auto dest: sched_step_safe)

text \<open>
  The steps the kernel makes. It calls \<^verbatim>\<open>ready\<close> in one place, the system call of \<^verbatim>\<open>syscall/process.rs\<close>, on the id that
  \<^verbatim>\<open>create\<close> has returned there. The third component are the ids that were returned and not yet made ready; between the
  two calls anything else may happen.
\<close>

inductive kernel_step ::
  "CoopScheduler \<times> Cpu \<times> ProcessId set \<Rightarrow> CoopScheduler \<times> Cpu \<times> ProcessId set \<Rightarrow> bool" where
  k_run: "kernel_step (s, c, P) (s, c', P)"
| k_resched: "resched s c = Inr (s', c') \<Longrightarrow> kernel_step (s, c, P) (s', c', P)"
| k_kill: "kill i s c = Inr (s', c') \<Longrightarrow> kernel_step (s, c, P) (s', c', P)"
| k_create: "create env func nm s = Inr (Inr i, s') \<Longrightarrow> kernel_step (s, c, P) (s', c, insert i P)"
| k_full: "create env func nm s = Inr (Inl e, s') \<Longrightarrow> kernel_step (s, c, P) (s', c, P)"
| k_ready: "i \<in> P \<Longrightarrow> ready given i s = Inr s' \<Longrightarrow> kernel_step (s, c, P) (s', c, P - {i})"

text \<open>The new ids are those of processes outside the cycle.\<close>

definition kernel_inv :: "CoopScheduler \<Rightarrow> ProcessId set \<Rightarrow> bool" where
  "kernel_inv s P \<longleftrightarrow> sched_wf s \<and> (\<forall>i \<in> P. proc_of s i \<noteq> None \<and> i \<notin> set (cycle s))"

lemma kernel_inv_resched:
  assumes "kernel_inv s P" and "resched s c = Inr (s', c')"
  shows "kernel_inv s' P"
proof -
  have wf: "sched_wf s" using assms(1) by (simp add: kernel_inv_def)
  show ?thesis using assms(1) resched_wf [OF wf assms(2)] resched_cycle [OF wf assms(2)] by (auto simp: kernel_inv_def)
qed

lemma kernel_inv_kill:
  assumes "kernel_inv s P" and "kill i s c = Inr (s', c')"
  shows "kernel_inv s' P"
proof -
  obtain p where p: "proc_of s i = Some p" using assms(2) by (cases "proc_of s i") (auto simp: kill_def)
  have "kernel_inv (put_proc i (killed p) s) P" using assms(1) put_killed_wf [OF _ p] by (auto simp: kernel_inv_def)
  then show ?thesis by (rule kernel_inv_resched) (use assms(2) kill_eq [OF p] in simp)
qed

lemma kernel_inv_create:
  assumes "kernel_inv s P" and "create env func nm s = Inr (r, s')"
  shows "kernel_inv s' (case r of Inr i \<Rightarrow> insert i P | Inl e \<Rightarrow> P)"
proof -
  have wf: "sched_wf s" and tw: "table_wf (task_table s)" using assms(1) by (simp_all add: kernel_inv_def sched_wf_def)
  have old: "proc_of s' j \<noteq> None" if "proc_of s j \<noteq> None" for j using create_keeps [OF tw assms(2)] that by blast
  show ?thesis
  proof (cases r)
    case (Inr i)
    then have "proc_of s i = None" "proc_of s' i \<noteq> None" using create_result(4) [OF tw assms(2)] by simp_all
    moreover from this have "i \<notin> set (cycle s)" using wf by (auto simp: sched_wf_def)
    ultimately show ?thesis using assms(1) old create_wf [OF wf assms(2)] Inr by (auto simp: kernel_inv_def)
  qed (use assms(1) old create_wf [OF wf assms(2)] in \<open>auto simp: kernel_inv_def\<close>)
qed

lemma kernel_inv_ready:
  assumes "kernel_inv s P" and "i \<in> P" and "ready given i s = Inr s'"
  shows "kernel_inv s' (P - {i})"
proof -
  have "sched_wf s" "proc_of s i \<noteq> None" "i \<notin> set (cycle s)" using assms(1,2) by (auto simp: kernel_inv_def)
  from ready_wf [OF this assms(3)] assms(1) show ?thesis by (auto simp: kernel_inv_def)
qed

lemma kernel_step_inv: "kernel_step (s, c, P) (s', c', P') \<Longrightarrow> kernel_inv s P \<Longrightarrow> kernel_inv s' P'"
  by (erule kernel_step.cases)
    (auto dest: kernel_inv_resched kernel_inv_kill kernel_inv_create kernel_inv_ready)

lemma kernel_steps_inv: "kernel_step\<^sup>*\<^sup>* (s, c, P) (s', c', P') \<Longrightarrow> kernel_inv s P \<Longrightarrow> kernel_inv s' P'"
  by (induction rule: rtranclp_induct [where r = kernel_step, split_format (complete)]) (auto dest: kernel_step_inv)

text \<open>Nothing but its own switch writes the context of a process that is not running.\<close>

definition same_context :: "CoopScheduler \<Rightarrow> CoopScheduler \<Rightarrow> ProcessId \<Rightarrow> bool" where
  "same_context s s' i \<longleftrightarrow> map_option ctx (proc_of s' i) = map_option ctx (proc_of s i)"

lemma resched_context:
  assumes "sched_safe s" and "resched s c = Inr (s', c')" and "i \<noteq> get_id s"
  shows "same_context s s' i"
  using assms(1,2) by (rule resched_safe_cases) (use assms(3) in \<open>auto simp: same_context_def\<close>)

lemma kill_context:
  assumes "sched_safe s" and "kill j s c = Inr (s', c')" and "i \<noteq> get_id s"
  shows "same_context s s' i"
proof -
  obtain p where p: "proc_of s j = Some p" using assms(2) by (cases "proc_of s j") (auto simp: kill_def)
  have "same_context (put_proc j (killed p) s) s' i"
    using resched_context [OF put_killed_safe [OF assms(1) p]] assms(2,3) kill_eq [OF p] by simp
  with p show ?thesis by (simp add: same_context_def killed_def split: if_splits)
qed

lemma step_context:
  assumes "sched_step (s, c) (s', c')" and "sched_safe s" and "i \<noteq> get_id s" and "proc_of s i \<noteq> None"
  shows "same_context s s' i"
  using assms(1)
proof (rule sched_stepE)
  assume "s' = s"
  then show ?thesis by (simp add: same_context_def)
next
  assume "resched s c = Inr (s', c')"
  then show ?thesis by (rule resched_context [OF assms(2) _ assms(3)])
next
  fix j assume "kill j s c = Inr (s', c')"
  then show ?thesis by (rule kill_context [OF assms(2) _ assms(3)])
next
  fix given j assume "ready given j s = Inr s'"
  then show ?thesis by (simp add: same_context_def ready_eq)
next
  fix env func nm r assume c: "create env func nm s = Inr (r, s')"
  have "table_wf (task_table s)" using assms(2) by (simp add: sched_safe_def)
  from create_keeps [OF this c] assms(4) show ?thesis by (auto simp: same_context_def)
qed

text \<open>A stretch of steps in which process \<open>i\<close> does not run.\<close>

inductive away :: "ProcessId \<Rightarrow> CoopScheduler \<times> Cpu \<Rightarrow> CoopScheduler \<times> Cpu \<Rightarrow> bool" for i where
  away_refl: "get_id (fst x) \<noteq> i \<Longrightarrow> away i x x"
| away_step: "away i x y \<Longrightarrow> sched_step y z \<Longrightarrow> get_id (fst z) \<noteq> i \<Longrightarrow> away i x z"

lemma away_start: "away i x y \<Longrightarrow> get_id (fst x) \<noteq> i"
  by (induction rule: away.induct) simp_all

lemma away_context:
  assumes "away i x y" and "sched_safe (fst x)" and "proc_of (fst x) i \<noteq> None"
  shows "sched_safe (fst y) \<and> same_context (fst x) (fst y) i \<and> get_id (fst y) \<noteq> i"
  using assms
proof (induction rule: away.induct)
  case (away_step x y z)
  then have y: "sched_safe (fst y)" "same_context (fst x) (fst y) i" "get_id (fst y) \<noteq> i" by simp_all
  then have "proc_of (fst y) i \<noteq> None" using away_step.prems by (auto simp: same_context_def)
  with y away_step.hyps(2) have "same_context (fst y) (fst z) i"
    using step_context [of "fst y" "snd y" "fst z" "snd z"] by simp
  with y away_step.hyps sched_step_safe show ?case by (auto simp: same_context_def)
qed (simp add: same_context_def)

lemma switched_back:
  assumes safe: "sched_safe s0" and out: "resched s0 c0 = Inr (s1, c1)" and aw: "away (get_id s0) (s1, c1) (s2, c2)"
    and bk: "resched s2 c2 = Inr (s3, c3)" "get_id s3 = get_id s0"
  shows "c3 = c0"
proof -
  let ?i = "get_id s0"
  have g1: "get_id s1 \<noteq> ?i" using away_start [OF aw] by simp
  from safe out show ?thesis
  proof (cases rule: resched_safe_cases)
    case (switches i p p' q)
    then have saved: "map_option ctx (proc_of s1 ?i) = Some (save_context c0)" and "sched_safe s1" by auto
    with away_context [OF aw] have s2: "sched_safe s2" "map_option ctx (proc_of s2 ?i) = Some (save_context c0)" "get_id s2 \<noteq> ?i"
      by (auto simp: same_context_def)
    from s2(1) bk(1) show ?thesis
      by (rule resched_safe_cases) (use s2 bk(2) in auto)
  qed (use g1 in simp)
qed

text \<open>Switching takes no stack away and gives none back.\<close>

lemma steps_stack:
  assumes "sched_wf s" and "running s" and "rr.steps n (s, c) = Inr (s', c')"
  shows "map_option stack (proc_of s' j) = map_option stack (proc_of s j)"
  using assms
proof (induction n arbitrary: s c)
  case (Suc n)
  show ?case
  proof (cases "ready_list s")
    case Nil
    with Suc show ?thesis by (simp add: resched_idle)
  next
    case (Cons i rest)
    obtain s1 p q where s1: "resched s c = Inr (s1, load_context (ctx q))" "proc_of s (get_id s) = Some p" "proc_of s i = Some q"
      "sched_wf s1" "running s1"
      "proc_of s1 = (proc_of s)(get_id s \<mapsto> p\<lparr>state := Ready, ctx := save_context c\<rparr>, i \<mapsto> q\<lparr>state := Current\<rparr>)"
      using resched_switch [OF Suc.prems(1,2) Cons, of c] by blast
    with Suc.IH [of s1 "load_context (ctx q)"] Suc.prems(3) show ?thesis by simp
  qed
qed simp

section \<open>An example\<close>

definition example_env :: create_env where
  "example_env = \<lparr>stack_ptr = 0x40001000, self_ptr = 0x40000010, return_ptr = 0x101000, active_cr3 = 0x9000,
     heap_gives = (\<lambda>_. True), heap_uses = 12\<rparr>"

definition example_sched :: CoopScheduler where
  "example_sched = \<lparr>current_pid = 0,
     task_table = \<lparr>procs = [ProcessId 0 \<mapsto> (process_new (ProcessId 0))\<lparr>state := Current, stack := Some []\<rparr>,
        ProcessId 1 \<mapsto> new_process example_env 0x102000 ''a'' (ProcessId 1)], next_id = 2\<rparr>,
     ready_list = [ProcessId 1]\<rparr>"

lemma example_sched_wf: "sched_wf example_sched" and example_sched_running: "running example_sched"
  and example_ready: "ready_list example_sched = [ProcessId 1]" and example_current: "get_id example_sched = ProcessId 0"
  and example_proc: "proc_of example_sched (ProcessId 1) = Some (new_process example_env 0x102000 ''a'' (ProcessId 1))"
proof -
  have "table_wf (task_table example_sched)"
    by (auto simp: table_wf_def example_sched_def MAX_PROCS_def NULL_PROC_def process_new_def)
  then show "sched_wf example_sched"
    by (auto simp: sched_wf_def cycle_def get_id_def proc_of_def example_sched_def split: if_splits)
qed (simp_all add: running_def get_id_def proc_of_def example_sched_def)

lemma example_room: "room_left example_sched"
  unfolding room_left_def
  by (rule exI [of _ 2]) (simp add: search_start_def example_sched_def proc_of_def MAX_PROCS_def)

section \<open>Properties\<close>

text \<open>
  C5. Rescheduling is round robin: when a process runs and others are ready, \<^verbatim>\<open>resched\<close> returns
  with the first ready process running, the cycle of processes rotated by one, the registers of
  the old process saved in its context and those of the new one loaded from its context; no
  other process changes, and the invariant is kept.
\<close>

theorem resched_round_robin:
  assumes "sched_wf s" and "running s" and "ready_list s = i # rest"
  shows "\<exists>s' p q. resched s c = Inr (s', load_context (ctx q)) \<and> proc_of s (get_id s) = Some p \<and> proc_of s i = Some q
     \<and> sched_wf s' \<and> running s' \<and> cycle s' = rotate1 (cycle s) \<and> get_id s' = i
     \<and> proc_of s' = (proc_of s)(get_id s \<mapsto> p\<lparr>state := Ready, ctx := save_context c\<rparr>, i \<mapsto> q\<lparr>state := Current\<rparr>)"
  using assms by (rule resched_switch)

theorem resched_round_robin_witness:
  "\<exists>s'. resched example_sched (load_context context_new)
       = Inr (s', load_context (ctx (new_process example_env 0x102000 ''a'' (ProcessId 1))))
     \<and> cycle s' = [ProcessId 1, ProcessId 0]"
  using resched_round_robin [OF example_sched_wf example_sched_running example_ready, of "load_context context_new"]
    example_proc by (auto simp: cycle_def example_ready example_current)

text \<open>
  C20. Scheduling is fair: the \<open>k\<close>-th process of the cycle runs after exactly \<open>k\<close> calls of
  \<^verbatim>\<open>resched\<close>, none of which panics.
\<close>

theorem resched_fair:
  assumes "sched_wf s" and "running s" and "k \<le> length (ready_list s)"
  shows "\<exists>s' c'. rr.steps k (s, c) = Inr (s', c') \<and> sched_wf s' \<and> running s' \<and> get_id s' = cycle s ! k"
  using rr.fair [of "(s, c)" k] assms by (auto simp: cycle_def)

theorem resched_fair_witness:
  "\<exists>s' c'. rr.steps 1 (example_sched, load_context context_new) = Inr (s', c') \<and> get_id s' = ProcessId 1"
  using resched_fair [OF example_sched_wf example_sched_running, of 1 "load_context context_new"]
  by (auto simp: cycle_def example_ready)

text \<open>
  C21. A process that is switched away finds its registers again: when \<^verbatim>\<open>resched\<close> takes the
  processor from a process, and after any number of steps of the others (running, rescheduling,
  creating, readying and killing processes, with any arguments) it gives the processor back, all registers are what
  they were.
\<close>

theorem context_restored:
  assumes "sched_safe s0" and "resched s0 c0 = Inr (s1, c1)" and "away (get_id s0) (s1, c1) (s2, c2)"
    and "resched s2 c2 = Inr (s3, c3)" and "get_id s3 = get_id s0"
  shows "c3 = c0"
  using assms by (rule switched_back)

theorem context_restored_witness:
  "\<exists>s1 c1 s3. resched example_sched (load_context (context_new\<lparr>ctx_rsp := 0x5000\<rparr>)) = Inr (s1, c1)
     \<and> resched s1 (load_context context_new) = Inr (s3, load_context (context_new\<lparr>ctx_rsp := 0x5000\<rparr>))"
proof -
  let ?c0 = "load_context (context_new\<lparr>ctx_rsp := 0x5000\<rparr>)" and ?c2 = "load_context context_new"
  obtain s1 c1 where s1: "resched example_sched ?c0 = Inr (s1, c1)" "sched_wf s1" "running s1"
      "cycle s1 = [ProcessId 1, ProcessId 0]" "get_id s1 = ProcessId 1"
    using resched_switch [OF example_sched_wf example_sched_running example_ready, of ?c0]
    by (auto simp: cycle_def example_ready example_current)
  have r1: "ready_list s1 = [ProcessId 0]" using s1(4) by (simp add: cycle_def)
  obtain s3 c3 where s3: "resched s1 ?c2 = Inr (s3, c3)" "get_id s3 = ProcessId 0"
    using resched_switch [OF s1(2,3) r1, of ?c2] by auto
  have "away (ProcessId 0) (s1, c1) (s1, c1)" using s1(5) by (intro away_refl) simp
  then have aw: "away (ProcessId 0) (s1, c1) (s1, ?c2)"
    by (rule away_step) (use s1(5) in \<open>auto intro: sched_step.run\<close>)
  have "c3 = ?c0"
    by (rule context_restored [OF sched_wf_safe [OF example_sched_wf] s1(1) _ s3(1)]) (simp_all add: aw s3(2) example_current)
  with s1(1) s3(1) show ?thesis by auto
qed

text \<open>
  C10. The scheduler's invariants. In every state that is reached from the start by any calls of its operations, with
  whatever arguments and in whatever order, the task table is well formed, the running process is known and no
  other process is in state \<^verbatim>\<open>Current\<close>. In every state that is reached by the calls the kernel makes, where \<^verbatim>\<open>ready\<close> is
  called once for an id that \<^verbatim>\<open>create\<close> returned, the running process and the ready ones are moreover known and pairwise
  distinct, so that \<^verbatim>\<open>resched\<close> does not panic. (\<^verbatim>\<open>ready\<close> itself checks nothing: called twice for an id it puts it
  into the list twice.)
\<close>

theorem scheduler_invariant:
  "(sched_step\<^sup>*\<^sup>* (sched_new, c) (s, c') \<longrightarrow> sched_safe s)
   \<and> (kernel_step\<^sup>*\<^sup>* (sched_new, c, {}) (s, c', P) \<longrightarrow> sched_wf s \<and> (\<exists>s'' c''. resched s c' = Inr (s'', c'')))"
proof (intro conjI impI)
  show "sched_safe s" if "sched_step\<^sup>*\<^sup>* (sched_new, c) (s, c')"
    using sched_steps_safe [OF that] sched_wf_safe [OF sched_wf_new] by simp
  assume "kernel_step\<^sup>*\<^sup>* (sched_new, c, {}) (s, c', P)"
  then show wf: "sched_wf s" using kernel_steps_inv sched_wf_new by (fastforce simp: kernel_inv_def)
  then show "\<exists>s'' c''. resched s c' = Inr (s'', c'')" by (rule resched_returns)
qed

text \<open>A process is created, made ready, run and killed.\<close>

theorem scheduler_invariant_witness:
  "\<exists>s c i. kernel_step\<^sup>*\<^sup>* (sched_new, load_context context_new, {}) (s, c, {}) \<and> get_id s = NULL_PROC
     \<and> i \<noteq> NULL_PROC \<and> map_option state (proc_of s i) = Some Free \<and> sched_wf s"
proof -
  let ?c = "load_context context_new" and ?s0 = "sched_new"
  have tw: "table_wf (task_table ?s0)" using sched_wf_new by (simp add: sched_wf_def)
  have n0: "get_id ?s0 = NULL_PROC" "ready_list ?s0 = []" by (simp_all add: sched_new_def get_id_def)
  have room: "room_left ?s0" unfolding room_left_def
    by (rule exI [of _ 1]) (simp add: search_start_def sched_new_def process_list_new_def proc_of_def NULL_PROC_def MAX_PROCS_def)
  have "create_served example_env ?s0" "unat (stack_ptr example_env) + 8168 < 2 ^ 64" by (simp_all add: create_served_def example_env_def)
  from create_ok [OF tw this(2,1), of "0x102000" "''a''"] obtain r s1 where c: "create example_env 0x102000 ''a'' ?s0 = Inr (r, s1)"
    "case r of Inr i \<Rightarrow> proc_of ?s0 i = None | Inl e \<Rightarrow> True" "case r of Inr _ \<Rightarrow> room_left ?s0 | Inl _ \<Rightarrow> \<not> room_left ?s0"
    by (fastforce split: sum.splits)
  with room obtain i where "r = Inr i" by (cases r) auto
  with c have s1: "create example_env 0x102000 ''a'' ?s0 = Inr (Inr i, s1)" "proc_of ?s0 i = None" by simp_all
  have wf1: "sched_wf s1" "cycle s1 = [NULL_PROC]" using create_wf [OF sched_wf_new s1(1)] n0 by (simp_all add: cycle_def)
  have p1: "proc_of s1 i \<noteq> None" using create_result(4) [OF tw s1(1)] by simp
  have i: "i \<noteq> NULL_PROC" using s1(2) running_new n0(1) by (auto simp: running_def)
  obtain s2 where s2: "ready True i s1 = Inr s2" by (simp add: ready_def)
  have r: "sched_wf s2" "cycle s2 = [NULL_PROC, i]" "proc_of s2 = proc_of s1" using ready_wf [OF wf1(1) p1 _ s2] wf1(2) i by simp_all
  have "proc_of s1 NULL_PROC = proc_of ?s0 NULL_PROC" using create_result(4) [OF tw s1(1)] i by simp
  then have run2: "running s2" using running_new r n0(1) by (auto simp: running_def cycle_def)
  obtain s3 c3 where s3: "resched s2 ?c = Inr (s3, c3)" "sched_wf s3" "running s3" "cycle s3 = [i, NULL_PROC]" "get_id s3 = i"
    using resched_switch [OF r(1) run2, of i "[]" ?c] r(2) by (auto simp: cycle_def)
  obtain p3 where p3: "proc_of s3 i = Some p3" using s3(3,5) by (auto simp: running_def)
  have "\<not> running (put_proc i (killed p3) s3)" using s3(5) by (auto simp: running_def killed_def)
  from resched_from_killed [OF put_killed_wf [OF s3(2) p3] this, of NULL_PROC "[]" c3] s3(4,5) i
  obtain s4 c4 where s4: "kill i s3 c3 = Inr (s4, c4)" "get_id s4 = NULL_PROC" "map_option state (proc_of s4 i) = Some Free"
    by (auto simp: kill_eq [OF p3] cycle_def killed_def)
  have "kernel_step\<^sup>*\<^sup>* (?s0, ?c, {}) (s1, ?c, {i})" using k_create [OF s1(1), of ?c "{}"] by simp
  also have "kernel_step\<^sup>*\<^sup>* (s1, ?c, {i}) (s2, ?c, {})" using k_ready [OF _ s2, of "{i}" ?c] by simp
  also have "kernel_step\<^sup>*\<^sup>* (s2, ?c, {}) (s3, c3, {})" using k_resched [OF s3(1)] by blast
  also have "kernel_step\<^sup>*\<^sup>* (s3, c3, {}) (s4, c4, {})" using k_kill [OF s4(1)] by blast
  finally have "kernel_step\<^sup>*\<^sup>* (?s0, ?c, {}) (s4, c4, {})" .
  with scheduler_invariant [of ?c s4 c4 "{}"] s4(2,3) i show ?thesis by blast
qed

text \<open>
  A process that \<^verbatim>\<open>create\<close> made starts with interrupts off: the first switch to it loads
  \<^verbatim>\<open>rflags\<close> with 0, so the interrupt flag (bit 9) is clear, and nothing on its way to the entry
  point sets it. The stack pointer is at the last three words of the stack, which hold the entry
  point, \<^verbatim>\<open>process_return\<close> and the scheduler.
\<close>

theorem new_process_starts_with_interrupts_off:
  assumes "sched_wf s" and "running s" and "ready_list s = i # rest"
    and "proc_of s i = Some (new_process env func nm i)"
  shows "\<exists>s' c'. resched s c = Inr (s', c') \<and> get_id s' = i \<and> \<not> bit (reg_rflags c') 9
     \<and> reg_rsp c' = stack_ptr env + 8 * 1021
     \<and> drop 1021 (initial_stack env func) = [func, return_ptr env, self_ptr env]"
proof -
  obtain s' where "resched s c = Inr (s', load_context (ctx (new_process env func nm i)))" "get_id s' = i"
    using resched_switch [OF assms(1-3), of c] assms(4) by auto
  then show ?thesis by (simp add: load_context_def initial_stack_def)
qed

theorem new_process_starts_with_interrupts_off_witness:
  "\<exists>s' c'. resched example_sched (load_context context_new) = Inr (s', c') \<and> \<not> bit (reg_rflags c') 9"
  using new_process_starts_with_interrupts_off
    [OF example_sched_wf example_sched_running example_ready example_proc, of "load_context context_new"] by blast

text \<open>
  C33. \<^verbatim>\<open>create\<close>, when the address of the stack's last words does not overflow: with the memory it asks the heap for, it
  returns. It leaves the running process and the ready list alone and adds one suspended process under an
  unused id, with the page table of its creator, its stack filled as \<open>initial_stack\<close> and the
  stack pointer at the entry point; or it reports \<open>-1\<close> and changes no process, exactly when no
  id from the search position on is unused. When the heap refuses it memory, it panics.
\<close>

theorem create_adds_process:
  assumes "table_wf (task_table s)" and "unat (stack_ptr env) + 8168 < 2 ^ 64"
  shows "if create_served env s then \<exists>r s'. create env func nm s = Inr (r, s') \<and> table_wf (task_table s')
     \<and> current_pid s' = current_pid s \<and> ready_list s' = ready_list s
     \<and> (case r of
          Inr i \<Rightarrow> proc_of s i = None \<and> proc_of s' = (proc_of s)(i \<mapsto> new_process env func nm i)
        | Inl e \<Rightarrow> e = - 1 \<and> proc_of s' = proc_of s)
     \<and> (case r of Inr _ \<Rightarrow> room_left s | Inl _ \<Rightarrow> \<not> room_left s)
     else create env func nm s = Inl (Panic ''Out of memory'')"
  using create_ok [OF assms] create_refused [OF assms] by simp

theorem create_adds_process_witness:
  "\<exists>r s'. create example_env 0x102000 ''a'' sched_new = Inr (r, s') \<and> ready_list s' = []"
proof -
  have "table_wf (task_table sched_new)" using sched_wf_new by (simp add: sched_wf_def)
  from create_adds_process [OF this, of example_env "0x102000" "''a''"] show ?thesis
    by (auto simp: example_env_def sched_new_def create_served_def)
qed

text \<open>
  C39. A process that was killed runs again: \<^verbatim>\<open>kill\<close> leaves the id in the ready list. When any ready process is killed,
  the \<open>k\<close>-th of the list, then \<^verbatim>\<open>kill\<close> returns, and \<open>k\<close> calls of \<^verbatim>\<open>resched\<close> later, none of which panics, the processor runs
  it, in state \<^verbatim>\<open>Current\<close> and without a stack.
\<close>

theorem killed_process_runs:
  assumes "sched_wf s" and "running s" and "k < length (ready_list s)"
  shows "\<exists>s1 c1 s' c' q. kill (ready_list s ! k) s c = Inr (s1, c1) \<and> rr.steps k (s1, c1) = Inr (s', c')
     \<and> get_id s' = ready_list s ! k \<and> proc_of s' (ready_list s ! k) = Some q \<and> state q = Current \<and> stack q = None"
proof -
  let ?i = "ready_list s ! k"
  have i: "?i \<in> set (ready_list s)" using assms(3) by simp
  then obtain p where p: "proc_of s ?i = Some p" and ne: "?i \<noteq> get_id s"
    using assms(1) by (fastforce simp: sched_wf_def cycle_def)
  let ?s = "put_proc ?i (killed p) s"
  have wf: "sched_wf ?s" and run: "running ?s" using put_killed_wf [OF assms(1) p] assms(2) ne by (auto simp: running_def)
  obtain s' c' where s': "rr.steps (Suc k) (?s, c) = Inr (s', c')" "running s'" "get_id s' = ?i"
    using rr.fair [of "(?s, c)" "Suc k"] wf run assms(3) by (auto simp: cycle_def)
  from s'(2,3) obtain q where q: "proc_of s' ?i = Some q" "state q = Current" by (auto simp: running_def)
  have "stack q = None" using steps_stack [OF wf run s'(1), of ?i] q by (simp add: killed_def)
  moreover obtain s1 c1 where "kill ?i s c = Inr (s1, c1)" "rr.steps k (s1, c1) = Inr (s', c')"
    using s'(1) kill_eq [OF p, of c] by (auto simp: res_simps)
  ultimately show ?thesis using s'(3) q by blast
qed

theorem killed_process_runs_witness:
  "\<exists>s' c' q. kill (ProcessId 1) example_sched (load_context context_new) = Inr (s', c')
     \<and> get_id s' = ProcessId 1 \<and> proc_of s' (ProcessId 1) = Some q \<and> stack q = None"
  using killed_process_runs [OF example_sched_wf example_sched_running, of 0 "load_context context_new"]
  by (auto simp: example_ready)

end
