(* ===== verification/Interrupts.thy ===== *)
theory Interrupts
  imports Devices
begin

text \<open>
  Interrupts: masking them (\<^verbatim>\<open>arch/x86_64/interrupts/utils.rs\<close>), the handlers of the processor's
  exceptions (\<^verbatim>\<open>exceptions.rs\<close>), the interrupt table and the two handlers of \<^verbatim>\<open>mod.rs\<close>, and the
  descriptor table (\<^verbatim>\<open>gdt.rs\<close>). The interrupt flag is read off the \<^verbatim>\<open>cli\<close> and \<^verbatim>\<open>sti\<close> instructions of
  the trace.
\<close>

section \<open>Masking\<close>

definition disable :: "'a io_scheme \<Rightarrow> 'a io_scheme" where
  "disable s = emit Cli s"

definition enable :: "'a io_scheme \<Rightarrow> 'a io_scheme" where
  "enable s = emit Sti s"

definition disable_interrupts :: "hw \<Rightarrow> 'a io_scheme \<Rightarrow> (u8 \<times> u8) \<times> 'a io_scheme" where
  "disable_interrupts hw s =
     (let s = disable s;
          (mask_pic0, s) = port8_read hw (pic_data (pic0 PICS)) s;
          (mask_pic1, s) = port8_read hw (pic_data (pic1 PICS)) s;
          saved_masks = (mask_pic0, mask_pic1);
          s = port8_write (pic_data (pic0 PICS)) 0xff s;
          s = port8_write (pic_data (pic1 PICS)) 0xff s
      in (saved_masks, s))"

definition enable_interrupts :: "'a io_scheme \<Rightarrow> 'a io_scheme" where
  "enable_interrupts s = enable (disable s)"

definition restore_interrupts :: "u8 \<times> u8 \<Rightarrow> 'a io_scheme \<Rightarrow> 'a io_scheme" where
  "restore_interrupts saved_masks s =
     (let s = disable s;
          (mask_pic0, mask_pic1) = saved_masks;
          s = port8_write (pic_data (pic0 PICS)) mask_pic0 s;
          s = port8_write (pic_data (pic1 PICS)) mask_pic1 s
      in enable s)"

definition disable_interrupts_and_then ::
  "hw \<Rightarrow> ('a io_scheme \<Rightarrow> ('t \<times> 'a io_scheme) res) \<Rightarrow> 'a io_scheme \<Rightarrow> ('t \<times> 'a io_scheme) res" where
  "disable_interrupts_and_then hw f s =
     (let (saved_masks, s) = disable_interrupts hw s in
      rbind (f s) (\<lambda>(result, s). Inr (result, restore_interrupts saved_masks s)))"

section \<open>Exceptions\<close>

text \<open>
  A handler is given what the processor pushed and what the processor's crate makes of it in a
  message: the text of the stack frame (\<^verbatim>\<open>{:#?}\<close>), of its instruction pointer and of the address in \<^verbatim>\<open>cr2\<close>
  (\<^verbatim>\<open>{:#x}\<close>) and of a page fault's error code (\<^verbatim>\<open>{:?}\<close>). \<open>spin\<close> is \<^verbatim>\<open>loop {}\<close>.
\<close>

record fault =
  frame_text :: string
  ip_text :: string
  error_code :: u64
  page_error_text :: string
  cr2_text :: string

type_synonym 'a handler = "hw \<Rightarrow> fault \<Rightarrow> 'a io_scheme \<Rightarrow> (unit \<times> 'a io_scheme) res"

definition spin :: "'a io_scheme \<Rightarrow> (unit \<times> 'a io_scheme) res" where
  "spin s = Inl NoReturn"

definition divide_by_zero_handler :: "'a handler" where
  "divide_by_zero_handler hw f s = disable_interrupts_and_then hw (\<lambda>s.
     rbind (println hw (newline # ''EXCEPTION: DIVIDE BY ZERO'' @ newline # frame_text f) s) spin) s"

definition debug_handler :: "'a handler" where
  "debug_handler hw f s = disable_interrupts_and_then hw (\<lambda>s.
     rbind (println hw (newline # ''EXCEPTION: DEBUG'' @ newline # frame_text f) s) spin) s"

definition nmi_handler :: "'a handler" where
  "nmi_handler hw f s = disable_interrupts_and_then hw (\<lambda>s.
     rbind (println hw (newline # ''EXCEPTION: NON-MASKABLE INTERRUPT'' @ newline # frame_text f) s) spin) s"

definition breakpoint_handler :: "'a handler" where
  "breakpoint_handler hw f s =
     rbind (println hw (newline # ''EXCEPTION: BREAKPOINT at '' @ ip_text f @ newline # frame_text f) s) (\<lambda>s. Inr ((), s))"

definition overflow_handler :: "'a handler" where
  "overflow_handler hw f s = disable_interrupts_and_then hw (\<lambda>s.
     rbind (println hw (newline # ''EXCEPTION: OVERFLOW'' @ newline # frame_text f) s) spin) s"

definition bound_range_handler :: "'a handler" where
  "bound_range_handler hw f s = disable_interrupts_and_then hw (\<lambda>s.
     rbind (println hw (newline # ''EXCEPTION: BOUND RANGE EXCEEDED'' @ newline # frame_text f) s) spin) s"

definition invalid_opcode_handler :: "'a handler" where
  "invalid_opcode_handler hw f s = disable_interrupts_and_then hw (\<lambda>s.
     rbind (println hw (newline # (''EXCEPTION: INVALID OPCODE at '' @ ip_text f) @ newline # frame_text f) s) spin) s"

definition device_not_available_handler :: "'a handler" where
  "device_not_available_handler hw f s = disable_interrupts_and_then hw (\<lambda>s.
     rbind (println hw (newline # ''EXCEPTION: FPU NOT AVAILABLE'' @ newline # frame_text f) s) spin) s"

definition double_fault_handler :: "'a handler" where
  "double_fault_handler hw f s = disable_interrupts_and_then hw (\<lambda>s.
     rbind (println hw (newline # ''EXCEPTION: DOUBLE FAULT'' @ newline # frame_text f) s) spin) s"

definition invalid_tss_handler :: "'a handler" where
  "invalid_tss_handler hw f s = disable_interrupts_and_then hw (\<lambda>s.
     rbind (println hw (newline # (''EXCEPTION: INVALID TSS with code: '' @ fmt_display (error_code f)) @ newline # frame_text f) s) spin) s"

definition seg_not_present_handler :: "'a handler" where
  "seg_not_present_handler hw f s = disable_interrupts_and_then hw (\<lambda>s.
     rbind (println hw (newline # (''EXCEPTION: SEGMENT NOT PRESENT'' @ newline # ''error code: '' @ fmt_display (error_code f)) @ newline # frame_text f) s) spin) s"

definition stack_seg_fault_handler :: "'a handler" where
  "stack_seg_fault_handler hw f s = disable_interrupts_and_then hw (\<lambda>s.
     rbind (println hw (newline # (''EXCEPTION: STACK SEGMENT FAULT'' @ newline # ''error code: '' @ fmt_display (error_code f)) @ newline # frame_text f) s) spin) s"

definition gpf_handler :: "'a handler" where
  "gpf_handler hw f s = disable_interrupts_and_then hw (\<lambda>s.
     rbind (println hw (newline # ''EXCEPTION: GPF'' @ newline # frame_text f) s) spin) s"

definition page_fault_handler :: "'a handler" where
  "page_fault_handler hw f s = disable_interrupts_and_then hw (\<lambda>s.
     rbind (println hw (newline # (''EXCEPTION: PAGE FAULT while accessing '' @ cr2_text f @ newline # ''error code: '' @ page_error_text f) @ newline # frame_text f) s) spin) s"

definition x87_fp_exception_handler :: "'a handler" where
  "x87_fp_exception_handler hw f s = disable_interrupts_and_then hw (\<lambda>s.
     rbind (println hw (newline # ''X87 FLOATING POINT EXCEPTION'' @ newline # frame_text f) s) spin) s"

definition alignment_check_handler :: "'a handler" where
  "alignment_check_handler hw f s = disable_interrupts_and_then hw (\<lambda>s.
     rbind (println hw (newline # ''EXCEPTION: ALIGNMENT CHECK'' @ newline # frame_text f) s) spin) s"

definition machine_check_handler :: "'a handler" where
  "machine_check_handler hw f s = disable_interrupts_and_then hw (\<lambda>s.
     rbind (println hw (newline # ''EXCEPTION: MACHINE CHECK'' @ newline # frame_text f) s) spin) s"

definition simd_fp_exception_handler :: "'a handler" where
  "simd_fp_exception_handler hw f s = disable_interrupts_and_then hw (\<lambda>s.
     rbind (println hw (newline # ''EXCEPTION: SIMD FLOATING POINT EXCEPTION'' @ newline # frame_text f) s) spin) s"

definition apic_nmi_handler :: "'a handler" where
  "apic_nmi_handler hw f s = rbind (println hw ''NON-MASKABLE APIC INTERRUPT!'' s) spin"

definition spurious_interrupt_handler :: "'a handler" where
  "spurious_interrupt_handler hw f s = rbind (println hw ''SPURIOUS INTERRUPT!'' s) (\<lambda>s. Inr ((), s))"

section \<open>The interrupt table\<close>

text \<open>
  The entries \<^verbatim>\<open>IDT\<close> installs, by vector: the named fields of the table are the processor's
  exceptions, \<^verbatim>\<open>interrupts[n]\<close> is vector \<open>0x20 + n\<close>. The timer handler is a parameter here; it is
  modelled with the scheduler.
\<close>

definition idt_entries :: "'a handler \<Rightarrow> (nat \<times> 'a handler) list" where
  "idt_entries timer_handler =
     [(0, divide_by_zero_handler), (1, debug_handler), (2, nmi_handler), (3, breakpoint_handler),
      (4, overflow_handler), (5, bound_range_handler), (6, invalid_opcode_handler),
      (7, device_not_available_handler), (8, double_fault_handler), (10, invalid_tss_handler),
      (11, seg_not_present_handler), (12, stack_seg_fault_handler), (13, gpf_handler),
      (14, page_fault_handler), (16, x87_fp_exception_handler), (17, alignment_check_handler),
      (18, machine_check_handler), (19, simd_fp_exception_handler),
      (0x20 + 0, timer_handler), (0x20 + (0x30 - 0x20), timer_handler)]
     @ map (\<lambda>vec. (0x20 + vec, apic_nmi_handler)) [0x90 - 0x20 ..< 0x97 - 0x20]
     @ [(0x20 + (0xff - 0x20), spurious_interrupt_handler)]"

definition idt :: "'a handler \<Rightarrow> nat \<rightharpoonup> 'a handler" where
  "idt timer_handler = map_of (idt_entries timer_handler)"

section \<open>The descriptor table\<close>

record Gdt =
  gdt_table :: "u64 list"
  next_free :: nat

definition gdt_new :: Gdt where
  "gdt_new = \<lparr>gdt_table = replicate 8 0, next_free = 1\<rparr>"

definition gdt_push :: "u64 \<Rightarrow> Gdt \<Rightarrow> (nat \<times> Gdt) res" where
  "gdt_push v self =
     (if next_free self < length (gdt_table self) then
        let index = next_free self in
        Inr (index, self\<lparr>gdt_table := (gdt_table self)[index := v], next_free := next_free self + 1\<rparr>)
      else Inl (Panic ''GDT full''))"

datatype Descriptor = UserSegment u64 | SystemSegment u64 u64

text \<open>The selector is an index into the table at privilege level 0.\<close>

datatype SegmentSelector = SegmentSelector u16

definition gdt_add_entry :: "Descriptor \<Rightarrow> Gdt \<Rightarrow> (SegmentSelector \<times> Gdt) res" where
  "gdt_add_entry entry self =
     rbind
       (case entry of
          UserSegment v \<Rightarrow> gdt_push v self
        | SystemSegment value_low value_high \<Rightarrow>
            rbind (gdt_push value_low self) (\<lambda>(index, self).
            rbind (gdt_push value_high self) (\<lambda>(_, self).
            Inr (index, self))))
       (\<lambda>(index, self). Inr (SegmentSelector (of_nat index), self))"

definition EXECUTABLE :: u64 where "EXECUTABLE = push_bit 43 1"
definition USER_SEGMENT :: u64 where "USER_SEGMENT = push_bit 44 1"
definition SEG_PRESENT :: u64 where "SEG_PRESENT = push_bit 47 1"
definition LONG_MODE :: u64 where "LONG_MODE = push_bit 53 1"

definition kernel_code_segment :: Descriptor where
  "kernel_code_segment =
     (let flags = USER_SEGMENT OR SEG_PRESENT OR EXECUTABLE OR LONG_MODE in UserSegment flags)"

text \<open>
  \<^verbatim>\<open>get_bits\<close> and \<^verbatim>\<open>set_bits\<close> are of the \<^verbatim>\<open>bit_field\<close> crate and therefore parameters; so is the
  size of the processor crate's \<^verbatim>\<open>TaskStateSegment\<close>.
\<close>

definition tss_segment ::
  "(u64 \<Rightarrow> nat \<Rightarrow> nat \<Rightarrow> u64) \<Rightarrow> (u64 \<Rightarrow> nat \<Rightarrow> nat \<Rightarrow> u64 \<Rightarrow> u64) \<Rightarrow> usize \<Rightarrow> u64 \<Rightarrow> Descriptor res" where
  "tss_segment get_bits set_bits sz ptr =
     (let low = SEG_PRESENT;
          low = set_bits low 16 40 (get_bits ptr 0 24);
          low = set_bits low 56 64 (get_bits ptr 24 32) in
      rbind (checked_sub sz 1) (\<lambda>limit.
      let low = set_bits low 0 16 limit;
          low = set_bits low 40 44 9;
          high = 0;
          high = set_bits high 0 32 (get_bits ptr 32 64) in
      Inr (SystemSegment low high)))"

text \<open>What \<^verbatim>\<open>load\<close> gives the processor: where the table is and the offset of its last byte.\<close>

record DescriptorTablePointer =
  dtp_base :: u64
  dtp_limit :: u16

definition gdt_load :: "u64 \<Rightarrow> Gdt \<Rightarrow> DescriptorTablePointer" where
  "gdt_load table_ptr self = \<lparr>dtp_base = table_ptr, dtp_limit = of_nat (length (gdt_table self) * 8 - 1)\<rparr>"

section \<open>The interrupt flag and the masks\<close>

fun interrupts_on :: "bool \<Rightarrow> io_event list \<Rightarrow> bool" where
  "interrupts_on b [] = b"
| "interrupts_on b (Cli # es) = interrupts_on False es"
| "interrupts_on b (Sti # es) = interrupts_on True es"
| "interrupts_on b (e # es) = interrupts_on b es"

lemma interrupts_on_append: "interrupts_on b (es @ es') = interrupts_on (interrupts_on b es) es'"
  by (induction b es rule: interrupts_on.induct) auto

lemma interrupts_on_serial: "serial_only p es \<Longrightarrow> interrupts_on b es = b"
  by (induction b es rule: interrupts_on.induct) (auto simp: serial_only_def)

text \<open>The controllers return their masks when their data ports are read.\<close>

definition reads_masks :: "hw \<Rightarrow> u8 \<Rightarrow> u8 \<Rightarrow> bool" where
  "reads_masks hw m0 m1 \<longleftrightarrow>
     (\<forall>tr. ucast (hw tr 0x21) = last_sent 0x21 m0 tr \<and> ucast (hw tr 0xA1) = last_sent 0xA1 m1 tr)"

lemma pics_data: "port (pic_data (pic0 PICS)) = 0x21" "port (pic_data (pic1 PICS)) = 0xA1"
  by (simp_all add: PICS_def chained_pics_new_def)

lemma masked_section:
  assumes "reads_masks hw m0 m1" and "\<And>s. \<exists>r s' es. f s = Inr (r, s') \<and> trace s' = trace s @ es"
  shows "\<exists>s1 r s2 s3. f s1 = Inr (r, s2) \<and> disable_interrupts_and_then hw f s = Inr (r, s3)
     \<and> \<not> interrupts_on b (trace s1) \<and> last_sent 0x21 m0 (trace s1) = 0xff \<and> last_sent 0xA1 m1 (trace s1) = 0xff
     \<and> last_sent 0x21 m0 (trace s3) = last_sent 0x21 m0 (trace s)
     \<and> last_sent 0xA1 m1 (trace s3) = last_sent 0xA1 m1 (trace s)
     \<and> interrupts_on b (trace s3) \<and> io.more s1 = io.more s \<and> io.more s3 = io.more s2"
proof -
  let ?v0 = "last_sent 0x21 m0 (trace s)" and ?v1 = "last_sent 0xA1 m1 (trace s)"
  have v: "ucast (hw (trace s @ [Cli]) 0x21) = ?v0"
    "ucast (hw (trace s @ [Cli, In8 0x21 w]) 0xA1) = ?v1" for w
    using assms(1) by (simp_all add: reads_masks_def last_sent_def sent_append)
  define s1 where "s1 = snd (disable_interrupts hw s)"
  have d: "disable_interrupts hw s = ((?v0, ?v1), s1)"
    and t1: "trace s1 = trace s @ [Cli, In8 0x21 ?v0, In8 0xA1 ?v1, Out8 0x21 0xff, Out8 0xA1 0xff]" "io.more s1 = io.more s"
    using v by (simp_all add: s1_def disable_interrupts_def disable_def port8_read_def inb_def pics_data Let_def)
  obtain r s2 es where f: "f s1 = Inr (r, s2)" "trace s2 = trace s1 @ es" using assms(2) by blast
  let ?s3 = "restore_interrupts (?v0, ?v1) s2"
  have t3: "trace ?s3 = trace s2 @ [Cli, Out8 0x21 ?v0, Out8 0xA1 ?v1, Sti]"
    by (simp add: restore_interrupts_def disable_def enable_def pics_data Let_def)
  have "disable_interrupts_and_then hw f s = Inr (r, ?s3)"
    using d f(1) by (simp add: disable_interrupts_and_then_def)
  moreover have "\<not> interrupts_on b (trace s1)" "last_sent 0x21 m0 (trace s1) = 0xff" "last_sent 0xA1 m1 (trace s1) = 0xff"
    by (simp_all add: t1(1) interrupts_on_append last_sent_append) (simp_all add: last_sent_def)
  moreover have "last_sent 0x21 m0 (trace ?s3) = ?v0" "last_sent 0xA1 m1 (trace ?s3) = ?v1" "interrupts_on b (trace ?s3)"
    unfolding t3 interrupts_on_append last_sent_append [of _ _ "trace s2"] by (simp_all add: last_sent_def)
  moreover have "io.more ?s3 = io.more s2"
    by (simp add: restore_interrupts_def disable_def enable_def Let_def)
  ultimately show ?thesis using f(1) t1(2) by blast
qed

section \<open>The exception handlers\<close>

lemma nmi_vectors: "[0x90 - 0x20 ..< 0x97 - 0x20] = [0x70, 0x71, 0x72, 0x73, 0x74, 0x75, 0x76 :: nat]"
  by (simp add: upt_rec)

lemmas handler_defs = divide_by_zero_handler_def debug_handler_def nmi_handler_def overflow_handler_def
  bound_range_handler_def invalid_opcode_handler_def device_not_available_handler_def double_fault_handler_def
  invalid_tss_handler_def seg_not_present_handler_def stack_seg_fault_handler_def gpf_handler_def
  page_fault_handler_def x87_fp_exception_handler_def alignment_check_handler_def machine_check_handler_def
  simd_fp_exception_handler_def

lemma exception_reports:
  assumes "idt tm v = Some h" and "v < 0x20" and "v \<noteq> 3"
  shows "\<exists>t. h hw f s = disable_interrupts_and_then hw (\<lambda>s. rbind (println hw (newline # t @ newline # frame_text f) s) spin) s"
proof -
  have "h \<in> {divide_by_zero_handler, debug_handler, nmi_handler, overflow_handler, bound_range_handler, invalid_opcode_handler,
      device_not_available_handler, double_fault_handler, invalid_tss_handler, seg_not_present_handler, stack_seg_fault_handler,
      gpf_handler, page_fault_handler, x87_fp_exception_handler, alignment_check_handler, machine_check_handler,
      simd_fp_exception_handler}"
    using assms unfolding idt_def idt_entries_def nmi_vectors by (auto split: if_splits)
  then show ?thesis unfolding insert_iff empty_iff
    by (elim disjE FalseE) (simp only: handler_defs, rule exI, rule refl)+
qed

lemma exception_stops:
  assumes "idt tm v = Some h" and "v < 0x20" and "v \<noteq> 3"
  shows "h hw f s = Inl NoReturn"
proof -
  obtain t where "h hw f s = disable_interrupts_and_then hw (\<lambda>s. rbind (println hw (newline # t @ newline # frame_text f) s) spin) s"
    using exception_reports [OF assms] by blast
  then show ?thesis
    by (simp add: disable_interrupts_and_then_def spin_def [abs_def] println_then_spin split: prod.split)
qed

lemma disable_interrupts_masks:
  "\<not> interrupts_on b (trace (snd (disable_interrupts hw s)))"
  "last_sent 0x21 m0 (trace (snd (disable_interrupts hw s))) = 0xff"
  "last_sent 0xA1 m1 (trace (snd (disable_interrupts hw s))) = 0xff"
  by (simp_all add: disable_interrupts_def disable_def port8_read_def inb_def pics_data Let_def interrupts_on_append
      last_sent_append) (simp_all add: last_sent_def)

definition example_fault :: fault where
  "example_fault = \<lparr>frame_text = ''frame'', ip_text = ''0x100000'', error_code = 0, page_error_text = ''none'', cr2_text = ''0x0''\<rparr>"

section \<open>Properties\<close>

text \<open>
  C36. \<^verbatim>\<open>disable_interrupts_and_then\<close> runs its closure with interrupts off and every line of both
  controllers masked, and afterwards both masks are what they were before the call; the rest of the state is the closure's
  alone. But it always
  leaves interrupts on, also when they were off before: inside another call it switches them on
  in the middle of the outer section.
\<close>

theorem disable_interrupts_and_then_masks:
  assumes "reads_masks hw m0 m1" and "\<And>s. \<exists>r s' es. f s = Inr (r, s') \<and> trace s' = trace s @ es"
  shows "\<exists>s1 r s2 s3. f s1 = Inr (r, s2) \<and> disable_interrupts_and_then hw f s = Inr (r, s3)
     \<and> \<not> interrupts_on b (trace s1) \<and> last_sent 0x21 m0 (trace s1) = 0xff \<and> last_sent 0xA1 m1 (trace s1) = 0xff
     \<and> last_sent 0x21 m0 (trace s3) = last_sent 0x21 m0 (trace s)
     \<and> last_sent 0xA1 m1 (trace s3) = last_sent 0xA1 m1 (trace s)
     \<and> interrupts_on b (trace s3) \<and> io.more s1 = io.more s \<and> io.more s3 = io.more s2"
  using assms by (rule masked_section)

theorem disable_interrupts_and_then_masks_witness:
  "\<exists>s3. disable_interrupts_and_then (\<lambda>tr p. ucast (last_sent p 0 tr)) (\<lambda>s. Inr ((), s)) \<lparr>trace = [Cli]\<rparr> = Inr ((), s3)
     \<and> last_sent 0x21 0 (trace s3) = 0 \<and> interrupts_on True (trace s3)"
proof -
  have "ucast (ucast (v :: u8) :: u32) = v" for v by (rule bit_word_eqI) (simp add: bit_simps)
  then have "reads_masks (\<lambda>tr p. ucast (last_sent p 0 tr)) 0 0" by (simp add: reads_masks_def)
  from disable_interrupts_and_then_masks [OF this, of "\<lambda>s. Inr ((), s)" "\<lparr>trace = [Cli]\<rparr>" True]
  show ?thesis by (auto simp: last_sent_def)
qed

text \<open>
  The interrupt table: of the processor's exceptions only the breakpoint comes back, every
  other installed exception handler stops the machine; the timer runs on the vectors \<open>0x20\<close> and
  \<open>0x30\<close>; of the vectors \<open>0x90\<close> to \<open>0x97\<close> the last has no handler, and neither has the keyboard's
  vector \<open>0x21\<close> nor the system call vector \<open>0x80\<close>.
\<close>

theorem idt_handlers:
  "(\<forall>v < 0x20. \<forall>h. idt tm v = Some h \<longrightarrow> v \<noteq> 3 \<longrightarrow> h hw f s = Inl NoReturn)
   \<and> idt tm 3 = Some breakpoint_handler
   \<and> idt tm 0x20 = Some tm \<and> idt tm 0x30 = Some tm \<and> idt tm 0x21 = None \<and> idt tm 0x80 = None
   \<and> (\<forall>v. 0x90 \<le> v \<longrightarrow> v < 0x97 \<longrightarrow> idt tm v = Some apic_nmi_handler) \<and> idt tm 0x97 = None"
proof -
  have "idt tm v = Some apic_nmi_handler" if "0x90 \<le> v" "v < 0x97" for v
  proof -
    have "v = 0x90 \<or> v = 0x91 \<or> v = 0x92 \<or> v = 0x93 \<or> v = 0x94 \<or> v = 0x95 \<or> v = 0x96" using that by arith
    then show ?thesis unfolding idt_def idt_entries_def nmi_vectors by auto
  qed
  moreover have "idt tm 3 = Some breakpoint_handler" "idt tm 0x20 = Some tm" "idt tm 0x30 = Some tm"
    "idt tm 0x21 = None" "idt tm 0x80 = None" "idt tm 0x97 = None"
    unfolding idt_def idt_entries_def nmi_vectors by simp_all
  ultimately show ?thesis using exception_stops by blast
qed

theorem idt_handlers_witness:
  "idt spurious_interrupt_handler 14 = Some (page_fault_handler :: unit handler)
     \<and> page_fault_handler (\<lambda>_ _. 0) example_fault (\<lparr>trace = []\<rparr> :: io) = Inl NoReturn
     \<and> idt spurious_interrupt_handler 0x93 = Some (apic_nmi_handler :: unit handler)"
proof -
  let ?tm = "spurious_interrupt_handler :: unit handler"
  note h = idt_handlers [of ?tm "\<lambda>_ _. 0" example_fault "\<lparr>trace = []\<rparr> :: io"]
  have p: "idt ?tm 14 = Some page_fault_handler" by (simp add: idt_def idt_entries_def)
  then have "page_fault_handler (\<lambda>_ _. 0) example_fault (\<lparr>trace = []\<rparr> :: io) = Inl NoReturn"
    by (rule h [THEN conjunct1, rule_format, rotated]) simp_all
  with p h show ?thesis by simp
qed

text \<open>
  C31. An exception is reported: with the serial port ready, every installed handler of an exception
  other than the breakpoint disables interrupts and masks the controllers, then sends a line that ends
  in the text of the stack frame, and stops the machine. The breakpoint's handler sends its line and
  comes back, with nothing changed but the serial port.
\<close>

theorem exception_handlers_report:
  assumes "serial_ready hw COM1" and "idt tm v = Some h" and "v < 0x20"
  shows "\<exists>msg t. msg = newline # t @ newline # frame_text f \<and>
     (if v = 3 then \<exists>s'. h hw f s = Inr ((), s') \<and> logged [msg] s s'
      else h hw f s = disable_interrupts_and_then hw (\<lambda>s. rbind (println hw msg s) spin) s \<and> h hw f s = Inl NoReturn
        \<and> (let s1 = snd (disable_interrupts hw s) in \<not> interrupts_on b (trace s1)
             \<and> last_sent 0x21 m0 (trace s1) = 0xff \<and> last_sent 0xA1 m1 (trace s1) = 0xff
             \<and> (\<exists>s2. println hw msg s1 = Inr s2 \<and> logged [msg] s1 s2)))"
proof (cases "v = 3")
  case True
  then have h: "h = breakpoint_handler" using assms(2) by (simp add: idt_def idt_entries_def nmi_vectors)
  let ?m = "newline # ''EXCEPTION: BREAKPOINT at '' @ ip_text f @ newline # frame_text f"
  obtain s' where "println hw ?m s = Inr s'" "logged [?m] s s'" by (rule println_ok [OF assms(1)])
  then have "\<exists>s'. h hw f s = Inr ((), s') \<and> logged [?m] s s'" by (simp add: h breakpoint_handler_def)
  moreover have "?m = newline # (''EXCEPTION: BREAKPOINT at '' @ ip_text f) @ newline # frame_text f" by simp
  ultimately show ?thesis using True by metis
next
  case False
  from exception_reports [OF assms(2,3) False, of hw f s] obtain t where
    h: "h hw f s = disable_interrupts_and_then hw (\<lambda>s. rbind (println hw (newline # t @ newline # frame_text f) s) spin) s"
    by blast
  let ?m = "newline # t @ newline # frame_text f" and ?s1 = "snd (disable_interrupts hw s)"
  obtain s2 where "println hw ?m ?s1 = Inr s2" "logged [?m] ?s1 s2" by (rule println_ok [OF assms(1)])
  moreover have "\<not> interrupts_on b (trace ?s1)" "last_sent 0x21 m0 (trace ?s1) = 0xff" "last_sent 0xA1 m1 (trace ?s1) = 0xff"
    using disable_interrupts_masks by blast+
  moreover have "h hw f s = Inl NoReturn" using exception_stops [OF assms(2,3) False] .
  ultimately show ?thesis using h False by (intro exI [of _ ?m] exI [of _ t]) (simp add: Let_def)
qed

theorem exception_handlers_report_witness:
  "\<exists>msg t s2. msg = newline # t @ newline # ''frame'' \<and> logged [msg] (snd (disable_interrupts (\<lambda>_ _. 0x20) (\<lparr>trace = [Sti]\<rparr> :: io))) s2
     \<and> gpf_handler (\<lambda>_ _. 0x20) example_fault (\<lparr>trace = [Sti]\<rparr> :: io) = Inl NoReturn"
proof -
  have "idt (spurious_interrupt_handler :: unit handler) 13 = Some gpf_handler" by (simp add: idt_def idt_entries_def)
  from exception_handlers_report [OF example_serial_ready this, of example_fault "\<lparr>trace = [Sti]\<rparr> :: io" True 0 0]
  show ?thesis by (auto simp: Let_def example_fault_def)
qed

text \<open>
  The descriptor of the task state segment holds the segment's address: the base the
  processor reads from bits 16 to 39 and 56 to 63 of the low word and bits 0 to 31 of the high
  word is the address, the present bit is set, the type is an available 64-bit segment and the
  limit is the size less one.
\<close>

theorem tss_segment_encodes:
  assumes "\<And>x a b n. bit (get_bits x a b) n \<longleftrightarrow> a + n < b \<and> bit x (a + n)"
    and "\<And>x a b v n. n < 64 \<Longrightarrow> bit (set_bits x a b v) n \<longleftrightarrow> (if a \<le> n \<and> n < b then bit v (n - a) else bit x n)"
    and "sz \<noteq> 0"
  shows "\<exists>low high. tss_segment get_bits set_bits sz ptr = Inr (SystemSegment low high)
     \<and> take_bit 24 (drop_bit 16 low) OR push_bit 24 (drop_bit 56 low) OR push_bit 32 (take_bit 32 high) = ptr
     \<and> bit low 47 \<and> take_bit 4 (drop_bit 40 low) = 9 \<and> take_bit 16 low = take_bit 16 (sz - 1)"
proof -
  let ?low = "set_bits (set_bits (set_bits (set_bits SEG_PRESENT 16 40 (get_bits ptr 0 24)) 56 64 (get_bits ptr 24 32)) 0 16 (sz - 1)) 40 44 9"
  let ?high = "set_bits 0 0 32 (get_bits ptr 32 64)"
  have sb: "bit (set_bits x a b v) n \<longleftrightarrow> n < 64 \<and> (if a \<le> n \<and> n < b then bit v (n - a) else bit x n)" for x a b v n
    using assms(2) [of n x a b v] bit_imp_le_length [of "set_bits x a b v" n] by auto
  have "1 \<le> sz" using assms(3) by (simp add: word_le_nat_alt Suc_le_eq unat_gt_0)
  then have "tss_segment get_bits set_bits sz ptr = Inr (SystemSegment ?low ?high)"
    by (simp add: tss_segment_def checked_sub_def Let_def)
  moreover have "take_bit 24 (drop_bit 16 ?low) OR push_bit 24 (drop_bit 56 ?low) OR push_bit 32 (take_bit 32 ?high) = ptr"
    by (rule bit_word_eqI) (auto simp: bit_simps assms(1) sb SEG_PRESENT_def)
  moreover have "bit ?low 47" by (simp add: sb SEG_PRESENT_def bit_simps)
  moreover have "take_bit 4 (drop_bit 40 ?low) = 9"
  proof (rule bit_word_eqI)
    fix n assume "n < LENGTH(64)"
    have "bit (9 :: u64) n \<Longrightarrow> n < 4"
    proof -
      have "take_bit 4 (9 :: u64) = 9" by simp
      then show "bit (9 :: u64) n \<Longrightarrow> n < 4" by (metis bit_take_bit_iff)
    qed
    then show "bit (take_bit 4 (drop_bit 40 ?low)) n = bit (9 :: u64) n" by (auto simp: bit_simps sb)
  qed
  moreover have "take_bit 16 ?low = take_bit 16 (sz - 1)"
    by (rule bit_word_eqI) (auto simp: bit_simps sb)
  ultimately show ?thesis by blast
qed

theorem tss_segment_encodes_witness:
  "\<exists>low high. tss_segment (\<lambda>x a b. take_bit (b - a) (drop_bit a x))
       (\<lambda>x a b v. x AND NOT (push_bit a (mask (b - a))) OR push_bit a (take_bit (b - a) v)) 104 0x1234567890
     = Inr (SystemSegment low high) \<and> bit low 47"
proof -
  have g: "bit (take_bit (b - a) (drop_bit a x)) n \<longleftrightarrow> a + n < b \<and> bit (x :: u64) (a + n)" for x a b n
    by (auto simp: bit_simps)
  have s: "bit (x AND NOT (push_bit a (mask (b - a))) OR push_bit a (take_bit (b - a) v)) n
      \<longleftrightarrow> (if a \<le> n \<and> n < b then bit v (n - a) else bit (x :: u64) n)" if "n < 64" for x a b v n
    using that by (auto simp: bit_simps Bit_Operations.bit_mask_iff simp del: push_bit_mask_eq dest: bit_imp_le_length)
  show ?thesis
    using tss_segment_encodes [of "\<lambda>x a b. take_bit (b - a) (drop_bit a x)"
      "\<lambda>x a b v. x AND NOT (push_bit a (mask (b - a))) OR push_bit a (take_bit (b - a) v)" 104 "0x1234567890", OF g s]
    by auto
qed

end
