(* ===== verification/Kernel_Map.thy ===== *)
theory Kernel_Map
  imports Map_Loops
begin

text \<open>
  The kernel's own page tables: what \<^verbatim>\<open>paging::init\<close> (\<^verbatim>\<open>paging/mod.rs\<close>) builds. The closure it runs
  inside the new table is one loop of identity mappings (\<open>boot_maps\<close>: the kernel's sections, the
  text buffer of the screen, the multiboot data); after the switch to the new table the page of
  the old top table is unmapped and is the guard page of the kernel's stack.
\<close>

section \<open>The identity mappings\<close>

definition span :: "usize \<Rightarrow> usize \<Rightarrow> Frame list" where
  "span a e = map Frame (word_range (a div PAGE_SIZE) ((e - 1) div PAGE_SIZE))"

definition section_maps :: "ElfSection \<Rightarrow> (Frame \<times> EntryFlags) list" where
  "section_maps sec = (if sec_allocated sec
     then map (\<lambda>f. (f, from_elf_section_flags sec)) (span (sec_start sec) (sec_end sec)) else [])"

definition boot_maps :: "ElfSection list \<Rightarrow> BootInformation \<Rightarrow> (Frame \<times> EntryFlags) list" where
  "boot_maps secs bi = concat (map section_maps secs) @ [(Frame 0xb8, WRITABLE)]
     @ map (\<lambda>f. (f, PRESENT)) (span (bi_start_address bi) (bi_end_address bi))"

text \<open>
  The boot loader's data is in order: loaded sections are aligned, nothing ends at address 0, and
  the frames to map are in the lower half and are all different.
\<close>

definition boot_ok :: "BootInformation \<Rightarrow> ElfSection list \<Rightarrow> bool" where
  "boot_ok bi secs \<longleftrightarrow> bi_elf_sections bi = Some secs \<and> bi_end_address bi \<noteq> 0
     \<and> (\<forall>sec \<in> set secs. sec_allocated sec \<longrightarrow> sec_start sec mod PAGE_SIZE = 0 \<and> sec_end sec \<noteq> 0)
     \<and> (\<forall>m \<in> set (boot_maps secs bi). low_frame (fst m)) \<and> distinct (map fst (boot_maps secs bi))"

lemma div_PAGE_SIZE_max: "a div PAGE_SIZE \<noteq> (-1 :: usize)"
proof -
  have "unat (a div PAGE_SIZE) < 2 ^ 52" using unat_drop_12_bound [of a] by (simp add: div_PAGE_SIZE)
  moreover have "unat (-1 :: usize) = 2 ^ 64 - 1" by (simp add: unsigned_minus_1_eq_mask mask_eq_exp_minus_1)
  ultimately show ?thesis by auto
qed

lemma frames_of_span:
  "frames_of (frame_range_inclusive (frame_containing_address (PhysicalAddress a))
     (frame_containing_address (PhysicalAddress (e - 1)))) = Inr (span a e)"
  by (simp add: frames_of_range frame_containing_address_def div_PAGE_SIZE_max span_def)

lemma checked_pred: "e \<noteq> 0 \<Longrightarrow> checked_sub e (1 :: usize) = Inr (e - 1)"
  by (simp add: checked_sub_def word_le_nat_alt Suc_le_eq unat_gt_0)

lemma map_section_maps:
  assumes "sec_allocated sec \<longrightarrow> sec_start sec mod PAGE_SIZE = 0 \<and> sec_end sec \<noteq> 0"
  shows "map_section sec s = rfold (\<lambda>(f, fl). identity_map_ignore fl f) (section_maps sec) s"
  using assms
  by (simp add: map_section_def section_maps_def frames_of_span checked_pred Let_def rfold_map comp_def)

lemma map_kernel_maps:
  assumes "boot_ok bi secs"
  shows "map_kernel bi s = rfold (\<lambda>(f, fl). identity_map_ignore fl f) (boot_maps secs bi) s"
proof -
  let ?op = "\<lambda>(f, fl). identity_map_ignore fl f"
  have "rfold map_section secs s = rfold (rfold ?op) (map section_maps secs) s"
    unfolding rfold_map using assms by (intro rfold_cong_set map_section_maps) (auto simp: boot_ok_def)
  then have "rfold map_section secs s = rfold ?op (concat (map section_maps secs)) s" by (simp only: rfold_flat)
  moreover have "frame_containing_address (PhysicalAddress 0xb8000) = Frame 0xb8"
    by (simp add: frame_containing_address_def PAGE_SIZE_def)
  ultimately show ?thesis
    using assms
    by (auto simp: boot_ok_def map_kernel_def boot_maps_def rfold_append rfold_map frames_of_span checked_pred Let_def
        intro!: rbind_cong)
qed

section \<open>The new table\<close>

lemma elf_flags_ok: "flags_ok (from_elf_section_flags sec)"
  by (simp add: from_elf_section_flags_def flags_ok_or Let_def)

lemma empty_mappable:
  assumes "empty_table (pmem s) T" and "p4_index p \<noteq> 511"
  shows "mappable s T p"
proof -
  have none: "table_at (pmem s) T (take n (page_path p)) \<noteq> Some t" if "0 < n" "n < 4" for n t
    using empty_table_at [OF assms(1) path_ok_take [OF assms(2) that(2)], of t] that(1) by (auto simp: page_path_def)
  moreover have "pmem s T (p4_index p) = 0" using assms by (simp add: empty_table_def)
  ultimately show ?thesis
    unfolding mappable_def using none [of 3] by (auto simp: page_path_def gr0_conv_Suc take_Cons' nth_Cons')
qed

lemma boot_maps_flags: "(f, fl) \<in> set (boot_maps secs bi) \<Longrightarrow> flags_ok fl"
  by (auto simp: boot_maps_def section_maps_def elf_flags_ok split: if_splits)

lemma identity_page_path_inj:
  "low_frame f \<Longrightarrow> low_frame g \<Longrightarrow> page_path (identity_page f) = page_path (identity_page g) \<Longrightarrow> f = g"
  using page_path_low_inj [of "frame_number f" "frame_number g"]
  by (simp add: identity_page_def low_frame_def Frame.expand)

text \<open>Inside the new table the loop of identity mappings runs through.\<close>

lemma boot_loop:
  assumes bi: "boot_ok bi secs" and wf: "pt_wf s T" and e: "empty_table (pmem s) T"
    and free: "4 * length (boot_maps secs bi) \<le> card (free_now s)"
  shows "\<exists>s'. map_kernel bi s = Inr s' \<and> identity_loop.loop_done s T (boot_maps secs bi) s'"
proof -
  let ?ms = "boot_maps secs bi"
  have low: "low_frame f" if "(f, fl) \<in> set ?ms" for f fl using bi that by (auto simp: boot_ok_def)
  have d: "distinct (map fst ?ms)" using bi by (simp add: boot_ok_def)
  have "inj_on (\<lambda>m. page_path (case m of (f, _) \<Rightarrow> identity_page f)) (set ?ms)"
  proof (rule inj_onI)
    fix m n assume m: "m \<in> set ?ms" "n \<in> set ?ms"
      and "page_path (case m of (f, _) \<Rightarrow> identity_page f) = page_path (case n of (f, _) \<Rightarrow> identity_page f)"
    then have "page_path (identity_page (fst m)) = page_path (identity_page (fst n))" by (simp add: case_prod_beta)
    then have "fst m = fst n" using identity_page_path_inj low m by (metis prod.collapse)
    with d m show "m = n" by (metis eq_key_imp_eq_value prod.collapse)
  qed
  then have "distinct (map (\<lambda>m. page_path (case m of (f, _) \<Rightarrow> identity_page f)) ?ms)"
    using d by (simp add: distinct_map)
  then have "identity_loop.loop_ready s T ?ms"
    unfolding identity_loop.loop_ready_def
    using empty_mappable [OF e] low_page_ok(2) low boot_maps_flags free
    by (auto simp: identity_page_def low_frame_def)
  from identity_loop.loop_maps [OF wf this] show ?thesis by (simp add: map_kernel_maps [OF bi])
qed

text \<open>Switching to a table that is complete.\<close>

lemma switch_wf:
  assumes "pt_wf s r" and "inactive_ok s T"
  shows "\<exists>s'. active_table_switch (InactivePageTable T) s
       = Inr (InactivePageTable (frame_containing_address (PhysicalAddress (cr3 s))), s')
     \<and> pt_wf s' T \<and> cr3_frame s' = T \<and> pmem s' = pmem s \<and> free_now s' = free_now s"
proof -
  have T: "frame_ok T" "recursive_entry (pmem s T 511) T" "tables_ok (pmem s) T" "table_frames (pmem s) T \<inter> free_now s = {}"
    using assms(2) by (simp_all add: inactive_ok_def)
  obtain a where a: "ALLOCATOR s = Some a" "alloc_wf a" "free_set a = free_now s" using pt_wf_allocator [OF assms(1)] by blast
  have start: "frame_start_address T = Inr (PhysicalAddress (push_bit 12 (frame_number T)))"
    using T(1) by (simp add: frame_start_address_def mult_PAGE_SIZE frame_ok_bound)
  let ?s = "cr3_write (push_bit 12 (frame_number T)) s"
  have cr: "cr3_frame ?s = T"
  proof -
    have b: "n < 40" if "bit (frame_number T) n" for n using T(1) that by (metis bit_take_bit_iff frame_ok_def)
    have "take_bit 40 (drop_bit 12 (push_bit 12 (frame_number T))) = frame_number T"
      by (rule bit_word_eqI) (use b in \<open>fastforce simp: bit_simps\<close>)
    then show ?thesis by (simp add: cr3_frame_def cr3_write_def)
  qed
  have "alloc_apart a (pmem s) T T"
    using a T(4) pt_wf_alloc_fresh(1) [OF assms(1)] root_in_frames [of T "pmem s"] by (auto simp: alloc_apart_def)
  then have "pt_wf ?s T"
    using T cr a(1) by (auto simp: pt_wf_def recursive_def cr3_write_def)
  with start cr show ?thesis
    by (intro exI [of _ ?s]) (simp add: active_table_switch_def cr3_write_def free_now_def)
qed

text \<open>Building the new table: after \<^verbatim>\<open>with\<close> it holds the identity mappings and nothing else.\<close>

definition holds_boot_maps :: "vm \<Rightarrow> Frame \<Rightarrow> (Frame \<times> EntryFlags) list \<Rightarrow> bool" where
  "holds_boot_maps s T ms \<longleftrightarrow>
     (\<forall>(f, fl) \<in> set ms. page_map s T (identity_page f) = Some (f, bit fl 1) \<and> small_mapped s T (identity_page f))
     \<and> (\<forall>q. p4_index q \<noteq> 511 \<longrightarrow> page_path q \<notin> (\<lambda>(f, _). page_path (identity_page f)) ` set ms \<longrightarrow>
          page_map s T q = None \<and> mappable s T q)"

lemma loop_done_holds:
  assumes "identity_loop.loop_done s T ms s'" and "empty_table (pmem s) T"
  shows "holds_boot_maps s' T ms"
  unfolding holds_boot_maps_def
proof (intro conjI allI impI ballI, clarify)
  note d = assms(1) [unfolded identity_loop.loop_done_def]
  show "page_map s' T (identity_page f) = Some (f, bit fl 1) \<and> small_mapped s' T (identity_page f)"
    if "(f, fl) \<in> set ms" for f fl
    using d that by fastforce
  show "page_map s' T q = None" "mappable s' T q"
    if "p4_index q \<noteq> 511" "page_path q \<notin> (\<lambda>(f, _). page_path (identity_page f)) ` set ms" for q
  proof -
    show m: "mappable s' T q" using d that empty_mappable [OF assms(2) that(1)] by fastforce
    show "page_map s' T q = None" using mappable_unmapped(1) [OF m] .
  qed
qed

lemma mappable_agree:
  assumes "\<forall>h \<in> table_frames (pmem s) T. pmem s' h = pmem s h" and "tables_ok (pmem s) T" and "p4_index p \<noteq> 511"
    and "mappable s T p"
  shows "mappable s' T p"
proof -
  have P: "path_ok (take n (page_path p))" if "n < 4" for n using path_ok_take [OF assms(3) that] .
  have "table_at (pmem s') T (take n (page_path p)) = table_at (pmem s) T (take n (page_path p))" if "n < 4" for n
    using agree_table_at [OF assms(2) agree_outside [OF assms(1)] P [OF that]] .
  moreover have "pmem s' t = pmem s t" if "table_at (pmem s) T (take n (page_path p)) = Some t" "n < 4" for t n
    using assms(1) in_table_frames [OF P [OF that(2)] that(1)] by simp
  ultimately show ?thesis using assms(4) by (simp add: mappable_def)
qed

lemma new_table_built:
  assumes bi: "boot_ok bi secs" and wf: "pt_wf s (cr3_frame s)" and cr3: "cr3_ok s" and tp: "tp_ready TEMPORARY_PAGE s"
    and T: "inactive_ok s T" "empty_table (pmem s) T" and free: "4 * length (boot_maps secs bi) + 3 \<le> card (free_now s)"
  shows "\<exists>s'. active_table_with (InactivePageTable T) TEMPORARY_PAGE (map_kernel bi) s = Inr s'
     \<and> pt_wf s' (cr3_frame s) \<and> cr3 s' = cr3 s \<and> inactive_ok s' T \<and> holds_boot_maps s' T (boot_maps secs bi)
     \<and> card (free_now s) \<le> card (free_now s') + 4 * length (boot_maps secs bi) + 3
     \<and> spared s {cr3_frame s, T} s' {cr3_frame s, T}"
proof -
  let ?ms = "boot_maps secs bi"
  have e: "empty_table (pmem s1) T" if "inside s T s1" for s1
    using that T(2) root_in_frames [of T "pmem s"] by (simp add: inside_def empty_table_def)
  have loop: "\<exists>s2. map_kernel bi s1 = Inr s2 \<and> identity_loop.loop_done s1 T ?ms s2" if "inside s T s1" for s1
    using boot_loop [OF bi _ e [OF that]] that free by (simp add: inside_def)
  then have "\<exists>s2. map_kernel bi s1 = Inr s2 \<and> pt_wf s2 T \<and> kept s1 T s2" if "inside s T s1" for s1
    using that unfolding identity_loop.loop_done_def by blast
  from active_table_with_ok [OF wf cr3 tp T(1) this] obtain s1 s2 s' where
    s': "active_table_with (InactivePageTable T) TEMPORARY_PAGE (map_kernel bi) s = Inr s'" "inside s T s1"
      "map_kernel bi s1 = Inr s2" "pt_wf s' (cr3_frame s)" "cr3 s' = cr3 s" "same_maps s2 T s'" "inactive_ok s' T" "free_now s' = free_now s2"
      "\<forall>h \<in> table_frames (pmem s2) T. pmem s' h = pmem s2 h" "spared s {cr3_frame s, T} s' {cr3_frame s, T}" by blast
  from loop [OF s'(2)] s'(3) have d: "identity_loop.loop_done s1 T ?ms s2" by simp
  have wf2: "pt_wf s2 T" using d unfolding identity_loop.loop_done_def by blast
  note h2 = loop_done_holds [OF d e [OF s'(2)]]
  have p4: "p4_index (identity_page f) \<noteq> 511" if "(f, fl) \<in> set ?ms" for f fl
    using bi that low_page_ok(2) by (auto simp: boot_ok_def low_frame_def identity_page_def)
  have small: "small_mapped s' T p" if "p4_index p \<noteq> 511" "small_mapped s2 T p" for p
    using small_mapped_agree [OF pt_wf_tables_ok [OF wf2] agree_outside [OF s'(9)] that] .
  have "holds_boot_maps s' T ?ms"
    using h2 s'(6) p4 small mappable_agree [OF s'(9) pt_wf_tables_ok [OF wf2]]
    by (fastforce simp: holds_boot_maps_def same_maps_def)
  moreover have "card (free_now s1) \<le> card (free_now s2) + 4 * length ?ms"
    using d unfolding identity_loop.loop_done_def by blast
  then have "card (free_now s) \<le> card (free_now s') + 4 * length ?ms + 3" using s'(2,8) by (simp add: inside_def)
  ultimately show ?thesis using s' by blast
qed

text \<open>
  The state \<^verbatim>\<open>paging::init\<close> starts from: well-formed active tables with the temporary page free, the
  top table's own frame among those the new table maps, and enough free frames.
\<close>

definition boot_ready :: "BootInformation \<Rightarrow> ElfSection list \<Rightarrow> vm \<Rightarrow> bool" where
  "boot_ready bi secs s \<longleftrightarrow> boot_ok bi secs \<and> pt_wf s (cr3_frame s) \<and> cr3_ok s
     \<and> mappable s (cr3_frame s) (tp_page TEMPORARY_PAGE) \<and> cr3_frame s \<in> fst ` set (boot_maps secs bi)
     \<and> 4 * length (boot_maps secs bi) + 10 \<le> card (free_now s)"

lemma table_prepared:
  assumes "boot_ready bi secs s"
  shows "\<exists>T s1 s2. allocate_frames 1 s = Inr (Some T, s1) \<and> T \<in> free_now s
     \<and> inactive_page_table_new T TEMPORARY_PAGE s1 = Inr (InactivePageTable T, s2)
     \<and> pt_wf s2 (cr3_frame s) \<and> cr3 s2 = cr3 s \<and> tp_ready TEMPORARY_PAGE s2 \<and> inactive_ok s2 T
     \<and> empty_table (pmem s2) T \<and> card (free_now s) \<le> card (free_now s2) + 4
     \<and> spared s {cr3_frame s} s2 {cr3_frame s, T}"
proof -
  let ?r = "cr3_frame s"
  have b: "pt_wf s ?r" "mappable s ?r (tp_page TEMPORARY_PAGE)" "10 \<le> card (free_now s)"
    using assms by (simp_all add: boot_ready_def)
  then have "free_now s \<noteq> {}" by auto
  then obtain T s1 where
    s1: "allocate_frames 1 s = Inr (Some T, s1)" "pt_wf s1 ?r" "T \<in> free_now s" "free_now s1 = free_now s - {T}"
      "pmem s1 = pmem s" "cr3 s1 = cr3 s" by (rule allocate_frames_kept [OF b(1)])
  have cr: "cr3_frame s1 = ?r" using s1(6) by (simp add: cr3_frame_def)
  have c1: "card (free_now s) = Suc (card (free_now s1))" using s1(3,4) card_Suc_Diff1 [of "free_now s" T] by simp
  have "tp_ready TEMPORARY_PAGE s1"
    using temporary_page_indices b(2,3) c1 by (simp add: tp_ready_def cr mappable_def s1(5))
  moreover have "T \<notin> free_now s1" using s1(4) by simp
  ultimately obtain s2 where s2: "inactive_page_table_new T TEMPORARY_PAGE s1 = Inr (InactivePageTable T, s2)"
    "pt_wf s2 ?r" "cr3 s2 = cr3 s1" "empty_table (pmem s2) T" "inactive_ok s2 T"
    "mappable s2 ?r (tp_page TEMPORARY_PAGE)" "card (free_now s1) \<le> card (free_now s2) + 3"
    "\<forall>h. idle s1 {?r} h \<longrightarrow> h \<noteq> T \<longrightarrow> pmem s2 h = pmem s1 h \<and> idle s2 {?r, T} h"
    using inactive_page_table_new_ok [of s1 TEMPORARY_PAGE T] s1(2,5) cr pt_wf_alloc_fresh(1,2) [OF b(1) s1(3)] by auto
  have "cr3_frame s2 = ?r" using s2(3) s1(6) by (simp add: cr3_frame_def)
  then have "tp_ready TEMPORARY_PAGE s2"
    using temporary_page_indices s2(6,7) c1 b(3) by (simp add: tp_ready_def)
  moreover have "cr3 s2 = cr3 s" "card (free_now s) \<le> card (free_now s2) + 4" using s1(6) s2(3,7) c1 by simp_all
  moreover have "spared s {?r} s2 {?r, T}"
    using s2(8) s1(3,4,5) unfolding spared_def idle_def by (metis Diff_iff singletonD)
  ultimately show ?thesis using s1(1,3) s2(1,2,4,5) by blast
qed

text \<open>The page of the old top table is unmapped.\<close>

lemma guard_page_unmapped:
  assumes wf: "pt_wf s T" and h: "holds_boot_maps s T ms" and r: "(r, fl) \<in> set ms"
    and low: "\<forall>m \<in> set ms. low_frame (fst m)"
  shows "\<exists>s'. rbind (unmap (identity_page r) s) (\<lambda>(result, s). mapper_flush result s) = Inr s'
     \<and> pt_wf s' T \<and> cr3 s' = cr3 s \<and> page_map s' T (identity_page r) = None
     \<and> (\<forall>q. p4_index q \<noteq> 511 \<longrightarrow> page_path q \<noteq> page_path (identity_page r) \<longrightarrow>
          page_map s' T q = page_map s T q \<and> (mappable s T q \<longrightarrow> mappable s' T q))
     \<and> free_now s' = free_now s \<and> kept s T s'"
proof -
  have "frame_number r < 0x800000000" using low r by (auto simp: low_frame_def)
  note p = low_page_ok(1,2) [OF this, folded identity_page_def]
  have "small_mapped s T (identity_page r)" using h r by (auto simp: holds_boot_maps_def)
  from unmap_ok [OF wf p(2,1) this] obtain s' where "unmap (identity_page r) s = Inr (MapperFlush (identity_page r), s')"
    "pt_wf s' T" "page_map s' T (identity_page r) = None" "kept s T s'" "free_now s' = free_now s"
    "\<forall>q. p4_index q \<noteq> 511 \<longrightarrow> page_path q \<noteq> page_path (identity_page r) \<longrightarrow>
       page_map s' T q = page_map s T q \<and> (mappable s T q \<longrightarrow> mappable s' T q)" by blast
  then show ?thesis using mapper_flush_ok [OF p(1)] by (simp add: kept_def del: mapper_flush.simps)
qed

lemma identity_page_containing:
  assumes "low_frame r"
  shows "rbind (frame_start_address r) (\<lambda>a. page_containing_address (VirtualAddress (pa_get a))) = Inr (identity_page r)"
proof -
  have n: "frame_number r < 0x800000000" using assms by (simp add: low_frame_def)
  then have "unat (frame_number r) < 2 ^ 52" by (simp add: word_less_nat_alt)
  with low_page_ok(1,3) [OF n] show ?thesis
    by (simp add: frame_start_address_def mult_PAGE_SIZE page_containing_address_def page_ok_def div_PAGE_SIZE identity_page_def)
qed

lemma paging_init_ok:
  assumes "boot_ready bi secs s"
  shows "\<exists>s' T. paging_init bi s = Inr s' \<and> T \<in> free_now s \<and> cr3_frame s' = T \<and> pt_wf s' T
     \<and> (\<forall>(f, fl) \<in> set (boot_maps secs bi). f \<noteq> cr3_frame s \<longrightarrow> page_map s' T (identity_page f) = Some (f, bit fl 1))
     \<and> page_map s' T (identity_page (cr3_frame s)) = None
     \<and> (\<forall>q. p4_index q \<noteq> 511 \<longrightarrow> page_path q \<notin> (\<lambda>(f, _). page_path (identity_page f)) ` set (boot_maps secs bi) \<longrightarrow>
          page_map s' T q = None \<and> mappable s' T q)
     \<and> card (free_now s) \<le> card (free_now s') + 4 * length (boot_maps secs bi) + 7
     \<and> spared s {cr3_frame s} s' {T}"
proof -
  let ?r = "cr3_frame s" and ?ms = "boot_maps secs bi"
  have b: "boot_ok bi secs" "cr3_ok s" "4 * length ?ms + 10 \<le> card (free_now s)" and "?r \<in> fst ` set ?ms"
    using assms by (simp_all add: boot_ready_def)
  then obtain fl where r: "(?r, fl) \<in> set ?ms" by auto
  have low: "\<forall>m \<in> set ?ms. low_frame (fst m)" using b(1) by (simp add: boot_ok_def)
  obtain T s1 s2 where s2: "allocate_frames 1 s = Inr (Some T, s1)" "T \<in> free_now s"
      "inactive_page_table_new T TEMPORARY_PAGE s1 = Inr (InactivePageTable T, s2)"
      "pt_wf s2 ?r" "cr3 s2 = cr3 s" "tp_ready TEMPORARY_PAGE s2" "inactive_ok s2 T" "empty_table (pmem s2) T"
      "card (free_now s) \<le> card (free_now s2) + 4" "spared s {?r} s2 {?r, T}"
    using table_prepared [OF assms] by blast
  have cr: "cr3_frame s2 = ?r" "cr3_ok s2" using s2(5) b(2) by (simp_all add: cr3_frame_def cr3_ok_def)
  obtain s3 where s3: "active_table_with (InactivePageTable T) TEMPORARY_PAGE (map_kernel bi) s2 = Inr s3"
      "pt_wf s3 ?r" "cr3 s3 = cr3 s2" "inactive_ok s3 T" "holds_boot_maps s3 T ?ms"
      "card (free_now s2) \<le> card (free_now s3) + 4 * length ?ms + 3" "spared s2 {?r, T} s3 {?r, T}"
    using new_table_built [OF b(1) _ cr(2) s2(6,7,8)] s2(4,9) cr(1) b(3) by auto
  have old: "frame_containing_address (PhysicalAddress (cr3 s3)) = ?r"
    using cr3_ok_frame [OF b(2)] s2(5) s3(3) by simp
  obtain s4 where s4: "active_table_switch (InactivePageTable T) s3 = Inr (InactivePageTable ?r, s4)" "pt_wf s4 T"
      "cr3_frame s4 = T" "pmem s4 = pmem s3" "free_now s4 = free_now s3"
    using switch_wf [OF s3(2,4)] old by auto
  have h4: "holds_boot_maps s4 T ?ms" using s3(5) s4(4) by (simp add: holds_boot_maps_def page_map_def small_mapped_def mappable_def)
  obtain s5 where s5: "rbind (unmap (identity_page ?r) s4) (\<lambda>(result, s). mapper_flush result s) = Inr s5" "pt_wf s5 T"
      "cr3 s5 = cr3 s4" "page_map s5 T (identity_page ?r) = None"
      "\<forall>q. p4_index q \<noteq> 511 \<longrightarrow> page_path q \<noteq> page_path (identity_page ?r) \<longrightarrow>
         page_map s5 T q = page_map s4 T q \<and> (mappable s4 T q \<longrightarrow> mappable s5 T q)"
      "free_now s5 = free_now s4" "kept s4 T s5"
    using guard_page_unmapped [OF s4(2) h4 r low] by blast
  have "low_frame ?r" using low r by auto
  note pc = identity_page_containing [OF this]
  have "paging_init bi s = Inr s5"
    using s2(1,3) s3(1) s4(1) s5(1) pc by (auto simp: paging_init_def res_simps)
  moreover have "page_map s5 T (identity_page f) = Some (f, bit fl 1)" if "(f, fl) \<in> set ?ms" "f \<noteq> ?r" for f fl
  proof -
    have "p4_index (identity_page f) \<noteq> 511" "page_path (identity_page f) \<noteq> page_path (identity_page ?r)"
      using low that low_page_ok(2) identity_page_path_inj [of f ?r] \<open>low_frame ?r\<close>
      by (auto simp: low_frame_def identity_page_def)
    with s5(5) h4 that(1) show ?thesis by (auto simp: holds_boot_maps_def)
  qed
  moreover have "page_map s5 T q = None" "mappable s5 T q"
    if "p4_index q \<noteq> 511" "page_path q \<notin> (\<lambda>(f, _). page_path (identity_page f)) ` set ?ms" for q
  proof -
    have "page_path q \<noteq> page_path (identity_page ?r)" using that(2) r by force
    with s5(5) h4 that show "page_map s5 T q = None" "mappable s5 T q" by (auto simp: holds_boot_maps_def)
  qed
  moreover have "card (free_now s) \<le> card (free_now s5) + 4 * length ?ms + 7" using s2(9) s3(6) s4(5) s5(6) by simp
  moreover have "cr3_frame s5 = T" using s5(3) s4(3) by (simp add: cr3_frame_def)
  moreover have "spared s {?r} s5 {T}"
  proof -
    have "spared s {?r} s3 {T}" using spared_trans [OF s2(10) s3(7)] by (rule spared_fewer) simp
    moreover have "spared s3 {T} s4 {T}" using s4(4,5) by (simp add: spared_def idle_def)
    ultimately show ?thesis using spared_trans kept_spared [OF s5(7)] by blast
  qed
  ultimately show ?thesis using s2(2) s5(2,4) by (intro exI [of _ s5] exI [of _ T]) auto
qed

section \<open>An example machine\<close>

text \<open>The example machine with 4096 free frames from \<open>0x1000\<close> on.\<close>

definition big_allocator :: AreaFrameAllocator where
  "big_allocator = \<lparr>next_free_frame = Frame 0x1000, current_area = Some \<lparr>area_start = 0x1000000, area_size = 0x1000000\<rparr>,
     areas = [\<lparr>area_start = 0x1000000, area_size = 0x1000000\<rparr>], kernel_start = Frame 0x100, kernel_end = Frame 0x110,
     multiboot_start = Frame 0x120, multiboot_end = Frame 0x121\<rparr>"

definition big_vm :: vm where
  "big_vm = example_vm\<lparr>ALLOCATOR := Some big_allocator\<rparr>"

lemma big_allocator_free: "free_set big_allocator = {f. 0x1000 \<le> unat (frame_number f) \<and> unat (frame_number f) < 0x2000}"
proof -
  have "f \<in> free_set big_allocator \<longleftrightarrow> 0x1000 \<le> unat (frame_number f) \<and> unat (frame_number f) < 0x2000" for f
  proof (cases f)
    case (Frame n)
    then show ?thesis
      by (auto simp: free_set_def big_allocator_def in_area_def last_frame_def area_first_frame_def reserved_def
          frame_containing_address_def PAGE_SIZE_def word_le_nat_alt)
  qed
  then show ?thesis by blast
qed

lemma big_vm_wf: "pt_wf big_vm (Frame 9)"
  unfolding big_vm_def
proof (rule example_pt_wf_alloc)
  show "alloc_wf big_allocator"
    by (simp add: alloc_wf_def big_allocator_def area_ok_def area_first_frame_def
        frame_containing_address_def PAGE_SIZE_def less_eq_Frame_def)
  show "\<forall>f \<in> free_set big_allocator. frame_ok f \<and> f \<noteq> Frame 9"
    by (auto simp: big_allocator_free frame_ok_bound)
qed

lemma big_vm_card: "4096 \<le> card (free_now big_vm)"
proof -
  let ?F = "(\<lambda>k :: nat. Frame (of_nat k)) ` {0x1000 ..< 0x2000}"
  have inj: "inj_on (\<lambda>k :: nat. Frame (of_nat k)) {0x1000 ..< 0x2000}"
    by (rule inj_onI) (auto simp: word_unat_eq_iff unat_of_nat)
  have "?F \<subseteq> free_now big_vm"
    by (auto simp: free_now_def big_vm_def big_allocator_free unat_of_nat)
  then have "card ?F \<le> card (free_now big_vm)" by (rule card_mono [rotated]) simp
  with card_image [OF inj] show ?thesis by simp
qed

text \<open>The kernel in one writable section of one page that also holds the top table, and one page of multiboot data.\<close>

definition big_section :: ElfSection where
  "big_section = \<lparr>sec_start = 0x9000, sec_size = 0x1000, sec_end = 0xa000, sec_allocated = True, sec_writable = True,
     sec_executable = False\<rparr>"

definition big_boot :: BootInformation where
  "big_boot = \<lparr>bi_start_address = 0x120000, bi_end_address = 0x120400, bi_memory_areas = None, bi_elf_sections = Some [big_section]\<rparr>"

lemma big_maps: "boot_maps [big_section] big_boot = [(Frame 9, PRESENT OR WRITABLE OR NO_EXECUTE), (Frame 0xb8, WRITABLE), (Frame 0x120, PRESENT)]"
  by (simp add: boot_maps_def section_maps_def big_section_def big_boot_def span_def word_range_def PAGE_SIZE_def
      from_elf_section_flags_def or.assoc)

lemma big_boot_ready: "boot_ready big_boot [big_section] big_vm"
proof -
  have c: "cr3_frame big_vm = Frame 9" by (simp add: cr3_frame_def big_vm_def example_vm_def)
  have "boot_ok big_boot [big_section]"
    using big_maps by (simp add: boot_ok_def low_frame_def) (simp add: big_section_def big_boot_def PAGE_SIZE_def)
  moreover have "mappable big_vm (Frame 9) (tp_page TEMPORARY_PAGE)"
    using example_mappable [OF temporary_page_indices(2)] by (simp add: mappable_def big_vm_def)
  ultimately show ?thesis
    using big_vm_wf big_vm_card by (simp add: boot_ready_def c big_maps) (simp add: cr3_ok_def big_vm_def example_vm_def)
qed

section \<open>Properties\<close>

text \<open>
  C7. The kernel's own table: on well-formed boot tables with enough free frames, and boot data whose
  frames are in the lower half and do not overlap, \<^verbatim>\<open>paging::init\<close> returns and the processor then
  uses a new table, in a frame that was free, whose tables are well formed. It maps every frame of
  the kernel's sections, the text buffer and the multiboot data to itself, writable exactly when
  the flags say so, but for the page of the old top table: that is the guard page and is not
  mapped. No other page outside the recursive slot is mapped. (The comment of the source says otherwise: that the
  kernel is remapped one page above, and that the previous stack becomes the guard page.)
\<close>

theorem paging_init_maps_kernel:
  assumes "boot_ready bi secs s"
  shows "\<exists>s' T. paging_init bi s = Inr s' \<and> T \<in> free_now s \<and> cr3_frame s' = T \<and> pt_wf s' T
     \<and> (\<forall>(f, fl) \<in> set (boot_maps secs bi). f \<noteq> cr3_frame s \<longrightarrow> page_map s' T (identity_page f) = Some (f, bit fl 1))
     \<and> page_map s' T (identity_page (cr3_frame s)) = None
     \<and> (\<forall>q. p4_index q \<noteq> 511 \<longrightarrow> page_path q \<notin> (\<lambda>(f, _). page_path (identity_page f)) ` set (boot_maps secs bi) \<longrightarrow>
          page_map s' T q = None)"
  using paging_init_ok [OF assms] by blast

theorem paging_init_maps_kernel_witness:
  "\<exists>s' T. paging_init big_boot big_vm = Inr s' \<and> cr3_frame s' = T
     \<and> page_map s' T (Page 0xb8) = Some (Frame 0xb8, True) \<and> page_map s' T (Page 0x120) = Some (Frame 0x120, False)
     \<and> page_map s' T (Page 9) = None"
proof -
  have c: "cr3_frame big_vm = Frame 9" by (simp add: cr3_frame_def big_vm_def example_vm_def)
  obtain s' where "paging_init big_boot big_vm = Inr s'"
    "\<forall>(f, fl) \<in> set (boot_maps [big_section] big_boot). f \<noteq> cr3_frame big_vm \<longrightarrow>
       page_map s' (cr3_frame s') (identity_page f) = Some (f, bit fl 1)"
    "page_map s' (cr3_frame s') (identity_page (cr3_frame big_vm)) = None"
    using paging_init_maps_kernel [OF big_boot_ready] by blast
  then show ?thesis by (auto simp: big_maps c identity_page_def bit_flag_consts)
qed

end
