(* ===== verification/Kernel.thy ===== *)
theory Kernel
  imports Acpi Stack_Alloc Sched Interrupts Kernel_Map
begin

text \<open>
  Where the components meet: the set-up of memory (\<^verbatim>\<open>memory::init\<close> of \<^verbatim>\<open>memory/mod.rs\<close>, the
  constants of \<^verbatim>\<open>heap_allocator.rs\<close>), the set-up of the interrupt tables (\<^verbatim>\<open>interrupts::init\<close>), the
  system call that creates a process (\<^verbatim>\<open>syscall/process.rs\<close>) and the timer interrupt that
  preempts (\<^verbatim>\<open>irq.rs\<close>). The heap allocator of the \<^verbatim>\<open>linked_list_allocator\<close> crate is not modelled;
  \<open>memory_init\<close> returns the range it is given. \<open>paging_init\<close> runs on the page tables alone; its messages are printed when it is done.
  Those of the frame allocator are left out; all others are printed where the code has them. The assertion
  that \<^verbatim>\<open>memory::init\<close> is called only once (a macro of the crate \<^verbatim>\<open>once\<close>) is left out: \<^verbatim>\<open>arch::init\<close> calls it once, and
  on tables it has set up the hypotheses of the theorems do not hold.
\<close>

section \<open>Memory\<close>

definition HEAP_START :: usize where "HEAP_START = 0x40000000"
definition HEAP_SIZE :: usize where "HEAP_SIZE = 500 * 1024"

definition kernel_range :: "ElfSection list \<Rightarrow> (u64 \<times> u64) res" where
  "kernel_range sections =
     (let allocated = filter sec_allocated sections in
      rbind (rexpect (if allocated = [] then None else Some (Min (sec_start ` set allocated))) ''unwrap'') (\<lambda>k_start.
      rbind (rfold (\<lambda>s ends. rbind (checked_add (sec_start s) (sec_size s)) (\<lambda>e. Inr (e # ends))) allocated []) (\<lambda>ends.
      rbind (rexpect (if ends = [] then None else Some (Max (set ends))) ''unwrap'') (\<lambda>k_end.
      Inr (k_start, k_end)))))"

definition map_heap :: "vm \<Rightarrow> (Page \<times> vm) res" where
  "map_heap s =
     rbind (page_containing_address (VirtualAddress HEAP_START)) (\<lambda>heap_start_page.
     rbind (checked_add HEAP_START HEAP_SIZE) (\<lambda>e.
     rbind (checked_sub e 1) (\<lambda>l.
     rbind (page_containing_address (VirtualAddress l)) (\<lambda>heap_end_page.
     rbind (pages_of (page_range_inclusive heap_start_page heap_end_page)) (\<lambda>pages.
     rbind (rfold (map_and_flush (PRESENT OR WRITABLE)) pages s) (\<lambda>s.
     Inr (heap_end_page, s)))))))"

definition stack_allocator_after :: "Page \<Rightarrow> StackAllocator res" where
  "stack_allocator_after heap_end_page =
     rbind (page_add heap_end_page 1) (\<lambda>stack_start_page.
     rbind (page_add stack_start_page 100) (\<lambda>stack_end_page.
     Inr (stack_allocator_new (page_range_inclusive stack_start_page stack_end_page))))"

text \<open>
  The messages of \<^verbatim>\<open>paging::init\<close>, in their order: one for each section that is loaded, the address of the new top table, the
  address of the guard page, which was the page of the old top table. \<open>before\<close> and \<open>after\<close> are the tables around the call.
\<close>

definition section_message :: "ElfSection \<Rightarrow> string" where
  "section_message section =
     ''[ vmm ] Identity mapping kernel section at addr: '' @ fmt_alternate_hex (sec_start section)
       @ '', size: '' @ fmt_display (sec_size section div 1024) @ '' KiB''"

definition paging_report :: "hw \<Rightarrow> BootInformation \<Rightarrow> vm \<Rightarrow> vm \<Rightarrow> 'a io_scheme \<Rightarrow> 'a io_scheme res" where
  "paging_report hw boot_info before after p =
     rbind (println hw ''[ vmm ] Initialising paging.'' p) (\<lambda>p.
     rbind (rexpect (bi_elf_sections boot_info) ''Memory map tag required'') (\<lambda>sections.
     rbind (rfold (\<lambda>section. println hw (section_message section)) (filter sec_allocated sections) p) (\<lambda>p.
     rbind (println hw ''[ vmm ] Identity mapping the VGA text buffer.'' p) (\<lambda>p.
     rbind (println hw ''[ vmm ] Identity mapping multiboot structures.'' p) (\<lambda>p.
     rbind (println hw (''[ vmm ] Switched to new page table. PML4 at '' @ fmt_alternate_hex (active_table_address after)) p) (\<lambda>p.
     rbind (frame_start_address (frame_containing_address (PhysicalAddress (cr3 before)))) (\<lambda>a.
     rbind (page_containing_address (VirtualAddress (pa_get a))) (\<lambda>old_p4_page.
     rbind (page_start_address old_p4_page) (\<lambda>guard.
     println hw (''[ vmm ] Guard page at '' @ fmt_alternate_hex (va_get guard) @ ''.'') p)))))))))"

definition memory_init ::
  "hw \<Rightarrow> acpi_env \<Rightarrow> BootInformation \<Rightarrow> platform \<Rightarrow> (MemoryController \<times> (usize \<times> usize) \<times> platform) res" where
  "memory_init hw env boot_info p =
     rbind (rexpect (bi_memory_areas boot_info) ''Memory map tag required'') (\<lambda>memory_areas.
     rbind (rexpect (bi_elf_sections boot_info) ''Elf sections tag required'') (\<lambda>sections.
     rbind (kernel_range sections) (\<lambda>(k_start, k_end).
     rbind (println hw (''[ pmm ] Kernel start: '' @ fmt_alternate_hex k_start @ '', kernel end: '' @ fmt_alternate_hex k_end) p) (\<lambda>p.
     rbind (println hw (''[ pmm ] Multiboot data structure start: '' @ fmt_alternate_hex (bi_start_address boot_info)
       @ '', end: '' @ fmt_alternate_hex (bi_end_address boot_info)) p) (\<lambda>p.
     rbind (area_frame_allocator_new k_start k_end (bi_start_address boot_info) (bi_end_address boot_info) memory_areas) (\<lambda>frame_allocator.
     let v = (pvm p)\<lparr>ALLOCATOR := Some frame_allocator\<rparr> in
     rbind (paging_init boot_info v) (\<lambda>v'.
     rbind (paging_report hw boot_info v v' p) (\<lambda>p.
     rbind (println hw ''[ vmm ] Mapping heap pages ...'' (p\<lparr>pvm := v'\<rparr>)) (\<lambda>p.
     rbind (map_heap (pvm p)) (\<lambda>(heap_end_page, v).
     rbind (stack_allocator_after heap_end_page) (\<lambda>sa.
     rbind (acpi_init hw env (p\<lparr>pvm := v\<rparr>)) (\<lambda>p.
     Inr (\<lparr>stack_allocator = sa\<rparr>, (HEAP_START, HEAP_SIZE), p)))))))))))))"

section \<open>Interrupt tables\<close>

record cpu_tables =
  ist0 :: usize
  gdt :: Gdt
  gdtr :: DescriptorTablePointer
  code_selector :: SegmentSelector
  tss_selector :: SegmentSelector

text \<open>
  The interrupt table is built when it is loaded, with its own messages. \<open>gdt_ptr\<close> and \<open>tss_ptr\<close> are
  the addresses of the two statics.
\<close>

definition load_idt :: "hw \<Rightarrow> 'a io_scheme \<Rightarrow> 'a io_scheme res" where
  "load_idt hw s =
     rbind (println hw ''[ interrupts ] Installing exception handlers.'' s) (\<lambda>s.
     println hw ''[ interrupts ] Installing IRQs.'' s)"

definition interrupts_init ::
  "hw \<Rightarrow> (u64 \<Rightarrow> nat \<Rightarrow> nat \<Rightarrow> u64) \<Rightarrow> (u64 \<Rightarrow> nat \<Rightarrow> nat \<Rightarrow> u64 \<Rightarrow> u64) \<Rightarrow> usize \<Rightarrow> u64 \<Rightarrow> u64 \<Rightarrow>
   MemoryController \<Rightarrow> platform \<Rightarrow> (cpu_tables \<times> MemoryController \<times> platform) res" where
  "interrupts_init hw get_bits set_bits tss_size tss_ptr gdt_ptr mc p =
     rbind (controller_alloc_stack mc 1 (pvm p)) (\<lambda>(r, mc, v).
     let p = p\<lparr>pvm := v\<rparr> in
     rbind (rexpect r ''could not allocate double fault stack'') (\<lambda>double_fault_stack.
     rbind (println hw ''[ tables ] Loading GDT entries.'' p) (\<lambda>p.
     rbind (gdt_add_entry kernel_code_segment gdt_new) (\<lambda>(cs, g).
     rbind (tss_segment get_bits set_bits tss_size tss_ptr) (\<lambda>d.
     rbind (gdt_add_entry d g) (\<lambda>(ts, g).
     let ptr = gdt_load gdt_ptr g in
     rbind (println hw ''[ tables ] Successfully loaded GDT.'' p) (\<lambda>p.
     rbind (println hw ''[ tables ] Reloading CS.'' p) (\<lambda>p.
     rbind (println hw ''[ tables ] Loading TSS.'' p) (\<lambda>p.
     rbind (load_idt hw p) (\<lambda>p.
     rbind (println hw ''[ tables ] Successfully loaded IDT.'' p) (\<lambda>p.
     Inr (\<lparr>ist0 = stack_top double_fault_stack, gdt = g, gdtr = ptr, code_selector = cs, tss_selector = ts\<rparr>, mc, p))))))))))))"

section \<open>System calls and the timer\<close>

record kernel = io +
  SCHEDULER :: CoopScheduler
  cpu :: Cpu
  PIT_TICKS :: usize
  apic_manager :: "ApicManager option"

text \<open>
  The heap's operations run masked, wherever they are called: \<open>n\<close> calls, as they show on the ports and on the
  interrupt flag. What they return is part of the caller's environment.
\<close>

fun heap_accesses :: "hw \<Rightarrow> nat \<Rightarrow> 'a io_scheme \<Rightarrow> 'a io_scheme res" where
  "heap_accesses hw 0 s = Inr s"
| "heap_accesses hw (Suc n) s =
     rbind (disable_interrupts_and_then hw (\<lambda>s. Inr ((), s)) s) (\<lambda>(_, s). heap_accesses hw n s)"

text \<open>The closure of the system call, the accesses of its heap calls apart.\<close>

definition sys_create_body :: "create_env \<Rightarrow> usize \<Rightarrow> string \<Rightarrow> kernel \<Rightarrow> (ProcessId \<times> kernel) res" where
  "sys_create_body env new nm k =
     rbind (create env new nm (SCHEDULER k)) (\<lambda>(r, sch).
     case r of
       Inl e \<Rightarrow> Inl (Panic ''Could not create new process!'')
     | Inr p \<Rightarrow>
         rbind (ready (heap_gives env ReadyList) p sch) (\<lambda>sch.
         Inr (p, k\<lparr>SCHEDULER := sch\<rparr>)))"

definition sys_create :: "hw \<Rightarrow> create_env \<Rightarrow> usize \<Rightarrow> string \<Rightarrow> kernel \<Rightarrow> (ProcessId \<times> kernel) res" where
  "sys_create hw env new nm k =
     disable_interrupts_and_then hw (\<lambda>k.
       rbind (heap_accesses hw (heap_uses env) k) (\<lambda>k.
       sys_create_body env new nm k)) k"

text \<open>
  In the switch of \<open>resched\<close> the handler stops until its process is switched to again; the model goes on at once,
  so the masks are restored on behalf of the process that was switched to.
\<close>

definition timer_handler :: "hw \<Rightarrow> kernel \<Rightarrow> (unit \<times> kernel) res" where
  "timer_handler hw k =
     rbind (println hw ''timer interrupt.'' k) (\<lambda>k.
     rbind (apic_eoi (apic_manager k)) (\<lambda>_.
     let ticks = PIT_TICKS k;
         k = k\<lparr>PIT_TICKS := ticks + 1\<rparr> in
     if ticks \<ge> 10 then
       let k = k\<lparr>PIT_TICKS := 0\<rparr> in
       disable_interrupts_and_then hw (\<lambda>k.
         rbind (resched (SCHEDULER k) (cpu k)) (\<lambda>(sch, c).
         Inr ((), k\<lparr>SCHEDULER := sch, cpu := c\<rparr>))) k
     else Inr ((), k)))"

section \<open>The timer\<close>

fun timer_ticks :: "hw \<Rightarrow> nat \<Rightarrow> kernel \<Rightarrow> kernel res" where
  "timer_ticks hw 0 k = Inr k"
| "timer_ticks hw (Suc n) k = rbind (timer_handler hw k) (\<lambda>(_, k). timer_ticks hw n k)"

definition apic_ready :: "kernel \<Rightarrow> bool" where
  "apic_ready k \<longleftrightarrow> (\<exists>m. apic_manager k = Some m \<and> unat (lapic_base m) + 0xb0 < 2 ^ 32)"

lemma apic_ready_eoi: "apic_ready k \<Longrightarrow> apic_eoi (apic_manager k) = Inr ()"
  by (auto simp: apic_ready_def apic_eoi_def apic_manager_eoi_def lapic_write_def checked_add_def)

lemma kernel_io [simp]:
  "SCHEDULER (emit e k) = SCHEDULER k" "cpu (emit e k) = cpu k" "PIT_TICKS (emit e k) = PIT_TICKS k"
  "apic_manager (emit e k) = apic_manager k"
  by (simp_all add: emit_def)

lemmas mask_defs = disable_interrupts_and_then_def disable_interrupts_def restore_interrupts_def disable_def enable_def
  port8_read_def port8_write_def inb_def outb_def

text \<open>The system call runs its closure between the accesses that mask and restore.\<close>

lemma heap_accesses_ok: "\<exists>es. heap_accesses hw n s = Inr (s\<lparr>trace := trace s @ es\<rparr>)"
proof (induction n arbitrary: s)
  case 0
  show ?case by (rule exI [of _ "[]"]) simp
next
  case (Suc n)
  have "\<exists>es. disable_interrupts_and_then hw (\<lambda>s. Inr ((), s)) s = Inr ((), s\<lparr>trace := trace s @ es\<rparr>)"
    by (simp add: mask_defs emit_def Let_def) blast
  then obtain es where "disable_interrupts_and_then hw (\<lambda>s. Inr ((), s)) s = Inr ((), s\<lparr>trace := trace s @ es\<rparr>)" by blast
  with Suc [of "s\<lparr>trace := trace s @ es\<rparr>"] show ?case by auto
qed

lemma sys_create_runs:
  "\<exists>v es. sys_create hw env new nm k
     = rbind (sys_create_body env new nm (k\<lparr>trace := trace k @ es\<rparr>)) (\<lambda>(r, k). Inr (r, restore_interrupts v k))"
proof -
  obtain v k1 where d: "disable_interrupts hw k = (v, k1)" by fastforce
  obtain es where k1: "k1 = k\<lparr>trace := trace k @ es\<rparr>" using d by (auto simp: mask_defs emit_def Let_def)
  obtain es' where "heap_accesses hw (heap_uses env) k1 = Inr (k1\<lparr>trace := trace k1 @ es'\<rparr>)"
    using heap_accesses_ok by blast
  then show ?thesis using d k1 by (intro exI [of _ v] exI [of _ "es @ es'"]) (simp add: sys_create_def disable_interrupts_and_then_def)
qed

lemma restored_on: "interrupts_on b (trace (restore_interrupts v s))" "SCHEDULER (restore_interrupts v k) = SCHEDULER k"
  by (cases v, simp add: mask_defs Let_def interrupts_on_append)+

lemma kernel_more:
  assumes "io.more k' = io.more (k :: kernel)"
  shows "SCHEDULER k' = SCHEDULER k" "cpu k' = cpu k" "PIT_TICKS k' = PIT_TICKS k" "apic_manager k' = apic_manager k"
  using assms by (cases k, cases k', simp)+

lemmas logged_kernel = kernel_more [OF logged_more]

text \<open>What a tick before the last of a slice does: it reports itself and counts.\<close>

definition ticked :: "nat \<Rightarrow> kernel \<Rightarrow> kernel \<Rightarrow> bool" where
  "ticked n k k' \<longleftrightarrow> logged (replicate n ''timer interrupt.'') k (k'\<lparr>PIT_TICKS := PIT_TICKS k\<rparr>)
     \<and> PIT_TICKS k' = PIT_TICKS k + of_nat n"

lemma ticked_same: "ticked n k k' \<Longrightarrow> SCHEDULER k' = SCHEDULER k \<and> cpu k' = cpu k \<and> apic_manager k' = apic_manager k"
  using logged_kernel by (fastforce simp: ticked_def)

lemma ticked_trans:
  assumes "ticked n k k1" and "ticked m k1 k2"
  shows "ticked (n + m) k k2"
proof -
  let ?t = "\<lambda>n. replicate n ''timer interrupt.''"
  from assms(2) obtain es where es: "k2\<lparr>PIT_TICKS := PIT_TICKS k1\<rparr> = k1\<lparr>trace := trace k1 @ es\<rparr>" "serial_only 0x3f8 es"
    "sent 0x3f8 es = lines (?t m)" by (auto simp: ticked_def logged_def)
  have "k2\<lparr>PIT_TICKS := PIT_TICKS k\<rparr> = (k2\<lparr>PIT_TICKS := PIT_TICKS k1\<rparr>)\<lparr>PIT_TICKS := PIT_TICKS k\<rparr>" by simp
  also have "\<dots> = (k1\<lparr>PIT_TICKS := PIT_TICKS k\<rparr>)\<lparr>trace := trace (k1\<lparr>PIT_TICKS := PIT_TICKS k\<rparr>) @ es\<rparr>"
    unfolding es(1) by simp
  finally have "logged (?t m) (k1\<lparr>PIT_TICKS := PIT_TICKS k\<rparr>) (k2\<lparr>PIT_TICKS := PIT_TICKS k\<rparr>)"
    unfolding logged_def using es(2,3) by blast
  with assms show ?thesis using logged_trans by (fastforce simp: ticked_def replicate_add)
qed

lemma timer_early:
  assumes "apic_ready k" and "PIT_TICKS k < 10" and "serial_ready hw COM1"
  shows "\<exists>k'. timer_handler hw k = Inr ((), k') \<and> ticked 1 k k'"
proof -
  obtain k1 where k1: "println hw ''timer interrupt.'' k = Inr k1" "logged [''timer interrupt.''] k k1"
    by (rule println_ok [OF assms(3)])
  have same: "PIT_TICKS k1 = PIT_TICKS k" "apic_manager k1 = apic_manager k" using logged_kernel [OF k1(2)] by simp_all
  then have "apic_ready k1" using assms(1) by (simp add: apic_ready_def)
  from k1(1) apic_ready_eoi [OF this] assms(2) same
  have "timer_handler hw k = Inr ((), k1\<lparr>PIT_TICKS := PIT_TICKS k + 1\<rparr>)" by (simp add: timer_handler_def not_le [symmetric])
  moreover have "k1\<lparr>PIT_TICKS := PIT_TICKS k\<rparr> = k1" unfolding same(1) [symmetric] by simp
  then have "ticked 1 k (k1\<lparr>PIT_TICKS := PIT_TICKS k + 1\<rparr>)" using k1(2) by (simp add: ticked_def)
  ultimately show ?thesis by blast
qed

lemma timer_switch:
  assumes "apic_ready k" and "10 \<le> PIT_TICKS k" and "resched (SCHEDULER k) (cpu k) = Inr (sch, c)" and "serial_ready hw COM1"
  shows "\<exists>k'. timer_handler hw k = Inr ((), k') \<and> SCHEDULER k' = sch \<and> cpu k' = c \<and> PIT_TICKS k' = 0
     \<and> apic_manager k' = apic_manager k \<and> interrupts_on b (trace k')"
proof -
  obtain k1 where k1: "println hw ''timer interrupt.'' k = Inr k1" "logged [''timer interrupt.''] k k1"
    by (rule println_ok [OF assms(4)])
  note same = logged_kernel [OF k1(2)]
  then have "apic_ready k1" using assms(1) by (simp add: apic_ready_def)
  from k1(1) same assms(2,3) apic_ready_eoi [OF this] show ?thesis
    by (simp add: timer_handler_def mask_defs Let_def interrupts_on_append)
qed

lemma timer_ticks_early:
  assumes "apic_ready k" and "unat (PIT_TICKS k) + n \<le> 10" and "serial_ready hw COM1"
  shows "\<exists>k'. timer_ticks hw n k = Inr k' \<and> ticked n k k'"
  using assms(1,2)
proof (induction n arbitrary: k)
  case 0
  then show ?case by (simp add: ticked_def)
next
  case (Suc n)
  then have lt: "PIT_TICKS k < 10" by (simp add: word_less_nat_alt)
  obtain k1 where k1: "timer_handler hw k = Inr ((), k1)" "ticked 1 k k1"
    using timer_early [OF Suc.prems(1) lt assms(3)] by blast
  have p: "PIT_TICKS k1 = PIT_TICKS k + 1" using k1(2) by (simp add: ticked_def)
  have "unat (PIT_TICKS k + 1) = unat (PIT_TICKS k) + 1" using Suc.prems(2) by (simp add: unat_word_ariths)
  then have "unat (PIT_TICKS k1) + n \<le> 10" using Suc.prems(2) p by simp
  moreover have "apic_ready k1" using Suc.prems(1) ticked_same [OF k1(2)] by (simp add: apic_ready_def)
  ultimately obtain k2 where "timer_ticks hw n k1 = Inr k2" "ticked n k1 k2" using Suc.IH by blast
  with k1 ticked_trans [OF k1(2), of n k2] show ?case by simp
qed

lemma timer_ticks_append: "timer_ticks hw (n + m) k = rbind (timer_ticks hw n k) (timer_ticks hw m)"
  by (induction n arbitrary: k) (auto simp: res_simps split: prod.splits intro!: rbind_cong)

section \<open>The heap\<close>

definition heap_pages :: "Page list" where
  "heap_pages = map Page (word_range 0x40000 0x4007c)"

lemma map_heap_loop:
  "map_heap s = rbind (rfold (map_and_flush (PRESENT OR WRITABLE)) heap_pages s) (\<lambda>s. Inr (Page 0x4007c, s))"
proof -
  have "pages_of (page_range_inclusive (Page 0x40000) (Page 0x4007c)) = Inr heap_pages"
    using pages_of_range [of "Page 0x4007c" "Page 0x40000"] by (simp add: heap_pages_def)
  then show ?thesis
    by (simp add: map_heap_def page_containing_address_def is_canonical_def HEAP_START_def HEAP_SIZE_def
        PAGE_SIZE_def checked_add_def checked_sub_def)
qed

lemma heap_ready:
  assumes "\<forall>p \<in> set heap_pages. mappable s T p" and "500 \<le> card (free_now s)"
  shows "heap_loop.loop_ready s T heap_pages"
proof -
  have low: "k < 0x800000000" if "k \<le> 0x4007c" for k :: usize using that by (simp add: word_le_nat_alt word_less_nat_alt)
  have "inj_on (\<lambda>k. page_path (Page k)) {k. 0x40000 \<le> k \<and> k \<le> 0x4007c}"
    using page_path_low_inj low by (intro inj_onI) auto
  then have "distinct (map page_path heap_pages)"
    by (simp add: heap_pages_def distinct_map comp_def inj_on_def)
  moreover have "\<forall>p \<in> set heap_pages. p4_index p \<noteq> 511 \<and> page_ok p"
    using low_page_ok low by (auto simp: heap_pages_def)
  moreover have "length heap_pages = 125" by (simp add: heap_pages_def)
  ultimately show ?thesis using assms by (simp add: heap_loop.loop_ready_def)
qed

lemma map_heap_ok:
  assumes "pt_wf s T" and "\<forall>p \<in> set heap_pages. mappable s T p" and "500 \<le> card (free_now s)"
  shows "\<exists>s'. map_heap s = Inr (Page 0x4007c, s') \<and> pt_wf s' T \<and> kept s T s'
     \<and> (\<forall>p \<in> set heap_pages. \<exists>f \<in> free_now s. page_map s' T p = Some (f, True))
     \<and> fresh_frames s T heap_pages s'
     \<and> (\<forall>q. p4_index q \<noteq> 511 \<longrightarrow> page_path q \<notin> page_path ` set heap_pages \<longrightarrow> page_map s' T q = page_map s T q)"
proof -
  note ready = heap_ready [OF assms(2,3)]
  obtain s' where s': "rfold (map_and_flush (PRESENT OR WRITABLE)) heap_pages s = Inr s'"
    and d: "heap_loop.loop_done s T heap_pages s'"
    using heap_loop.loop_maps [OF assms(1) ready] by blast
  have f: "fresh_frames s T heap_pages s'" using heap_loop.loop_fresh [OF assms(1) ready s'] by simp
  have "bit (PRESENT OR WRITABLE) 1" by (simp add: bit_or_iff bit_flag_consts del: One_nat_def)
  then have "\<forall>p \<in> set heap_pages. \<exists>f \<in> free_now s. page_map s' T p = Some (f, True)"
    using d by (fastforce simp: heap_loop.loop_done_def new_frame_def)
  with s' d f show ?thesis
    by (intro exI [of _ s']) (auto simp: map_heap_loop heap_loop.loop_done_def)
qed

lemma heap_page_low: "p \<in> set heap_pages \<Longrightarrow> page_number p < 0x800000000 \<and> p4_index p \<noteq> 511"
  using low_page_ok(2) by (auto simp: heap_pages_def word_le_nat_alt word_less_nat_alt)

text \<open>The frames the kernel's table maps to themselves are outside the heap.\<close>

definition heap_apart :: "(Frame \<times> EntryFlags) list \<Rightarrow> bool" where
  "heap_apart ms \<longleftrightarrow> (\<forall>m \<in> set ms. identity_page (fst m) \<notin> set heap_pages)"

lemma heap_apart_path:
  assumes "heap_apart ms" and "\<forall>m \<in> set ms. low_frame (fst m)" and "p \<in> set heap_pages" and "m \<in> set ms"
  shows "page_path p \<noteq> page_path (identity_page (fst m))"
proof
  assume "page_path p = page_path (identity_page (fst m))"
  then have "page_number p = frame_number (fst m)"
    using page_path_low_inj [of "page_number p" "frame_number (fst m)"] heap_page_low [OF assms(3)] assms(2,4)
    by (simp add: identity_page_def low_frame_def)
  then have "p = identity_page (fst m)" by (simp add: identity_page_def Page.expand)
  with assms(1,3,4) show False by (auto simp: heap_apart_def)
qed

section \<open>Properties\<close>

text \<open>
  The heap is mapped: when its 125 pages are unmapped and enough frames are free, the loop of
  \<^verbatim>\<open>memory::init\<close> returns, every page of the heap is mapped to a frame that was free, each to
  another one, writable, and the translation of every other page is unchanged.
\<close>

theorem map_heap_maps:
  assumes "pt_wf s T" and "\<forall>p \<in> set heap_pages. mappable s T p" and "500 \<le> card (free_now s)"
  shows "\<exists>s'. map_heap s = Inr (Page 0x4007c, s') \<and> pt_wf s' T \<and> kept s T s'
     \<and> (\<forall>p \<in> set heap_pages. \<exists>f \<in> free_now s. page_map s' T p = Some (f, True))
     \<and> fresh_frames s T heap_pages s'
     \<and> (\<forall>q. p4_index q \<noteq> 511 \<longrightarrow> page_path q \<notin> page_path ` set heap_pages \<longrightarrow> page_map s' T q = page_map s T q)"
  using assms by (rule map_heap_ok)

theorem map_heap_maps_witness:
  "\<exists>s'. map_heap big_vm = Inr (Page 0x4007c, s')
     \<and> (\<forall>p \<in> set heap_pages. \<exists>f \<in> free_now big_vm. page_map s' (Frame 9) p = Some (f, True))"
proof -
  have "mappable big_vm (Frame 9) p" if "p \<in> set heap_pages" for p
  proof -
    have "p4_index p \<noteq> 511" using that low_page_ok(2) by (auto simp: heap_pages_def word_le_nat_alt word_less_nat_alt)
    from example_mappable [OF this] show ?thesis by (simp add: mappable_def big_vm_def)
  qed
  moreover have "500 \<le> card (free_now big_vm)" using big_vm_card by simp
  ultimately show ?thesis using map_heap_maps [OF big_vm_wf] by blast
qed

text \<open>
  Memory after set-up: the two mapping steps of \<^verbatim>\<open>memory::init\<close>, \<^verbatim>\<open>paging::init\<close> and the heap loop,
  run one after the other on the boot tables and return; the processor then uses the new table, in
  which the kernel's sections, the text buffer and the multiboot data are mapped to themselves, the
  guard page is not mapped, and the heap's pages are mapped writable to frames that were free and
  are all different.
\<close>

theorem memory_mapped_at_boot:
  assumes "boot_ready bi secs s" and "heap_apart (boot_maps secs bi)" and "4 * length (boot_maps secs bi) + 507 \<le> card (free_now s)"
  shows "\<exists>s1 s' T. paging_init bi s = Inr s1 \<and> map_heap s1 = Inr (Page 0x4007c, s') \<and> cr3_frame s' = T \<and> pt_wf s' T
     \<and> (\<forall>(f, fl) \<in> set (boot_maps secs bi). f \<noteq> cr3_frame s \<longrightarrow> page_map s' T (identity_page f) = Some (f, bit fl 1))
     \<and> page_map s' T (identity_page (cr3_frame s)) = None
     \<and> (\<forall>p \<in> set heap_pages. \<exists>f. page_map s' T p = Some (f, True)) \<and> fresh_frames s1 T heap_pages s'"
proof -
  let ?ms = "boot_maps secs bi" and ?r = "cr3_frame s"
  have low: "\<forall>m \<in> set ?ms. low_frame (fst m)" and "?r \<in> fst ` set ?ms"
    using assms(1) by (simp_all add: boot_ready_def boot_ok_def)
  then obtain fl where r: "(?r, fl) \<in> set ?ms" by auto
  note apart = heap_apart_path [OF assms(2) low]
  obtain s1 T where s1: "paging_init bi s = Inr s1" "cr3_frame s1 = T" "pt_wf s1 T"
      "\<forall>(f, fl) \<in> set ?ms. f \<noteq> ?r \<longrightarrow> page_map s1 T (identity_page f) = Some (f, bit fl 1)"
      "page_map s1 T (identity_page ?r) = None"
      "\<forall>q. p4_index q \<noteq> 511 \<longrightarrow> page_path q \<notin> (\<lambda>(f, _). page_path (identity_page f)) ` set ?ms \<longrightarrow> mappable s1 T q"
      "card (free_now s) \<le> card (free_now s1) + 4 * length ?ms + 7"
    using paging_init_ok [OF assms(1)] by blast
  have "\<forall>p \<in> set heap_pages. mappable s1 T p" using s1(6) heap_page_low apart by fastforce
  moreover have "500 \<le> card (free_now s1)" using s1(7) assms(3) by simp
  ultimately obtain s' where s': "map_heap s1 = Inr (Page 0x4007c, s')" "pt_wf s' T" "kept s1 T s'"
      "\<forall>p \<in> set heap_pages. \<exists>f \<in> free_now s1. page_map s' T p = Some (f, True)" "fresh_frames s1 T heap_pages s'"
      "\<forall>q. p4_index q \<noteq> 511 \<longrightarrow> page_path q \<notin> page_path ` set heap_pages \<longrightarrow> page_map s' T q = page_map s1 T q"
    using map_heap_ok [OF s1(3)] by blast
  have same: "page_map s' T (identity_page f) = page_map s1 T (identity_page f)" if "(f, g) \<in> set ?ms" for f g
  proof -
    have "p4_index (identity_page f) \<noteq> 511" using low that low_page_ok(2) by (auto simp: low_frame_def identity_page_def)
    moreover have "page_path (identity_page f) \<notin> page_path ` set heap_pages" using apart [OF _ that] by (metis fst_conv imageE)
    ultimately show ?thesis using s'(6) by simp
  qed
  have "\<forall>(f, fl) \<in> set ?ms. f \<noteq> ?r \<longrightarrow> page_map s' T (identity_page f) = Some (f, bit fl 1)" using s1(4) same by auto
  moreover have "page_map s' T (identity_page ?r) = None" using s1(5) same [OF r] by simp
  moreover have "cr3_frame s' = T" using s'(3) s1(2) kept_cr3 by metis
  ultimately show ?thesis using s1(1) s'(1,2,4,5) by blast
qed

theorem memory_mapped_at_boot_witness:
  "\<exists>s1 s'. paging_init big_boot big_vm = Inr s1 \<and> map_heap s1 = Inr (Page 0x4007c, s')
     \<and> page_map s' (cr3_frame s') (Page 0xb8) = Some (Frame 0xb8, True) \<and> page_map s' (cr3_frame s') (Page 9) = None"
proof -
  have c: "cr3_frame big_vm = Frame 9" by (simp add: cr3_frame_def big_vm_def example_vm_def)
  have "heap_apart (boot_maps [big_section] big_boot)"
    by (simp add: heap_apart_def big_maps heap_pages_def identity_page_def image_iff)
  moreover have "4 * length (boot_maps [big_section] big_boot) + 507 \<le> card (free_now big_vm)"
    using big_vm_card by (simp add: big_maps)
  ultimately obtain s1 s' where "paging_init big_boot big_vm = Inr s1" "map_heap s1 = Inr (Page 0x4007c, s')"
    "\<forall>(f, fl) \<in> set (boot_maps [big_section] big_boot). f \<noteq> cr3_frame big_vm \<longrightarrow>
       page_map s' (cr3_frame s') (identity_page f) = Some (f, bit fl 1)"
    "page_map s' (cr3_frame s') (identity_page (cr3_frame big_vm)) = None"
    using memory_mapped_at_boot [OF big_boot_ready] by blast
  then show ?thesis by (auto simp: big_maps c identity_page_def bit_flag_consts)
qed

text \<open>
  C27. The timer preempts on every eleventh tick: from a fresh counter, with the serial port ready,
  ten ticks only report themselves and count and leave the scheduler and the registers alone; the
  eleventh calls \<^verbatim>\<open>resched\<close>, resets the counter and returns with interrupts on.
\<close>

theorem timer_preempts_every_eleventh_tick:
  assumes "apic_ready k" and "PIT_TICKS k = 0" and "n \<le> 10"
    and "resched (SCHEDULER k) (cpu k) = Inr (sch, c)" and "serial_ready hw COM1"
  shows "\<exists>k1 k'. timer_ticks hw n k = Inr k1 \<and> SCHEDULER k1 = SCHEDULER k \<and> cpu k1 = cpu k \<and> PIT_TICKS k1 = of_nat n
     \<and> logged (replicate n ''timer interrupt.'') k (k1\<lparr>PIT_TICKS := 0\<rparr>)
     \<and> timer_ticks hw 11 k = Inr k' \<and> SCHEDULER k' = sch \<and> cpu k' = c \<and> PIT_TICKS k' = 0 \<and> interrupts_on b (trace k')"
proof -
  obtain k1 where k1: "timer_ticks hw n k = Inr k1" "ticked n k k1"
    using timer_ticks_early [OF assms(1) _ assms(5), of n] assms(2,3) by auto
  obtain k10 where k10: "timer_ticks hw 10 k = Inr k10" "ticked 10 k k10"
    using timer_ticks_early [OF assms(1) _ assms(5), of 10] assms(2) by auto
  have "PIT_TICKS k10 = 10" "apic_ready k10" "resched (SCHEDULER k10) (cpu k10) = Inr (sch, c)"
    using k10(2) ticked_same [OF k10(2)] assms(1,2,4) by (simp_all add: ticked_def apic_ready_def)
  then obtain k' where "timer_handler hw k10 = Inr ((), k')" "SCHEDULER k' = sch" "cpu k' = c" "PIT_TICKS k' = 0"
    "interrupts_on b (trace k')"
    using timer_switch [OF _ _ _ assms(5), of k10 sch c b] by auto
  moreover from this have "timer_ticks hw 11 k = Inr k'" using timer_ticks_append [of hw 10 1 k] k10(1) by simp
  ultimately show ?thesis
    using k1 ticked_same [OF k1(2)] assms(2) by (intro exI [of _ k1] exI [of _ k']) (simp add: ticked_def)
qed

definition example_kernel :: kernel where
  "example_kernel = \<lparr>trace = [], SCHEDULER = example_sched, cpu = load_context context_new, PIT_TICKS = 0,
     apic_manager = Some (apic_manager_new\<lparr>lapic_base := 0xfee00000\<rparr>)\<rparr>"

theorem timer_preempts_every_eleventh_tick_witness:
  "\<exists>k1 k'. timer_ticks (\<lambda>tr p. 0x20) 10 example_kernel = Inr k1 \<and> PIT_TICKS k1 = 10
     \<and> timer_ticks (\<lambda>tr p. 0x20) 11 example_kernel = Inr k' \<and> get_id (SCHEDULER k') = ProcessId 1"
proof -
  obtain s' c' where r: "resched example_sched (load_context context_new) = Inr (s', c')" "get_id s' = ProcessId 1"
    using resched_switch [OF example_sched_wf example_sched_running example_ready, of "load_context context_new"] by blast
  have k: "apic_ready example_kernel" "PIT_TICKS example_kernel = 0"
    "resched (SCHEDULER example_kernel) (cpu example_kernel) = Inr (s', c')"
    using r(1) by (simp_all add: apic_ready_def example_kernel_def apic_manager_new_def)
  show ?thesis
    using timer_preempts_every_eleventh_tick [OF k(1,2) _ k(3) example_serial_ready, of 10 True] r(2) by auto
qed

text \<open>
  C26. The system call that creates a process. With the memory it asks the heap for and an unused id from the table's search
  position on, it returns the id of a process that did not exist and puts that process at the end of the ready list, the
  scheduler's invariant is kept and interrupts are on. With the memory but with no unused id from that position on (there may
  be some below it) it panics; when the heap refuses it memory, it panics with the allocator's message.
\<close>

theorem sys_create_readies_process:
  assumes "sched_wf (SCHEDULER k)" and "unat (stack_ptr env) + 8168 < 2 ^ 64"
  shows "if \<not> create_served env (SCHEDULER k) \<or> room_left (SCHEDULER k) \<and> \<not> heap_gives env ReadyList
     then sys_create hw env new nm k = Inl (Panic ''Out of memory'')
     else if room_left (SCHEDULER k)
     then \<exists>p k'. sys_create hw env new nm k = Inr (p, k') \<and> sched_wf (SCHEDULER k')
       \<and> proc_of (SCHEDULER k) p = None \<and> proc_of (SCHEDULER k') p = Some (new_process env new nm p)
       \<and> cycle (SCHEDULER k') = cycle (SCHEDULER k) @ [p] \<and> interrupts_on b (trace k')
     else sys_create hw env new nm k = Inl (Panic ''Could not create new process!'')"
proof -
  have tw: "table_wf (task_table (SCHEDULER k))" using assms(1) by (simp add: sched_wf_def)
  obtain v es where call: "sys_create hw env new nm k = rbind (sys_create_body env new nm (k\<lparr>trace := trace k @ es\<rparr>))
      (\<lambda>(r, k). Inr (r, restore_interrupts v k))"
    using sys_create_runs [of hw env new nm k] by blast
  show ?thesis
  proof (cases "create_served env (SCHEDULER k)")
    case False
    with create_refused [OF tw assms(2)] show ?thesis by (simp add: call sys_create_body_def)
  next
    case True
    obtain r s' where c: "create env new nm (SCHEDULER k) = Inr (r, s')"
      and room: "case r of Inr _ \<Rightarrow> room_left (SCHEDULER k) | Inl _ \<Rightarrow> \<not> room_left (SCHEDULER k)"
      using create_ok [OF tw assms(2) True, of new nm] by blast
    show ?thesis
    proof (cases r)
      case (Inl e)
      then show ?thesis using c room True by (simp add: call sys_create_body_def)
    next
      case (Inr i)
      have new: "proc_of s' i = Some (new_process env new nm i)" and fresh: "proc_of (SCHEDULER k) i = None"
        using create_result(4) [OF tw c] Inr by simp_all
      note cw = create_wf [OF assms(1) c]
      have "i \<notin> set (cycle s')" using cw(2) fresh assms(1) by (auto simp: sched_wf_def)
      note rw = ready_wf [OF cw(1) _ this]
      have "ready True i s' = Inr (s'\<lparr>ready_list := ready_list s' @ [i]\<rparr>)" by (simp add: ready_def)
      with rw [OF _ this] new fresh cw(2) c Inr room True show ?thesis
        by (cases "heap_gives env ReadyList") (auto simp: call sys_create_body_def ready_def restored_on)
    qed
  qed
qed

theorem sys_create_readies_process_witness:
  "\<exists>p k'. sys_create (\<lambda>tr p. 0) example_env 0x102000 ''b'' example_kernel = Inr (p, k') \<and> sched_wf (SCHEDULER k')
     \<and> cycle (SCHEDULER k') = [ProcessId 0, ProcessId 1, p] \<and> interrupts_on False (trace k')"
proof -
  have "sched_wf (SCHEDULER example_kernel)" using example_sched_wf by (simp add: example_kernel_def)
  moreover have "cycle (SCHEDULER example_kernel) = [ProcessId 0, ProcessId 1]"
    by (simp add: example_kernel_def cycle_def example_ready example_current)
  moreover have "room_left (SCHEDULER example_kernel)" using example_room by (simp add: example_kernel_def)
  ultimately show ?thesis
    using sys_create_readies_process [of example_kernel example_env "\<lambda>tr p. 0" "0x102000" "''b''" False]
    by (auto simp: example_env_def create_served_def)
qed

end
