(* ===== verification/Vga.thy ===== *)
theory Vga
  imports Devices
begin

text \<open>
  The text console: \<^verbatim>\<open>device/vga/vga.rs\<close> and \<^verbatim>\<open>device/vga/buffer.rs\<close>. The cells of the text mode
  memory at \<^verbatim>\<open>0xb8000\<close> are the field \<open>frame\<close> of the record \<open>vga\<close>; the cursor is moved through the
  ports. Indices and the column are natural numbers: the column is compared with the width before
  it is incremented and with 0 before it is decremented, so neither overflows. An access outside
  an array panics.

  The abstract console is a list of finished lines and the line being typed. \<open>write_byte\<close> and
  \<open>write_str\<close> refine it: the buffer always shows the last 25 lines of that text.
\<close>

section \<open>Colours and cells\<close>

datatype Color =
    Black | Blue | Green | Cyan | Red | Magenta | Brown | LightGray
  | DarkGray | LightBlue | LightGreen | LightCyan | LightRed | Pink | Yellow | White

fun color_number :: "Color \<Rightarrow> u8" where
  "color_number Black = 0"
| "color_number Blue = 1"
| "color_number Green = 2"
| "color_number Cyan = 3"
| "color_number Red = 4"
| "color_number Magenta = 5"
| "color_number Brown = 6"
| "color_number LightGray = 7"
| "color_number DarkGray = 8"
| "color_number LightBlue = 9"
| "color_number LightGreen = 10"
| "color_number LightCyan = 11"
| "color_number LightRed = 12"
| "color_number Pink = 13"
| "color_number Yellow = 14"
| "color_number White = 15"

datatype ColorCode = ColorCode u8

definition color_code_new :: "Color \<Rightarrow> Color \<Rightarrow> ColorCode" where
  "color_code_new foreground background =
     ColorCode (push_bit 4 (color_number background) OR color_number foreground)"

record ScreenChar =
  ascii_character :: u8
  char_color :: ColorCode

record vga = io +
  frame :: "ScreenChar list list"

section \<open>Text buffers\<close>

definition BUFFER_WIDTH :: nat where "BUFFER_WIDTH = 80"
definition BUFFER_HEIGHT :: nat where "BUFFER_HEIGHT = 25"

record TextBuffer =
  chars :: "u8 list list"
  column_position :: nat
  color_code :: ColorCode
  active :: bool

text \<open>\<^verbatim>\<open>a[row][col]\<close> and \<^verbatim>\<open>a[row][col] = v\<close>.\<close>

definition cell :: "'c list list \<Rightarrow> nat \<Rightarrow> nat \<Rightarrow> 'c res" where
  "cell a row col = rbind (rnth a row) (\<lambda>r. rnth r col)"

definition set_cell :: "nat \<Rightarrow> nat \<Rightarrow> 'c \<Rightarrow> 'c list list \<Rightarrow> 'c list list res" where
  "set_cell row col v a = rbind (rnth a row) (\<lambda>r. rbind (rupdate r col v) (rupdate a row))"

definition sync_buffer :: "TextBuffer \<Rightarrow> 'a vga_scheme \<Rightarrow> 'a vga_scheme res" where
  "sync_buffer buffer s =
     rbind (rfold (\<lambda>row. rfold (\<lambda>col fr.
         rbind (cell (chars buffer) row col) (\<lambda>c.
         let character = \<lparr>ascii_character = c, char_color = color_code buffer\<rparr> in
         set_cell row col character fr)) [0 ..< BUFFER_WIDTH]) [0 ..< BUFFER_HEIGHT] (frame s)) (\<lambda>fr.
     Inr (s\<lparr>frame := fr\<rparr>))"

definition update_cursor :: "nat \<Rightarrow> nat \<Rightarrow> 'a io_scheme \<Rightarrow> 'a io_scheme res" where
  "update_cursor row col s =
     rbind (checked_mul (of_nat BUFFER_WIDTH) (of_nat row)) (\<lambda>o1.
     rbind (checked_add o1 (of_nat col)) (\<lambda>pos :: u16.
     let control_port = Port 0x3D4; value_port = Port 0x3D5;
         s = port8_write control_port 0x0F s;
         s = port8_write value_port (ucast (pos AND 0xFF)) s;
         s = port8_write control_port 0x0E s;
         s = port8_write value_port (ucast (drop_bit 8 pos AND 0xFF)) s in
     Inr s))"

definition sync :: "TextBuffer \<Rightarrow> 'a vga_scheme \<Rightarrow> 'a vga_scheme res" where
  "sync self s = rbind (sync_buffer self s) (update_cursor (BUFFER_HEIGHT - 1) (column_position self))"

definition sync_if_active :: "TextBuffer \<Rightarrow> 'a vga_scheme \<Rightarrow> (TextBuffer \<times> 'a vga_scheme) res" where
  "sync_if_active self s = (if active self then rbind (sync self s) (\<lambda>s. Inr (self, s)) else Inr (self, s))"

definition clear_row :: "nat \<Rightarrow> TextBuffer \<Rightarrow> TextBuffer res" where
  "clear_row row self =
     rbind (rfold (\<lambda>col. set_cell row col 0x20) [0 ..< BUFFER_WIDTH] (chars self)) (\<lambda>cs.
     Inr (self\<lparr>chars := cs\<rparr>))"

definition new_line :: "TextBuffer \<Rightarrow> 'a vga_scheme \<Rightarrow> (TextBuffer \<times> 'a vga_scheme) res" where
  "new_line self s =
     rbind (rfold (\<lambda>row. rfold (\<lambda>col cs.
         rbind (cell cs row col) (\<lambda>c. set_cell (row - 1) col c cs)) [0 ..< BUFFER_WIDTH])
       [1 ..< BUFFER_HEIGHT] (chars self)) (\<lambda>cs.
     rbind (clear_row (BUFFER_HEIGHT - 1) (self\<lparr>chars := cs\<rparr>)) (\<lambda>self.
     let self = self\<lparr>column_position := 0\<rparr> in
     sync_if_active self s))"

definition delete_byte :: "TextBuffer \<Rightarrow> 'a vga_scheme \<Rightarrow> (TextBuffer \<times> 'a vga_scheme) res" where
  "delete_byte self s =
     (if column_position self = 0 then Inr (self, s)
      else
        let col = column_position self - 1 in
        rbind (set_cell (BUFFER_HEIGHT - 1) col 0x20 (chars self)) (\<lambda>cs.
        let self = self\<lparr>chars := cs, column_position := column_position self - 1\<rparr> in
        sync_if_active self s))"

text \<open>The catch-all branch of \<^verbatim>\<open>write_byte\<close>.\<close>

definition put_byte :: "u8 \<Rightarrow> TextBuffer \<Rightarrow> 'a vga_scheme \<Rightarrow> (TextBuffer \<times> 'a vga_scheme) res" where
  "put_byte byte self s =
     rbind (if column_position self \<ge> BUFFER_WIDTH then new_line self s else Inr (self, s)) (\<lambda>(self, s).
     let row = BUFFER_HEIGHT - 1; col = column_position self in
     rbind (set_cell row col byte (chars self)) (\<lambda>cs.
     Inr (self\<lparr>chars := cs, column_position := column_position self + 1\<rparr>, s)))"

text \<open>
  \<^verbatim>\<open>write_byte\<close> calls itself only for a tab, with a blank each time, which takes the catch-all branch.
\<close>

definition write_blank :: "TextBuffer \<Rightarrow> 'a vga_scheme \<Rightarrow> (TextBuffer \<times> 'a vga_scheme) res" where
  "write_blank self s = rbind (put_byte 0x20 self s) (\<lambda>(self, s). sync_if_active self s)"

definition write_byte :: "u8 \<Rightarrow> TextBuffer \<Rightarrow> 'a vga_scheme \<Rightarrow> (TextBuffer \<times> 'a vga_scheme) res" where
  "write_byte byte self s =
     rbind
       (if byte = 0x0A then new_line self s
        else if byte = 0x8 then delete_byte self s
        else if byte = 0x09 then rfold (\<lambda>_ (self, s). write_blank self s) [0 ..< (4 :: nat)] (self, s)
        else put_byte byte self s)
       (\<lambda>(self, s). sync_if_active self s)"

definition write_str :: "u8 list \<Rightarrow> TextBuffer \<Rightarrow> 'a vga_scheme \<Rightarrow> (TextBuffer \<times> 'a vga_scheme) res" where
  "write_str bytes self s = rfold (\<lambda>byte (self, s). write_byte byte self s) bytes (self, s)"

section \<open>The screen and the terminals\<close>

record console = vga +
  SCREEN :: TextBuffer
  TTYS :: "TextBuffer list option"

definition screen_start :: TextBuffer where
  "screen_start = \<lparr>chars = replicate BUFFER_HEIGHT (replicate BUFFER_WIDTH 0x20), column_position = 0,
     color_code = color_code_new LightGray Black, active = True\<rparr>"

definition print_bytes :: "u8 list \<Rightarrow> 'a console_scheme \<Rightarrow> 'a console_scheme res" where
  "print_bytes bytes s = rbind (write_str bytes (SCREEN s) s) (\<lambda>(b, s). Inr (s\<lparr>SCREEN := b\<rparr>))"

definition clear_screen :: "'a console_scheme \<Rightarrow> 'a console_scheme res" where
  "clear_screen s =
     rfold (\<lambda>_ s. rbind (new_line (SCREEN s) s) (\<lambda>(b, s). Inr (s\<lparr>SCREEN := b\<rparr>))) [0 ..< BUFFER_HEIGHT] s"

definition tty_init :: "'a console_scheme \<Rightarrow> 'a console_scheme" where
  "tty_init s =
     (let buffers = replicate 6 \<lparr>chars = replicate BUFFER_HEIGHT (replicate BUFFER_WIDTH 0x20), column_position = 0,
            color_code = color_code_new LightGray Black, active = False\<rparr>
      in s\<lparr>TTYS := Some buffers\<rparr>)"

text \<open>\<^verbatim>\<open>*TTYS.lock()\<close> copies the array of terminals: \<open>switch\<close> works on the copy.\<close>

definition switch :: "nat \<Rightarrow> 'a console_scheme \<Rightarrow> 'a console_scheme res" where
  "switch index s =
     (case TTYS s of
        None \<Rightarrow> Inl (Panic ''TTY list called before init.'')
      | Some list \<Rightarrow>
          rbind (rnth list index) (\<lambda>t.
          rbind (rupdate list index (t\<lparr>active := True\<rparr>)) (\<lambda>list.
          rbind (rnth list index) (\<lambda>t.
          Inr (s\<lparr>SCREEN := t\<rparr>)))))"

section \<open>Loops over the arrays\<close>

definition rectangle :: "'c list list \<Rightarrow> bool" where
  "rectangle a \<longleftrightarrow> length a = BUFFER_HEIGHT \<and> (\<forall>r \<in> set a. length r = BUFFER_WIDTH)"

lemmas dims = BUFFER_WIDTH_def BUFFER_HEIGHT_def

lemma set_cell_ok:
  assumes "row < length a" and "col < length (a ! row)"
  shows "set_cell row col v a = Inr (a[row := (a ! row)[col := v]])"
  using assms by (simp add: set_cell_def rnth_def rupdate_def)

lemma cell_ok: "row < length a \<Longrightarrow> col < length (a ! row) \<Longrightarrow> cell a row col = Inr (a ! row ! col)"
  by (simp add: cell_def rnth_def)

text \<open>A row written cell by cell, with values that do not depend on the array being written.\<close>

lemma fill_row:
  assumes "row < length a" and "k \<le> length (a ! row)"
    and "\<And>col cs. col < k \<Longrightarrow> f col cs = set_cell row col (g col) cs"
  shows "rfold f [0 ..< k] a = Inr (a[row := map g [0 ..< k] @ drop k (a ! row)])"
  using assms(2,3)
proof (induction k)
  case (Suc k)
  then have ih: "rfold f [0 ..< k] a = Inr (a[row := map g [0 ..< k] @ drop k (a ! row)])" by simp
  have d: "drop k (a ! row) = a ! row ! k # drop (Suc k) (a ! row)"
    using Suc.prems(1) by (simp add: Cons_nth_drop_Suc)
  have "(map g [0 ..< k] @ drop k (a ! row))[k := g k] = map g [0 ..< Suc k] @ drop (Suc k) (a ! row)"
    by (simp add: d list_update_append)
  moreover have "f k (a[row := map g [0 ..< k] @ drop k (a ! row)])
      = Inr (a[row := (map g [0 ..< k] @ drop k (a ! row))[k := g k]])"
    using Suc.prems assms(1) by (simp add: set_cell_ok)
  ultimately show ?case by (simp add: rfold_snoc ih)
qed simp

lemma copy_row:
  assumes "row < length a" and "row' < length a" and "row \<noteq> row'" and "length (a ! row) = length (a ! row')"
    and "k \<le> length (a ! row)"
  shows "rfold (\<lambda>col cs. rbind (cell cs row col) (\<lambda>c. set_cell row' col c cs)) [0 ..< k] a
     = Inr (a[row' := take k (a ! row) @ drop k (a ! row')])"
  using assms(5)
proof (induction k)
  case (Suc k)
  let ?f = "\<lambda>col cs. rbind (cell cs row col) (\<lambda>c. set_cell row' col c cs)"
  let ?b = "a[row' := take k (a ! row) @ drop k (a ! row')]"
  have ih: "rfold ?f [0 ..< k] a = Inr ?b" using Suc by simp
  have "drop k (a ! row') = a ! row' ! k # drop (Suc k) (a ! row')"
    using Suc.prems assms(4) by (simp add: Cons_nth_drop_Suc)
  then have "(take k (a ! row) @ drop k (a ! row'))[k := a ! row ! k] = take (Suc k) (a ! row) @ drop (Suc k) (a ! row')"
    using Suc.prems assms(4) by (simp add: list_update_append take_Suc_conv_app_nth)
  moreover have "?f k ?b = Inr (a[row' := (take k (a ! row) @ drop k (a ! row'))[k := a ! row ! k]])"
    using assms Suc.prems by (simp add: cell_ok set_cell_ok)
  ultimately show ?case by (simp add: rfold_snoc ih)
qed simp

lemma shift_rows:
  assumes "rectangle a" and "k < length a"
  shows "rfold (\<lambda>row. rfold (\<lambda>col cs. rbind (cell cs row col) (\<lambda>c. set_cell (row - 1) col c cs)) [0 ..< BUFFER_WIDTH])
     [1 ..< Suc k] a = Inr (take k (tl a) @ drop k a)"
  using assms(2)
proof (induction k)
  case (Suc k)
  let ?f = "\<lambda>row. rfold (\<lambda>col cs. rbind (cell cs row col) (\<lambda>c. set_cell (row - 1) col c cs)) [0 ..< BUFFER_WIDTH]"
  let ?b = "take k (tl a) @ drop k a"
  have ih: "rfold ?f [1 ..< Suc k] a = Inr ?b" using Suc by simp
  have l: "length ?b = length a" "min (length (tl a)) k = k" using Suc.prems by auto
  have n: "?b ! Suc k = a ! Suc k" "?b ! k = a ! k" using Suc.prems l(2) by (simp_all add: nth_append)
  have w: "length (a ! k) = BUFFER_WIDTH" "length (a ! Suc k) = BUFFER_WIDTH"
    using assms(1) Suc.prems by (simp_all add: rectangle_def)
  have "drop k a = a ! k # drop (Suc k) a" using Suc.prems by (simp add: Cons_nth_drop_Suc)
  moreover have "a ! Suc k = tl a ! k" using Suc.prems by (simp add: nth_tl)
  ultimately have u: "?b[k := a ! Suc k] = take (Suc k) (tl a) @ drop (Suc k) a"
    using l(2) Suc.prems by (simp add: list_update_append take_Suc_conv_app_nth)
  have st: "?f (Suc k) ?b = Inr (?b[k := a ! Suc k])"
    using copy_row [of "Suc k" ?b k BUFFER_WIDTH] Suc.prems l w n by simp
  have up: "[1 ..< Suc (Suc k)] = [1 ..< Suc k] @ [Suc k]" by simp
  show ?case unfolding up rfold_snoc ih rbind_Inr st u ..
qed simp

lemma clear_row_ok:
  assumes "rectangle (chars b)" and "row < BUFFER_HEIGHT"
  shows "clear_row row b = Inr (b\<lparr>chars := (chars b)[row := replicate BUFFER_WIDTH 0x20]\<rparr>)"
proof -
  have "rfold (\<lambda>col. set_cell row col 0x20) [0 ..< BUFFER_WIDTH] (chars b)
      = Inr ((chars b)[row := map (\<lambda>_. 0x20) [0 ..< BUFFER_WIDTH] @ drop BUFFER_WIDTH (chars b ! row)])"
    using assms by (intro fill_row) (auto simp: rectangle_def)
  then show ?thesis using assms by (simp add: clear_row_def rectangle_def map_replicate_const)
qed

section \<open>What the screen shows\<close>

definition picture :: "TextBuffer \<Rightarrow> ScreenChar list list" where
  "picture b = map (map (\<lambda>c. \<lparr>ascii_character = c, char_color = color_code b\<rparr>)) (chars b)"

definition cursor_writes :: "nat \<Rightarrow> io_event list" where
  "cursor_writes col =
     (let pos = (of_nat (80 * 24 + col) :: u16) in
      [Out8 0x3D4 0x0F, Out8 0x3D5 (ucast (pos AND 0xFF)), Out8 0x3D4 0x0E, Out8 0x3D5 (ucast (drop_bit 8 pos AND 0xFF))])"

lemma sync_buffer_ok:
  assumes "rectangle (chars b)" and "rectangle (frame s)"
  shows "sync_buffer b s = Inr (s\<lparr>frame := picture b\<rparr>)"
proof -
  let ?mk = "\<lambda>c. \<lparr>ascii_character = c, char_color = color_code b\<rparr>"
  let ?f = "\<lambda>row. rfold (\<lambda>col fr. rbind (cell (chars b) row col) (\<lambda>c.
         let character = ?mk c in set_cell row col character fr)) [0 ..< BUFFER_WIDTH]"
  have "rfold ?f [0 ..< k] (frame s) = Inr (map (map ?mk) (take k (chars b)) @ drop k (frame s))"
    if "k \<le> BUFFER_HEIGHT" for k
    using that
  proof (induction k)
    case (Suc k)
    let ?a = "map (map ?mk) (take k (chars b)) @ drop k (frame s)"
    have lc: "length (chars b) = BUFFER_HEIGHT" "length (chars b ! k) = BUFFER_WIDTH"
      and lf: "length (frame s) = BUFFER_HEIGHT" "length (frame s ! k) = BUFFER_WIDTH"
      using assms Suc.prems by (auto simp: rectangle_def)
    have d: "drop k (frame s) = frame s ! k # drop (Suc k) (frame s)"
      using Suc.prems lf by (simp add: Cons_nth_drop_Suc)
    have ak: "?a ! k = frame s ! k" and al: "k < length ?a" using Suc.prems lc lf by (simp_all add: d nth_append)
    have "?f k ?a = Inr (?a[k := map (\<lambda>col. ?mk (chars b ! k ! col)) [0 ..< BUFFER_WIDTH] @ drop BUFFER_WIDTH (?a ! k)])"
    proof (rule fill_row [OF al])
      show "BUFFER_WIDTH \<le> length (?a ! k)" using ak lf(2) by simp
      show "rbind (cell (chars b) k col) (\<lambda>c. let character = ?mk c in set_cell k col character fr)
          = set_cell k col (?mk (chars b ! k ! col)) fr" if "col < BUFFER_WIDTH" for col fr
        using that lc Suc.prems by (simp add: cell_ok)
    qed
    also have "map (\<lambda>col. ?mk (chars b ! k ! col)) [0 ..< BUFFER_WIDTH] @ drop BUFFER_WIDTH (?a ! k) = map ?mk (chars b ! k)"
      using ak lf(2) lc(2) by (simp add: list_eq_iff_nth_eq)
    also have "?a[k := map ?mk (chars b ! k)] = map (map ?mk) (take (Suc k) (chars b)) @ drop (Suc k) (frame s)"
      using Suc.prems lc by (simp add: d list_update_append take_Suc_conv_app_nth)
    finally show ?case using Suc by (simp add: rfold_snoc)
  qed simp
  from this [of BUFFER_HEIGHT] show ?thesis
    using assms by (simp add: sync_buffer_def picture_def rectangle_def)
qed

lemma update_cursor_ok:
  assumes "col \<le> BUFFER_WIDTH"
  shows "update_cursor (BUFFER_HEIGHT - 1) col s = Inr (s\<lparr>trace := trace s @ cursor_writes col\<rparr>)"
proof -
  have "unat (of_nat col :: u16) = col" using assms by (simp add: dims unat_of_nat)
  then show ?thesis
    using assms by (simp add: update_cursor_def dims checked_mul_def checked_add_def cursor_writes_def port_defs emit_def Let_def)
qed

lemma sync_ok:
  assumes "rectangle (chars b)" and "rectangle (frame s)" and "column_position b \<le> BUFFER_WIDTH"
  shows "sync b s = Inr (s\<lparr>frame := picture b, trace := trace s @ cursor_writes (column_position b)\<rparr>)"
  using assms by (simp add: sync_def sync_buffer_ok update_cursor_ok del: One_nat_def)

section \<open>The abstract console\<close>

text \<open>The lines that are finished, the latest first, and the line being written.\<close>

record text_state =
  history :: "u8 list list"
  current :: "u8 list"

definition text_newline :: "text_state \<Rightarrow> text_state" where
  "text_newline t = \<lparr>history = current t # history t, current = []\<rparr>"

definition text_put :: "u8 \<Rightarrow> text_state \<Rightarrow> text_state" where
  "text_put c t =
     (let t = (if length (current t) \<ge> 80 then text_newline t else t) in t\<lparr>current := current t @ [c]\<rparr>)"

definition text_write :: "u8 \<Rightarrow> text_state \<Rightarrow> text_state" where
  "text_write c t =
     (if c = 0x0A then text_newline t
      else if c = 0x08 then t\<lparr>current := butlast (current t)\<rparr>
      else if c = 0x09 then (text_put 0x20 ^^ 4) t
      else text_put c t)"

definition pad :: "u8 list \<Rightarrow> u8 list" where
  "pad l = l @ replicate (80 - length l) 0x20"

definition shown :: "text_state \<Rightarrow> u8 list list" where
  "shown t = rev (take 25 (map pad (current t # history t @ replicate 25 [])))"

definition shows_text :: "TextBuffer \<Rightarrow> text_state \<Rightarrow> bool" where
  "shows_text b t \<longleftrightarrow> chars b = shown t \<and> column_position b = length (current t)
     \<and> (\<forall>l \<in> set (current t # history t). length l \<le> 80)"

text \<open>A buffer that is displayed: the cells of the screen and the position of the cursor.\<close>

definition displayed :: "TextBuffer \<Rightarrow> 'a vga_scheme \<Rightarrow> bool" where
  "displayed b s \<longleftrightarrow> frame s = picture b \<and> (\<exists>es. trace s = es @ cursor_writes (column_position b))"

text \<open>The outcome of an operation on a buffer that shows \<open>t\<close>.\<close>

definition outcome :: "TextBuffer \<Rightarrow> 'a vga_scheme \<Rightarrow> text_state \<Rightarrow> (TextBuffer \<times> 'a vga_scheme) res \<Rightarrow> bool" where
  "outcome b s t r \<longleftrightarrow> (\<exists>b' s'. r = Inr (b', s') \<and> shows_text b' t \<and> rectangle (frame s')
     \<and> active b' = active b \<and> color_code b' = color_code b \<and> vga.more s' = vga.more s \<and> (\<not> active b \<longrightarrow> s' = s))"

lemma pad_length [simp]: "length l \<le> 80 \<Longrightarrow> length (pad l) = 80"
  by (simp add: pad_def)

lemma tl_rev: "tl (rev xs) = rev (butlast xs)"
  by (cases xs rule: rev_cases) auto

definition above :: "u8 list list \<Rightarrow> u8 list list" where
  "above ls = rev (take 24 (map pad (ls @ replicate 25 [])))"

lemma above_length: "length (above ls) = 24"
  by (simp add: above_def)

lemma shown_eq: "shown t = above (history t) @ [pad (current t)]"
  by (simp add: shown_def above_def take_Cons')

lemma above_Cons: "above (l # ls) = tl (above ls) @ [pad l]"
  by (simp add: above_def tl_rev butlast_take take_Cons' del: map_append)

lemma shown_newline: "shown (text_newline t) = tl (shown t) @ [replicate 80 0x20]"
proof -
  have "above (history t) \<noteq> []" using above_length [of "history t"] by auto
  then show ?thesis by (simp add: shown_eq text_newline_def above_Cons pad_def)
qed

lemma shown_rectangle: "\<forall>l \<in> set (current t # history t). length l \<le> 80 \<Longrightarrow> rectangle (shown t)"
  by (auto simp: rectangle_def shown_def dims dest!: in_set_takeD)

section \<open>The buffer refines the abstract console\<close>

lemma picture_rectangle: "rectangle (chars b) \<Longrightarrow> rectangle (picture b)"
  by (auto simp: rectangle_def picture_def)

lemma shows_text_rectangle: "shows_text b t \<Longrightarrow> rectangle (chars b) \<and> column_position b \<le> BUFFER_WIDTH"
  using shown_rectangle [of t] by (simp add: shows_text_def BUFFER_WIDTH_def)

lemma sync_if_active_ok:
  assumes "shows_text b t" and "rectangle (frame s)"
  shows "sync_if_active b s = Inr (b, if active b
     then s\<lparr>frame := picture b, trace := trace s @ cursor_writes (column_position b)\<rparr> else s)"
  using assms shows_text_rectangle [OF assms(1)] by (simp add: sync_if_active_def sync_ok)

lemma sync_outcome:
  assumes "shows_text b' t" and "rectangle (frame s)" and "active b' = active b" and "color_code b' = color_code b"
  shows "outcome b s t (sync_if_active b' s)"
  using assms picture_rectangle shows_text_rectangle [OF assms(1)] by (auto simp: outcome_def sync_if_active_ok)

lemma new_line_outcome:
  assumes "shows_text b t" and "rectangle (frame s)"
  shows "outcome b s (text_newline t) (new_line b s)"
proof -
  let ?cs = "tl (chars b) @ [last (chars b)]"
  have r: "rectangle (chars b)" using shows_text_rectangle [OF assms(1)] by simp
  then have l: "length (chars b) = 25" by (simp add: rectangle_def dims)
  have "drop 24 (chars b) = [last (chars b)]"
    using l by (cases "chars b" rule: rev_cases) auto
  then have sh: "rfold (\<lambda>row. rfold (\<lambda>col cs. rbind (cell cs row col) (\<lambda>c. set_cell (row - 1) col c cs)) [0 ..< BUFFER_WIDTH])
     [1 ..< BUFFER_HEIGHT] (chars b) = Inr ?cs"
    using shift_rows [OF r, of 24] l by (simp add: BUFFER_HEIGHT_def)
  have "last (chars b) \<in> set (chars b)" using l by (intro last_in_set) auto
  with r have rc: "rectangle ?cs" by (auto simp: rectangle_def dims dest: list.set_sel(2) [rotated])
  have "?cs[24 := replicate 80 0x20] = shown (text_newline t)"
    using assms(1) l by (simp add: shows_text_def shown_newline list_update_append)
  then have cl: "clear_row 24 (b\<lparr>chars := ?cs\<rparr>) = Inr (b\<lparr>chars := shown (text_newline t)\<rparr>)"
    using clear_row_ok [of "b\<lparr>chars := ?cs\<rparr>" 24] rc by (simp add: dims)
  have "shows_text (b\<lparr>chars := shown (text_newline t), column_position := 0\<rparr>) (text_newline t)"
    using assms(1) by (simp add: shows_text_def text_newline_def)
  from sync_outcome [OF this assms(2)] show ?thesis
    unfolding new_line_def sh rbind_Inr by (simp add: BUFFER_HEIGHT_def cl)
qed

lemma outcome_bind:
  assumes "outcome b s t r"
    and "\<And>b' s'. \<lbrakk>shows_text b' t; rectangle (frame s'); active b' = active b\<rbrakk> \<Longrightarrow> outcome b' s' t' (f (b', s'))"
  shows "outcome b s t' (rbind r f)"
  using assms(1) assms(2) by (fastforce simp: outcome_def)

lemma outcome_refl: "shows_text b t \<Longrightarrow> rectangle (frame s) \<Longrightarrow> outcome b s t (Inr (b, s))"
  by (simp add: outcome_def)

lemma set_last_row:
  assumes "chars b = shown t" and "col < 80" and "length (current t) \<le> 80"
  shows "set_cell (BUFFER_HEIGHT - 1) col v (chars b) = Inr (above (history t) @ [(pad (current t))[col := v]])"
  using assms above_length [of "history t"]
  by (subst set_cell_ok) (simp_all add: shown_eq dims nth_append list_update_append)

lemma delete_byte_outcome:
  assumes "shows_text b t" and "rectangle (frame s)"
  shows "outcome b s (t\<lparr>current := butlast (current t)\<rparr>) (delete_byte b s)"
proof (cases "current t = []")
  case True
  with assms show ?thesis by (simp add: delete_byte_def shows_text_def outcome_def shown_eq)
next
  case False
  then obtain l c where t: "current t = l @ [c]" by (cases "current t" rule: rev_cases) auto
  have len: "length l < 80" and col: "column_position b = Suc (length l)" and cs: "chars b = shown t"
    using assms(1) t by (auto simp: shows_text_def)
  have "(pad (current t))[length l := 0x20] = pad l"
    using len by (simp add: t pad_def list_update_append Suc_diff_Suc flip: replicate_Suc)
  then have "set_cell (BUFFER_HEIGHT - 1) (length l) 0x20 (chars b) = Inr (shown (t\<lparr>current := l\<rparr>))"
    using set_last_row [OF cs len] len t by (simp add: shown_eq)
  moreover have "shows_text (b\<lparr>chars := shown (t\<lparr>current := l\<rparr>), column_position := length l\<rparr>) (t\<lparr>current := l\<rparr>)"
    using assms(1) t by (simp add: shows_text_def)
  ultimately show ?thesis
    using sync_outcome [OF _ assms(2)] by (simp add: delete_byte_def col t)
qed

lemma put_byte_outcome:
  assumes "shows_text b t" and "rectangle (frame s)"
  shows "outcome b s (text_put c t) (put_byte c b s)"
proof -
  let ?t = "if length (current t) \<ge> 80 then text_newline t else t"
  have "outcome b s ?t (if column_position b \<ge> BUFFER_WIDTH then new_line b s else Inr (b, s))"
    using new_line_outcome [OF assms] outcome_refl [OF assms] assms(1) by (simp add: shows_text_def BUFFER_WIDTH_def)
  moreover have "outcome b' s' (text_put c t)
     ((\<lambda>(b, s). let row = BUFFER_HEIGHT - 1; col = column_position b in
       rbind (set_cell row col c (chars b)) (\<lambda>cs. Inr (b\<lparr>chars := cs, column_position := column_position b + 1\<rparr>, s))) (b', s'))"
    if sh: "shows_text b' ?t" and fr: "rectangle (frame s')" for b' and s' :: "'a vga_scheme"
  proof -
    let ?l = "current ?t"
    have len: "length ?l < 80" by (simp add: text_newline_def)
    have cs: "chars b' = shown ?t" and col: "column_position b' = length ?l" using sh by (simp_all add: shows_text_def)
    have "(pad ?l)[length ?l := c] = pad (?l @ [c])"
      using len by (simp add: pad_def list_update_append Suc_diff_Suc [symmetric] split del: if_split)
    then have "set_cell (BUFFER_HEIGHT - 1) (length ?l) c (chars b') = Inr (shown (text_put c t))"
      using set_last_row [OF cs len] len by (simp add: shown_eq text_put_def Let_def split del: if_split)
    moreover have "shows_text (b'\<lparr>chars := shown (text_put c t), column_position := Suc (length ?l)\<rparr>) (text_put c t)"
      using sh len by (simp add: shows_text_def text_put_def Let_def split del: if_split)
    ultimately show ?thesis using fr by (simp add: outcome_def col split del: if_split)
  qed
  ultimately show ?thesis unfolding put_byte_def by (rule outcome_bind)
qed

lemma write_blank_outcome:
  assumes "shows_text b t" and "rectangle (frame s)"
  shows "outcome b s (text_put 0x20 t) (write_blank b s)"
  unfolding write_blank_def by (rule outcome_bind [OF put_byte_outcome [OF assms]]) (simp add: sync_outcome)

lemma blanks_outcome:
  assumes "shows_text b t" and "rectangle (frame s)"
  shows "outcome b s ((text_put 0x20 ^^ n) t) (rfold (\<lambda>_ (b, s). write_blank b s) [0 ..< n] (b, s))"
proof (induction n)
  case 0
  with assms show ?case by (simp add: outcome_def)
next
  case (Suc n)
  have "outcome b s (text_put 0x20 ((text_put 0x20 ^^ n) t))
      (rbind (rfold (\<lambda>_ (b, s). write_blank b s) [0 ..< n] (b, s)) (\<lambda>(b, s). write_blank b s))"
    by (rule outcome_bind [OF Suc]) (simp add: write_blank_outcome)
  then show ?case by (simp add: rfold_snoc)
qed

lemma write_byte_outcome:
  assumes "shows_text b t" and "rectangle (frame s)"
  shows "outcome b s (text_write c t) (write_byte c b s)"
proof -
  have "outcome b s (text_write c t)
     (if c = 0x0A then new_line b s else if c = 0x8 then delete_byte b s
      else if c = 0x09 then rfold (\<lambda>_ (b, s). write_blank b s) [0 ..< (4 :: nat)] (b, s) else put_byte c b s)"
    using new_line_outcome [OF assms] delete_byte_outcome [OF assms] blanks_outcome [OF assms, of 4]
      put_byte_outcome [OF assms, of c]
    by (simp add: text_write_def del: upt_rec_numeral)
  then show ?thesis unfolding write_byte_def by (rule outcome_bind) (simp add: sync_outcome)
qed

lemma write_byte_displayed:
  assumes "shows_text b t" and "rectangle (frame s)" and "active b" and w: "write_byte c b s = Inr (b', s')"
  shows "displayed b' s'"
proof -
  let ?r = "if c = 0x0A then new_line b s else if c = 0x8 then delete_byte b s
      else if c = 0x09 then rfold (\<lambda>_ (b, s). write_blank b s) [0 ..< (4 :: nat)] (b, s) else put_byte c b s"
  have "outcome b s (text_write c t) ?r"
    using new_line_outcome [OF assms(1,2)] delete_byte_outcome [OF assms(1,2)] blanks_outcome [OF assms(1,2), of 4]
      put_byte_outcome [OF assms(1,2), of c]
    by (simp add: text_write_def del: upt_rec_numeral)
  then obtain b1 s1 where "?r = Inr (b1, s1)" "shows_text b1 (text_write c t)" "rectangle (frame s1)" "active b1"
    using assms(3) by (auto simp: outcome_def simp del: upt_rec_numeral)
  with w show ?thesis
    by (auto simp: write_byte_def sync_if_active_ok displayed_def simp del: upt_rec_numeral)
qed

text \<open>A text buffer as a writer: it stands for the text it shows.\<close>

definition text_view :: "TextBuffer \<Rightarrow> 'a vga_scheme \<Rightarrow> TextBuffer \<times> 'a vga_scheme \<Rightarrow> text_state \<Rightarrow> bool" where
  "text_view b s x t \<longleftrightarrow> outcome b s t (Inr x)"

interpretation text_writer: byte_writer "\<lambda>c (b, s). write_byte c b s" "text_view b s" text_write for b s
proof
  fix x t c
  assume "text_view b s x t"
  then have "outcome b s t (Inr x)" by (simp add: text_view_def)
  then have "outcome b s (text_write c t) (rbind (Inr x) (\<lambda>(b, s). write_byte c b s))"
    by (rule outcome_bind) (simp add: write_byte_outcome)
  then show "\<exists>s'. (case x of (b, s) \<Rightarrow> write_byte c b s) = Inr s' \<and> text_view b s s' (text_write c t)"
    by (auto simp: text_view_def outcome_def)
qed

lemma write_str_outcome:
  assumes "shows_text b t" and "rectangle (frame s)"
  shows "outcome b s (fold text_write bytes t) (write_str bytes b s)"
proof -
  have "text_view b s (b, s) t" using assms by (simp add: text_view_def outcome_refl)
  from text_writer.write_all [OF this, of bytes] show ?thesis by (auto simp: write_str_def text_view_def)
qed

lemma write_str_displayed:
  assumes "shows_text b t" and "rectangle (frame s)" and "active b" and "bytes \<noteq> []"
    and w: "write_str bytes b s = Inr (b', s')"
  shows "displayed b' s'"
proof -
  obtain bs c where bytes: "bytes = bs @ [c]" using assms(4) by (cases bytes rule: rev_cases) auto
  from write_str_outcome [OF assms(1,2), of bs] obtain b1 s1 where
    1: "write_str bs b s = Inr (b1, s1)" "shows_text b1 (fold text_write bs t)" "rectangle (frame s1)" "active b1"
    using assms(3) by (auto simp: outcome_def)
  moreover have "write_byte c b1 s1 = Inr (b', s')" using w 1(1) by (simp add: bytes write_str_def rfold_snoc)
  ultimately show ?thesis using write_byte_displayed by blast
qed

section \<open>The console\<close>

text \<open>A console in order: the screen's buffer shows some text, and the cells form the text mode's rectangle.\<close>

definition console_wf :: "'a console_scheme \<Rightarrow> bool" where
  "console_wf s \<longleftrightarrow> rectangle (frame s) \<and> (\<exists>t. shows_text (SCREEN s) t)"

definition blank_tty :: "bool \<Rightarrow> TextBuffer" where
  "blank_tty a = \<lparr>chars = replicate 25 (replicate 80 0x20), column_position = 0,
     color_code = color_code_new LightGray Black, active = a\<rparr>"

definition ttys_start :: "TextBuffer list" where
  "ttys_start = replicate 6 (blank_tty False)"

lemma replicate_24: "replicate 24 x @ [x] = replicate 25 x"
  by (simp add: replicate_append_same flip: replicate_Suc)

lemma blank_shows: "shows_text (blank_tty a) \<lparr>history = [], current = []\<rparr>"
  by (simp add: shows_text_def blank_tty_def shown_def pad_def replicate_24)

lemma screen_start_blank: "screen_start = blank_tty True"
  by (simp add: screen_start_def blank_tty_def dims)

lemma tty_init_start: "TTYS (tty_init s) = Some ttys_start"
  by (simp add: tty_init_def ttys_start_def blank_tty_def dims)

text \<open>A session: printing and switching terminals, in any order.\<close>

datatype console_op = Print "u8 list" | Switch nat

fun console_step :: "console_op \<Rightarrow> 'a console_scheme \<Rightarrow> 'a console_scheme res" where
  "console_step (Print bytes) s = print_bytes bytes s"
| "console_step (Switch i) s = switch i s"

lemma switch_start:
  assumes "TTYS s = Some ttys_start" and "i < 6"
  shows "switch i s = Inr (s\<lparr>SCREEN := blank_tty True\<rparr>)"
  using assms by (simp add: switch_def ttys_start_def rnth_def rupdate_def blank_tty_def)

lemma print_bytes_ok:
  assumes "shows_text (SCREEN s) t" and "rectangle (frame s)"
  shows "\<exists>s'. print_bytes bytes s = Inr s' \<and> shows_text (SCREEN s') (fold text_write bytes t) \<and> rectangle (frame s')
     \<and> TTYS s' = TTYS s \<and> active (SCREEN s') = active (SCREEN s)
     \<and> (active (SCREEN s) \<longrightarrow> bytes \<noteq> [] \<longrightarrow> displayed (SCREEN s') s')"
proof -
  from write_str_outcome [OF assms, of bytes] obtain b s' where
    w: "write_str bytes (SCREEN s) s = Inr (b, s')" and o: "shows_text b (fold text_write bytes t)" "rectangle (frame s')"
    "active b = active (SCREEN s)" "vga.more s' = vga.more s" by (auto simp: outcome_def)
  then have "TTYS s' = TTYS s" by (cases s, cases s') simp
  moreover have "displayed b s'" if "active (SCREEN s)" "bytes \<noteq> []"
    using write_str_displayed [OF assms that w] .
  ultimately show ?thesis using w o by (auto simp: print_bytes_def displayed_def)
qed

lemma session_ok:
  assumes "console_wf s" and "TTYS s = Some ttys_start" and "\<forall>i. Switch i \<in> set ops \<longrightarrow> i < 6"
  shows "\<exists>s'. rfold console_step ops s = Inr s' \<and> console_wf s' \<and> TTYS s' = Some ttys_start"
proof -
  let ?I = "\<lambda>s. console_wf s \<and> TTYS s = Some ttys_start"
  have "\<exists>s'. console_step op s = Inr s' \<and> ?I s'" if "op \<in> set ops" and I: "?I s" for op and s :: "'a console_scheme"
  proof (cases op)
    case (Print bytes)
    from I obtain t where "shows_text (SCREEN s) t" "rectangle (frame s)" by (auto simp: console_wf_def)
    with print_bytes_ok [of s t bytes] I Print show ?thesis by (auto simp: console_wf_def)
  next
    case (Switch i)
    with assms(3) that have "i < 6" by auto
    with I Switch blank_shows [of True] show ?thesis by (auto simp: switch_start console_wf_def)
  qed
  with assms(1,2) rfold_total [where I = ?I] show ?thesis by blast
qed

lemma newlines: "(text_newline ^^ Suc n) t = \<lparr>history = replicate n [] @ current t # history t, current = []\<rparr>"
  by (induction n) (simp_all add: text_newline_def)

lemma clear_screen_ok:
  assumes "shows_text (SCREEN s) t" and "rectangle (frame s)" and "n \<le> 25"
  shows "\<exists>s'. rfold (\<lambda>_ s. rbind (new_line (SCREEN s) s) (\<lambda>(b, s). Inr (s\<lparr>SCREEN := b\<rparr>))) [0 ..< n] s = Inr s'
     \<and> shows_text (SCREEN s') ((text_newline ^^ n) t) \<and> rectangle (frame s') \<and> TTYS s' = TTYS s
     \<and> console.more s' = console.more s"
  using assms(3)
proof (induction n)
  case 0
  with assms show ?case by simp
next
  case (Suc n)
  then obtain s1 where 1: "rfold (\<lambda>_ s. rbind (new_line (SCREEN s) s) (\<lambda>(b, s). Inr (s\<lparr>SCREEN := b\<rparr>))) [0 ..< n] s = Inr s1"
    "shows_text (SCREEN s1) ((text_newline ^^ n) t)" "rectangle (frame s1)" "TTYS s1 = TTYS s"
    "console.more s1 = console.more s" by auto
  from new_line_outcome [OF 1(2,3)] obtain b s2 where "new_line (SCREEN s1) s1 = Inr (b, s2)"
    "shows_text b ((text_newline ^^ Suc n) t)" "rectangle (frame s2)" "vga.more s2 = vga.more s1"
    by (auto simp: outcome_def)
  moreover from this(4) have "TTYS s2 = TTYS s1" "console.more s2 = console.more s1" by (cases s1, cases s2, simp)+
  ultimately show ?case using 1 by (simp add: rfold_snoc)
qed

definition example_console :: console where
  "example_console = \<lparr>trace = [], frame = replicate 25 (replicate 80 \<lparr>ascii_character = 0x20, char_color = ColorCode 7\<rparr>),
     SCREEN = screen_start, TTYS = Some ttys_start\<rparr>"

lemma example_console_wf: "console_wf example_console" "rectangle (frame example_console)"
  using blank_shows [of True] by (auto simp: console_wf_def example_console_def rectangle_def dims screen_start_blank)

section \<open>Properties\<close>

text \<open>
  C15. Writing to a text buffer refines the abstract console: on a buffer that shows a text (the
  last 25 lines of it, padded with blanks, with the cursor after the last character), writing any
  bytes returns, the buffer shows the text with those bytes written to it (new lines, backspaces,
  tabs and the wrapping of full lines included), and when the buffer is active the cells of the
  screen show it and the cursor is behind the last character; a buffer that is not active does
  not touch the screen.
\<close>

theorem write_str_refines:
  assumes "shows_text b t" and "rectangle (frame s)"
  shows "\<exists>b' s'. write_str bytes b s = Inr (b', s') \<and> shows_text b' (fold text_write bytes t)
     \<and> color_code b' = color_code b \<and> active b' = active b \<and> (\<not> active b \<longrightarrow> s' = s)
     \<and> (active b \<longrightarrow> bytes \<noteq> [] \<longrightarrow> displayed b' s')"
  using write_str_outcome [OF assms, of bytes] write_str_displayed [OF assms] by (fastforce simp: outcome_def)

theorem write_str_refines_witness:
  "\<exists>b' s'. write_str [0x68, 0x69, 0x0A, 0x6F, 0x6B, 0x08] screen_start example_console = Inr (b', s')
     \<and> shows_text b' \<lparr>history = [[0x68, 0x69]], current = [0x6F]\<rparr> \<and> displayed b' s'"
proof -
  have "shows_text screen_start \<lparr>history = [], current = []\<rparr>" using blank_shows by (simp add: screen_start_blank)
  from write_str_refines [OF this example_console_wf(2), of "[0x68, 0x69, 0x0A, 0x6F, 0x6B, 0x08]"]
  show ?thesis by (auto simp: text_write_def text_put_def text_newline_def screen_start_def)
qed

text \<open>
  \<^verbatim>\<open>clear_screen\<close> on a console in order returns and leaves every cell of the screen's buffer blank
  with the cursor in the first column, and the terminals as they were.
\<close>

theorem clear_screen_clears:
  assumes "console_wf s"
  shows "\<exists>s'. clear_screen s = Inr s' \<and> chars (SCREEN s') = replicate 25 (replicate 80 0x20)
     \<and> column_position (SCREEN s') = 0 \<and> TTYS s' = TTYS s"
proof -
  from assms obtain t where "shows_text (SCREEN s) t" "rectangle (frame s)" by (auto simp: console_wf_def)
  from clear_screen_ok [OF this, of 25] obtain s' where
    s': "clear_screen s = Inr s'" "shows_text (SCREEN s') ((text_newline ^^ Suc 24) t)" "TTYS s' = TTYS s"
    by (auto simp: clear_screen_def BUFFER_HEIGHT_def)
  then show ?thesis unfolding newlines by (simp add: shows_text_def shown_def pad_def replicate_24)
qed

theorem clear_screen_clears_witness:
  "\<exists>s'. clear_screen example_console = Inr s' \<and> chars (SCREEN s') = replicate 25 (replicate 80 0x20)"
  using clear_screen_clears [OF example_console_wf(1)] by blast

text \<open>
  A terminal does not keep its text: after any session of printing and switching on
  initialised terminals, switching to any of the six shows a blank buffer, whatever was printed
  to it before, and the screen's cells are not redrawn by the switch (the array of terminals is
  copied and the copy is dropped).
\<close>

theorem switch_forgets:
  assumes "console_wf s" and "TTYS s = Some ttys_start" and "\<forall>i. Switch i \<in> set ops \<longrightarrow> i < 6" and "k < 6"
  shows "\<exists>s1 s2. rfold console_step ops s = Inr s1 \<and> switch k s1 = Inr s2
     \<and> SCREEN s2 = blank_tty True \<and> frame s2 = frame s1 \<and> TTYS s2 = TTYS s"
  using session_ok [OF assms(1-3)] assms(2,4) by (auto simp: switch_start)

theorem switch_forgets_witness:
  "\<exists>s1 s2. rfold console_step [Switch 1, Print [0x68, 0x69], Switch 0] example_console = Inr s1
     \<and> switch 1 s1 = Inr s2 \<and> SCREEN s2 = blank_tty True"
  using switch_forgets [OF example_console_wf(1), of "[Switch 1, Print [0x68, 0x69], Switch 0]" 1]
  by (auto simp: example_console_def)

end
