(* ===== verification/Keyboard.thy ===== *)
theory Keyboard
  imports Vga
begin

text \<open>
  The keyboard driver: \<^verbatim>\<open>device/keyboard/keyboard.rs\<close> (scan codes), \<^verbatim>\<open>ps2_keyboard.rs\<close> (modifiers
  and output) and the two layouts \<^verbatim>\<open>layout/uk_std.rs\<close> and \<^verbatim>\<open>us_std.rs\<close>, of which the build's
  features choose one. Characters are code points; the driver only makes characters from bytes,
  so the layouts take a byte. \<^verbatim>\<open>print!\<close> sends the UTF-8 bytes of its text to the serial port.
\<close>

section \<open>Characters\<close>

text \<open>The bytes of a literal, and the UTF-8 encoding of a code point.\<close>

definition ascii :: "string \<Rightarrow> u8 list" where
  "ascii s = map of_char s"

definition utf8 :: "u32 \<Rightarrow> u8 list" where
  "utf8 c =
     (if c < 0x80 then [ucast c]
      else if c < 0x800 then [0xC0 OR ucast (drop_bit 6 c), 0x80 OR ucast (c AND 0x3F)]
      else if c < 0x10000 then
        [0xE0 OR ucast (drop_bit 12 c), 0x80 OR ucast (drop_bit 6 c AND 0x3F), 0x80 OR ucast (c AND 0x3F)]
      else
        [0xF0 OR ucast (drop_bit 18 c), 0x80 OR ucast (drop_bit 12 c AND 0x3F),
         0x80 OR ucast (drop_bit 6 c AND 0x3F), 0x80 OR ucast (c AND 0x3F)])"

text \<open>\<^verbatim>\<open>char::is_alphabetic\<close> and \<^verbatim>\<open>char::to_uppercase\<close> on the characters of one byte.\<close>

definition is_alphabetic :: "u8 \<Rightarrow> bool" where
  "is_alphabetic c \<longleftrightarrow> 0x41 \<le> c \<and> c \<le> 0x5A \<or> 0x61 \<le> c \<and> c \<le> 0x7A \<or> c = 0xAA \<or> c = 0xB5 \<or> c = 0xBA
     \<or> 0xC0 \<le> c \<and> c \<noteq> 0xD7 \<and> c \<noteq> 0xF7"

definition to_uppercase :: "u8 \<Rightarrow> u32 list" where
  "to_uppercase c =
     (if 0x61 \<le> c \<and> c \<le> 0x7A \<or> 0xE0 \<le> c \<and> c \<noteq> 0xF7 \<and> c \<noteq> 0xFF then [ucast (c - 0x20)]
      else if c = 0xB5 then [0x39C]
      else if c = 0xDF then [0x53, 0x53]
      else if c = 0xFF then [0x178]
      else [ucast c])"

section \<open>Layouts\<close>

definition pick :: "(char \<times> u32) list \<Rightarrow> u8 \<Rightarrow> u32" where
  "pick tab c = (case map_of (map (\<lambda>(k, v). (of_char k, v)) tab) c of None \<Rightarrow> 0 | Some v \<Rightarrow> v)"


definition us_upper :: "(char \<times> u32) list" where
  "us_upper =
     [(CHR ''`'', 0x7E), (CHR ''1'', 0x21), (CHR ''2'', 0x40), (CHR ''3'', 0x23), (CHR ''4'', 0x24), (CHR ''5'', 0x25),
      (CHR ''6'', 0x5E), (CHR ''7'', 0x26), (CHR ''8'', 0x2A), (CHR ''9'', 0x28), (CHR ''0'', 0x29), (CHR ''-'', 0x5F),
      (CHR ''='', 0x2B), (CHR ''['', 0x7B), (CHR '']'', 0x7D), (CHR 0x5C, 0x7C), (CHR '';'', 0x3A), (CHR 0x27, 0x22),
      (CHR '','', 0x3C), (CHR ''.'', 0x3E), (CHR ''/'', 0x3F)]"


definition us_map_to_upper :: "u8 \<Rightarrow> u32 list" where
  "us_map_to_upper lower = (if is_alphabetic lower then to_uppercase lower else [pick us_upper lower])"

section \<open>Modifiers\<close>

record KeyPair =
  left :: bool
  right :: bool

definition key_pair_new :: KeyPair where
  "key_pair_new = \<lparr>left = False, right = False\<rparr>"

definition is_pressed :: "KeyPair \<Rightarrow> bool" where
  "is_pressed self \<longleftrightarrow> left self \<or> right self"

datatype Modifiers =
    AltLeft bool
  | AltRight bool
  | CapsLock
  | ControlLeft bool
  | ControlRight bool
  | NumLock
  | ScrollLock
  | ShiftLeft bool
  | ShiftRight bool
  | FunctionKeys nat

record ModifierState =
  shift :: KeyPair
  control :: KeyPair
  alt :: KeyPair
  caps_lock :: bool
  num_lock :: bool
  scroll_lock :: bool
  function_keys :: "bool list"

definition modifier_state_new :: ModifierState where
  "modifier_state_new = \<lparr>shift = key_pair_new, control = key_pair_new, alt = key_pair_new, caps_lock = False,
     num_lock = False, scroll_lock = False, function_keys = replicate 12 False\<rparr>"

definition use_uppercase_letters :: "ModifierState \<Rightarrow> bool" where
  "use_uppercase_letters self \<longleftrightarrow> is_pressed (shift self) \<noteq> caps_lock self"

fun should_switch_loop :: "bool list \<Rightarrow> bool \<Rightarrow> nat list \<Rightarrow> (bool \<times> nat) res" where
  "should_switch_loop keys is_ctrl [] = Inr (False, 0)"
| "should_switch_loop keys is_ctrl (i # is) =
     rbind (rnth keys i) (\<lambda>k. if k \<and> is_ctrl then Inr (True, i) else should_switch_loop keys is_ctrl is)"

definition should_switch_tty :: "ModifierState \<Rightarrow> (bool \<times> nat) res" where
  "should_switch_tty self =
     (let is_ctrl = left (control self) \<or> right (control self) in
      should_switch_loop (function_keys self) is_ctrl [0 ..< 12])"

definition apply_to :: "(u8 \<Rightarrow> u32 list) \<Rightarrow> ModifierState \<Rightarrow> u8 \<Rightarrow> 'a console_scheme \<Rightarrow> (u32 list \<times> 'a console_scheme) res" where
  "apply_to map_to_upper self c s =
     (if use_uppercase_letters self then Inr (map_to_upper c, s)
      else
        rbind (should_switch_tty self) (\<lambda>(b, index).
        if b then rbind (switch index s) (\<lambda>s. Inr ([ucast c], s))
        else Inr ([ucast c], s)))"

fun update :: "Modifiers \<Rightarrow> ModifierState \<Rightarrow> ModifierState res" where
  "update (AltLeft m) self = Inr (self\<lparr>alt := (alt self)\<lparr>left := m\<rparr>\<rparr>)"
| "update (AltRight m) self = Inr (self\<lparr>alt := (alt self)\<lparr>right := m\<rparr>\<rparr>)"
| "update CapsLock self = Inr (self\<lparr>caps_lock := \<not> caps_lock self\<rparr>)"
| "update (ControlLeft m) self = Inr (self\<lparr>control := (control self)\<lparr>left := m\<rparr>\<rparr>)"
| "update (ControlRight m) self = Inr (self\<lparr>control := (control self)\<lparr>right := m\<rparr>\<rparr>)"
| "update NumLock self = Inr (self\<lparr>num_lock := \<not> num_lock self\<rparr>)"
| "update ScrollLock self = Inr (self\<lparr>num_lock := \<not> scroll_lock self\<rparr>)"
| "update (ShiftLeft m) self = Inr (self\<lparr>shift := (shift self)\<lparr>left := m\<rparr>\<rparr>)"
| "update (ShiftRight m) self = Inr (self\<lparr>shift := (shift self)\<lparr>right := m\<rparr>\<rparr>)"
| "update (FunctionKeys m) self =
     rbind (rupdate (function_keys self) m True) (\<lambda>ks. Inr (self\<lparr>function_keys := ks\<rparr>))"

section \<open>Scan codes\<close>

datatype Key = Ascii u8 | Meta Modifiers | LowerAscii u8

datatype KeyEvent = Pressed Key | Released Key

definition is_special_key :: "u8 \<Rightarrow> u8 option" where
  "is_special_key byte =
     (if byte \<in> {0x5B, 0xDB, 0x1D, 0x9D, 0x5C, 0xDC, 0x38, 0xB8, 0x5D, 0xDD, 0x52, 0xD2, 0x47, 0x97, 0x49, 0xC9,
        0x53, 0xD3, 0x4F, 0xCF, 0x51, 0xD1, 0x48, 0xC8, 0x4B, 0xCB, 0x50, 0xD0, 0x4D, 0xCD, 0x35, 0xB5, 0x1C, 0x9C}
      then Some byte else None)"

definition single_codes :: "(u64 \<times> KeyEvent) list" where
  "single_codes =
     [(0x29, Pressed (LowerAscii 0x60)),
      (0x2B, Pressed (LowerAscii 0x5C)),
      (0x01, Pressed (Ascii 0x1B)),
      (0x0E, Pressed (Ascii 0x8)),
      (0x0F, Pressed (Ascii 0x09)),
      (0x1C, Pressed (Ascii 0x0A)),
      (0x39, Pressed (Ascii 0x20)),
      (0x1D, Pressed (Meta (ControlLeft True))),
      (0xE01D, Pressed (Meta (ControlRight True))),
      (0x2A, Pressed (Meta (ShiftLeft True))),
      (0x36, Pressed (Meta (ShiftRight True))),
      (0x38, Pressed (Meta (AltLeft True))),
      (0xE038, Pressed (Meta (AltRight False))),
      (0x3A, Pressed (Meta CapsLock)),
      (0x45, Pressed (Meta NumLock)),
      (0x46, Pressed (Meta ScrollLock)),
      (0x3B, Pressed (Meta (FunctionKeys 0))),
      (0x3C, Pressed (Meta (FunctionKeys 1))),
      (0x3D, Pressed (Meta (FunctionKeys 2))),
      (0x3E, Pressed (Meta (FunctionKeys 3))),
      (0x3F, Pressed (Meta (FunctionKeys 4))),
      (0x40, Pressed (Meta (FunctionKeys 5))),
      (0x41, Pressed (Meta (FunctionKeys 6))),
      (0x42, Pressed (Meta (FunctionKeys 7))),
      (0x43, Pressed (Meta (FunctionKeys 8))),
      (0x44, Pressed (Meta (FunctionKeys 9))),
      (0x57, Pressed (Meta (FunctionKeys 10))),
      (0x58, Pressed (Meta (FunctionKeys 11))),
      (0xAA, Released (Meta (ShiftLeft False))),
      (0xB6, Released (Meta (ShiftRight False))),
      (0x9D, Released (Meta (ControlLeft False))),
      (0xE09D, Released (Meta (ControlRight False))),
      (0xB8, Released (Meta (AltLeft False))),
      (0xE0B8, Released (Meta (AltRight False))),
      (0xBB, Released (Meta (FunctionKeys 0))),
      (0xBC, Released (Meta (FunctionKeys 1))),
      (0xBD, Released (Meta (FunctionKeys 2))),
      (0xBE, Released (Meta (FunctionKeys 3))),
      (0xBF, Released (Meta (FunctionKeys 4))),
      (0xC0, Released (Meta (FunctionKeys 5))),
      (0xC1, Released (Meta (FunctionKeys 6))),
      (0xC2, Released (Meta (FunctionKeys 7))),
      (0xC3, Released (Meta (FunctionKeys 8))),
      (0xC4, Released (Meta (FunctionKeys 9))),
      (0xD7, Released (Meta (FunctionKeys 10))),
      (0xD8, Released (Meta (FunctionKeys 11)))]"

definition match_scancode :: "u64 \<Rightarrow> KeyEvent option res" where
  "match_scancode scancode =
     (let idx = scancode;
          key = (\<lambda>row first. rbind (checked_sub idx first) (\<lambda>i. rbind (rnth (ascii row) (unat i)) (\<lambda>c.
            Inr (Some (Pressed (LowerAscii c)))))) in
      if 0x02 \<le> scancode \<and> scancode \<le> 0x0D then key ''1234567890-='' 0x02
      else if 0x10 \<le> scancode \<and> scancode \<le> 0x1B then key ''qwertyuiop[]'' 0x10
      else if 0x1E \<le> scancode \<and> scancode \<le> 0x28 then key [CHR ''a'', CHR ''s'', CHR ''d'', CHR ''f'', CHR ''g'', CHR ''h'', CHR ''j'', CHR ''k'', CHR ''l'', CHR '';'', CHR 0x27] 0x1E
      else if 0x2C \<le> scancode \<and> scancode \<le> 0x35 then key ''zxcvbnm,./'' 0x2C
      else Inr (map_of single_codes scancode))"

definition get_key_event :: "u64 \<Rightarrow> KeyEvent option res" where
  "get_key_event scancode = match_scancode scancode"

definition get_key :: "u64 \<Rightarrow> Key option res" where
  "get_key scancode =
     rbind (get_key_event scancode) (\<lambda>e.
     Inr (case e of Some (Pressed key) \<Rightarrow> Some key | Some (Released key) \<Rightarrow> Some key | _ \<Rightarrow> None))"

section \<open>The driver\<close>

record keyboard = console +
  STATE :: ModifierState

definition retrieve_bytes :: "hw \<Rightarrow> u8 \<Rightarrow> 'a io_scheme \<Rightarrow> (u64 \<times> 'a io_scheme) res" where
  "retrieve_bytes hw scancode s =
     (let byte_sequence = [scancode];
          (byte_sequence, s) =
            (if scancode = 0xE0 \<or> scancode = 0xE1 then
               let (check, s) = read_char hw s in
               case is_special_key check of
                 Some byte \<Rightarrow> (byte_sequence @ [byte], s)
               | None \<Rightarrow> (byte_sequence, s)
             else (byte_sequence, s)) in
      rbind (rfold (\<lambda>b acc. checked_add (push_bit 1 acc) (ucast b)) (rev byte_sequence) 0) (\<lambda>n.
      Inr (n, s)))"

definition print_text :: "hw \<Rightarrow> u32 list \<Rightarrow> 'a io_scheme \<Rightarrow> 'a io_scheme res" where
  "print_text hw cs s = serial_write_str hw COM1 (concat (map utf8 cs)) s"

definition print_char :: "hw \<Rightarrow> u32 \<Rightarrow> 'a io_scheme \<Rightarrow> 'a io_scheme res" where
  "print_char hw character s =
     (if character \<in> {0x0A, 0x20, 0x09, 0x08} then print_text hw [character] s else Inr s)"

definition print_str :: "hw \<Rightarrow> u32 list \<Rightarrow> 'a io_scheme \<Rightarrow> 'a io_scheme res" where
  "print_str hw str s = print_text hw str s"

definition parse_key :: "hw \<Rightarrow> (u8 \<Rightarrow> u32 list) \<Rightarrow> u8 \<Rightarrow> 'a keyboard_scheme \<Rightarrow> 'a keyboard_scheme res" where
  "parse_key hw map_to_upper scancode s =
     rbind (retrieve_bytes hw scancode s) (\<lambda>(sequence, s).
     rbind (get_key sequence) (\<lambda>key.
     case key of
       None \<Rightarrow> Inr s
     | Some (Ascii k) \<Rightarrow> print_char hw (ucast k) s
     | Some (Meta modifier) \<Rightarrow> rbind (update modifier (STATE s)) (\<lambda>st. Inr (s\<lparr>STATE := st\<rparr>))
     | Some (LowerAscii byte) \<Rightarrow>
         rbind (apply_to map_to_upper (STATE s) byte s) (\<lambda>(str, s). print_str hw str s)))"

section \<open>Reading scan codes\<close>

definition event_key :: "KeyEvent \<Rightarrow> Key" where
  "event_key e = (case e of Pressed key \<Rightarrow> key | Released key \<Rightarrow> key)"

definition in_row :: "u64 \<Rightarrow> bool" where
  "in_row n \<longleftrightarrow> 0x02 \<le> n \<and> n \<le> 0x0D \<or> 0x10 \<le> n \<and> n \<le> 0x1B \<or> 0x1E \<le> n \<and> n \<le> 0x28 \<or> 0x2C \<le> n \<and> n \<le> 0x35"

lemma get_key_single: "\<not> in_row n \<Longrightarrow> get_key n = Inr (map_option event_key (map_of single_codes n))"
proof -
  assume "\<not> in_row n"
  then have "match_scancode n = Inr (map_of single_codes n)"
    by (auto simp: match_scancode_def in_row_def Let_def)
  then show ?thesis
    by (auto simp: get_key_def get_key_event_def event_key_def split: option.splits KeyEvent.splits)
qed

lemma row_key:
  assumes "f \<le> n" and "n \<le> l" and "unat l - unat f < length (ascii row)"
  shows "\<exists>c. rbind (checked_sub n f) (\<lambda>i. rbind (rnth (ascii row) (unat i)) (\<lambda>c. Inr (Some (Pressed (LowerAscii c)))))
    = Inr (Some (Pressed (LowerAscii c)))"
proof -
  have "unat (n - f) \<le> unat l - unat f" using assms by (simp add: unat_sub word_le_nat_alt)
  then show ?thesis using assms by (simp add: checked_sub_def rnth_def)
qed

lemma ascii_length [simp]: "length (ascii s) = length s"
  by (simp add: ascii_def)

lemma get_key_row: "in_row n \<Longrightarrow> \<exists>c. get_key n = Inr (Some (LowerAscii c))"
proof -
  assume n: "in_row n"
  have "\<exists>c. match_scancode n = Inr (Some (Pressed (LowerAscii c)))"
    using n row_key [of "0x02" n "0x0D" "''1234567890-=''"] row_key [of "0x10" n "0x1B" "''qwertyuiop[]''"]
      row_key [of "0x1E" n "0x28" "[CHR ''a'', CHR ''s'', CHR ''d'', CHR ''f'', CHR ''g'', CHR ''h'', CHR ''j'', CHR ''k'', CHR ''l'', CHR '';'', CHR 0x27]"]
      row_key [of "0x2C" n "0x35" "''zxcvbnm,./''"]
    unfolding in_row_def match_scancode_def Let_def
    by (elim disjE conjE) (simp_all add: word_le_nat_alt)
  then show ?thesis by (auto simp: get_key_def get_key_event_def)
qed

lemma no_key: "0xD8 < n \<Longrightarrow> n < 0xE01D \<Longrightarrow> get_key n = Inr None"
proof -
  assume n: "0xD8 < n" "n < 0xE01D"
  then have "n \<notin> fst ` set single_codes" "\<not> in_row n"
    by (auto simp: single_codes_def in_row_def word_less_nat_alt word_le_nat_alt)
  then show ?thesis by (simp add: get_key_single map_of_eq_None_iff)
qed

lemma ucast_u8 [simp]: "ucast (ucast (c :: u8) :: u64) = c"
  by (rule bit_word_eqI) (simp add: bit_simps)

lemma unat_ucast_u8 [simp]: "unat (ucast (c :: u8) :: u64) = unat c"
  using unat_bound [of c] by (simp add: unsigned_ucast_eq take_bit_nat_eq_self_iff)

section \<open>Extended keys\<close>

lemma retrieve_plain: "c \<noteq> 0xE0 \<Longrightarrow> c \<noteq> 0xE1 \<Longrightarrow> retrieve_bytes hw c s = Inr (ucast c, s)"
  using unat_bound [of c] by (simp add: retrieve_bytes_def checked_add_def)

lemma retrieve_extended:
  assumes "c = 0xE0 \<or> c = 0xE1"
  shows "\<exists>n. retrieve_bytes hw c s = Inr (n, snd (ps2_read_char hw PS2 s)) \<and> get_key n = Inr None"
proof -
  obtain check s1 where r: "ps2_read_char hw PS2 s = (check, s1)" by (cases "ps2_read_char hw PS2 s")
  have c: "0xE0 \<le> unat c" "unat c \<le> 0xE1" using assms by auto
  show ?thesis
  proof (cases "is_special_key check")
    case None
    have "0xD8 < (ucast c :: u64)" "(ucast c :: u64) < 0xE01D" using c by (simp_all add: word_less_nat_alt)
    then show ?thesis using assms None r no_key by (auto simp: retrieve_bytes_def checked_add_def)
  next
    case (Some b)
    let ?n = "push_bit 1 (ucast b) + ucast c :: u64"
    have b: "unat b < 256" using unat_bound [of b] by simp
    have "push_bit 1 (ucast b :: u64) = 2 * ucast b" by (simp add: push_bit_eq_mult)
    then have p: "unat (push_bit 1 (ucast b :: u64)) = 2 * unat b" using b by (simp add: unat_word_ariths)
    then have n: "unat ?n = 2 * unat b + unat c" using b c by (simp add: unat_word_ariths)
    have "get_key ?n = Inr None" using n b c by (intro no_key) (simp_all add: word_less_nat_alt)
    moreover have "checked_add (push_bit 1 (ucast b)) (ucast c) = Inr ?n"
      using p b c by (simp add: checked_add_def)
    moreover have "checked_add 0 (ucast b :: u64) = Inr (ucast b)" using b by (simp add: checked_add_def)
    ultimately show ?thesis using assms Some r by (auto simp: retrieve_bytes_def)
  qed
qed

lemma parse_extended:
  assumes "c = 0xE0 \<or> c = 0xE1"
  shows "parse_key hw up c s = Inr (snd (ps2_read_char hw PS2 s))"
  using retrieve_extended [OF assms, of hw s] by (auto simp: parse_key_def)

lemma parse_plain:
  assumes "c \<noteq> 0xE0" and "c \<noteq> 0xE1" and "get_key (ucast c) = Inr k"
  shows "parse_key hw up c s =
    (case k of
       None \<Rightarrow> Inr s
     | Some (Ascii k) \<Rightarrow> print_char hw (ucast k) s
     | Some (Meta modifier) \<Rightarrow> rbind (update modifier (STATE s)) (\<lambda>st. Inr (s\<lparr>STATE := st\<rparr>))
     | Some (LowerAscii byte) \<Rightarrow> rbind (apply_to up (STATE s) byte s) (\<lambda>(str, s). print_str hw str s))"
  using assms by (simp add: parse_key_def retrieve_plain)

section \<open>Modifiers\<close>

text \<open>The function key of a code, pressed or released.\<close>

definition fkey :: "u8 \<Rightarrow> nat option" where
  "fkey = map_of [(0x3B, 0), (0x3C, 1), (0x3D, 2), (0x3E, 3), (0x3F, 4), (0x40, 5), (0x41, 6), (0x42, 7), (0x43, 8),
     (0x44, 9), (0x57, 10), (0x58, 11), (0xBB, 0), (0xBC, 1), (0xBD, 2), (0xBE, 3), (0xBF, 4), (0xC0, 5), (0xC1, 6),
     (0xC2, 7), (0xC3, 8), (0xC4, 9), (0xD7, 10), (0xD8, 11)]"

definition track :: "u8 \<Rightarrow> u8 \<Rightarrow> bool \<Rightarrow> bool" where
  "track p c old = (if c = p then True else if c = p + 0x80 then False else old)"

text \<open>What one code does to the modifiers.\<close>

definition key_state :: "u8 \<Rightarrow> ModifierState \<Rightarrow> ModifierState" where
  "key_state c st = \<lparr>
     shift = \<lparr>left = track 0x2A c (left (shift st)), right = track 0x36 c (right (shift st))\<rparr>,
     control = (control st)\<lparr>left := track 0x1D c (left (control st))\<rparr>,
     alt = (alt st)\<lparr>left := track 0x38 c (left (alt st))\<rparr>,
     caps_lock = (if c = 0x3A then \<not> caps_lock st else caps_lock st),
     num_lock = (if c = 0x45 then \<not> num_lock st else if c = 0x46 then \<not> scroll_lock st else num_lock st),
     scroll_lock = scroll_lock st,
     function_keys = (case fkey c of None \<Rightarrow> function_keys st | Some i \<Rightarrow> (function_keys st)[i := True])\<rparr>"

lemma update_state:
  assumes "get_key (ucast c) = Inr (Some (Meta m))" and "length (function_keys st) = 12"
  shows "update m st = Inr (key_state c st)"
proof -
  have "\<not> in_row (ucast c)" using get_key_row [of "ucast c"] assms(1) by auto
  with assms(1) have "\<exists>e. map_of single_codes (ucast c) = Some e \<and> event_key e = Meta m" by (simp add: get_key_single)
  then obtain e where e: "(ucast c, e) \<in> set single_codes" "event_key e = Meta m" by (auto dest: map_of_SomeD)
  have "\<forall>(n, e) \<in> set single_codes. n < 0x100 \<longrightarrow> (\<forall>m. event_key e = Meta m \<longrightarrow> update m st = Inr (key_state (ucast n) st))"
    using assms(2) by (simp add: single_codes_def event_key_def key_state_def track_def fkey_def rupdate_def)
  moreover have "(ucast c :: u64) < 0x100" using unat_bound [of c] by (simp add: word_less_nat_alt)
  ultimately have "update m st = Inr (key_state (ucast (ucast c :: u64)) st)" using e by blast
  then show ?thesis by simp
qed

definition meta_codes :: "u8 list" where
  "meta_codes = [0x2A, 0xAA, 0x36, 0xB6, 0x1D, 0x9D, 0x38, 0xB8, 0x3A, 0x45, 0x46,
     0x3B, 0x3C, 0x3D, 0x3E, 0x3F, 0x40, 0x41, 0x42, 0x43, 0x44, 0x57, 0x58,
     0xBB, 0xBC, 0xBD, 0xBE, 0xBF, 0xC0, 0xC1, 0xC2, 0xC3, 0xC4, 0xD7, 0xD8]"

lemma meta_codes_meta: "c \<in> set meta_codes \<Longrightarrow> \<exists>m. get_key (ucast c) = Inr (Some (Meta m))"
proof -
  have "\<forall>c \<in> set meta_codes. \<exists>m. get_key (ucast c) = Inr (Some (Meta m))"
    by (simp add: meta_codes_def get_key_single in_row_def single_codes_def event_key_def)
  then show "c \<in> set meta_codes \<Longrightarrow> \<exists>m. get_key (ucast c) = Inr (Some (Meta m))" by blast
qed

lemma key_state_idle: "c \<notin> set meta_codes \<Longrightarrow> key_state c st = st"
proof -
  assume c: "c \<notin> set meta_codes"
  then have "fkey c = None" by (simp add: fkey_def meta_codes_def)
  with c show ?thesis by (cases st) (simp add: key_state_def track_def meta_codes_def)
qed

section \<open>One key\<close>

text \<open>The loop finds the lowest function key that counts as down.\<close>

lemma should_switch_loop_least:
  "\<forall>i \<in> set is. i < length keys \<Longrightarrow> sorted is \<Longrightarrow>
   \<exists>b i. should_switch_loop keys ctrl is = Inr (b, i) \<and> (b \<longleftrightarrow> ctrl \<and> (\<exists>j \<in> set is. keys ! j))
     \<and> (b \<longrightarrow> i \<in> set is \<and> keys ! i \<and> (\<forall>j \<in> set is. keys ! j \<longrightarrow> i \<le> j))"
proof (induction "is")
  case (Cons n "is")
  then obtain b i where "should_switch_loop keys ctrl is = Inr (b, i)" "b \<longleftrightarrow> ctrl \<and> (\<exists>j \<in> set is. keys ! j)"
    "b \<longrightarrow> i \<in> set is \<and> keys ! i \<and> (\<forall>j \<in> set is. keys ! j \<longrightarrow> i \<le> j)" by auto
  with Cons.prems show ?case by (cases "keys ! n \<and> ctrl") (auto simp: rnth_def)
qed (auto intro: exI [of _ False])

text \<open>Of the function keys, some of F7 to F12 count as down and none of F1 to F6.\<close>

definition high_keys_only :: "ModifierState \<Rightarrow> bool" where
  "high_keys_only st \<longleftrightarrow> (\<exists>i < 12. function_keys st ! i) \<and> (\<forall>i < 6. \<not> function_keys st ! i)"

lemma should_switch_cases:
  assumes "length (function_keys st) = 12"
  shows "\<exists>b i. should_switch_tty st = Inr (b, i) \<and> (b \<longrightarrow> is_pressed (control st) \<and> (i < 6 \<longleftrightarrow> \<not> high_keys_only st))
     \<and> (is_pressed (control st) \<and> high_keys_only st \<longrightarrow> b)"
proof -
  have "\<forall>i \<in> set [0 ..< 12]. i < length (function_keys st)" "sorted [0 ..< 12]" using assms by (simp_all del: upt_rec_numeral)
  from should_switch_loop_least [OF this, of "is_pressed (control st)"] obtain b i
    where l: "should_switch_loop (function_keys st) (is_pressed (control st)) [0 ..< 12] = Inr (b, i)"
      "b \<longleftrightarrow> is_pressed (control st) \<and> (\<exists>j \<in> set [0 ..< 12]. function_keys st ! j)"
      "b \<longrightarrow> i \<in> set [0 ..< 12] \<and> function_keys st ! i \<and> (\<forall>j \<in> set [0 ..< 12]. function_keys st ! j \<longrightarrow> i \<le> j)" by blast
  have in12: "j \<in> set [0 ..< 12] \<longleftrightarrow> j < 12" for j by (simp del: upt_rec_numeral)
  have r: "should_switch_tty st = Inr (b, i)" "b \<longleftrightarrow> is_pressed (control st) \<and> (\<exists>j < 12. function_keys st ! j)"
    "b \<longrightarrow> i < 12 \<and> function_keys st ! i \<and> (\<forall>j < 12. function_keys st ! j \<longrightarrow> i \<le> j)"
    using l unfolding Bex_def Ball_def in12 by (simp_all add: should_switch_tty_def is_pressed_def del: upt_rec_numeral)
  have "i < 6 \<longleftrightarrow> \<not> high_keys_only st" if b
  proof
    show "\<not> high_keys_only st" if "i < 6" using that \<open>b\<close> r(3) by (auto simp: high_keys_only_def)
    assume "\<not> high_keys_only st"
    then obtain j where "j < 6" "function_keys st ! j" using r(3) \<open>b\<close> by (auto simp: high_keys_only_def)
    moreover from this have "i \<le> j" using r(3) \<open>b\<close> by simp
    ultimately show "i < 6" by simp
  qed
  with r show ?thesis by (auto simp: high_keys_only_def)
qed

lemma keyboard_more:
  assumes "io.more s' = io.more (s :: 'a keyboard_scheme)"
  shows "STATE s' = STATE s" "TTYS s' = TTYS s" "SCREEN s' = SCREEN s" "keyboard.more s' = keyboard.more s"
  using assms by (cases s, cases s', simp)+

lemma print_text_ok:
  assumes "serial_ready hw COM1"
  shows "\<exists>s' es. print_text hw cs s = Inr s' \<and> trace s' = trace s @ es \<and> sent 0x3f8 es = concat (map utf8 cs)
     \<and> io.more s' = io.more s"
  using serial_write_str_ok [OF assms, of "concat (map utf8 cs)" s] by (auto simp: print_text_def)

text \<open>A keyboard in order: twelve function keys, and six terminals to switch between.\<close>

definition keyboard_wf :: "'a keyboard_scheme \<Rightarrow> bool" where
  "keyboard_wf s \<longleftrightarrow> length (function_keys (STATE s)) = 12 \<and> (\<exists>ts. TTYS s = Some ts \<and> length ts = 6)"

lemma switch_ok: "TTYS s = Some ts \<Longrightarrow> i < length ts \<Longrightarrow> \<exists>b. switch i s = Inr (s\<lparr>SCREEN := b\<rparr>)"
  by (auto simp: switch_def rnth_def rupdate_def)

lemma apply_to_ok:
  assumes "keyboard_wf s" and "use_uppercase_letters (STATE s) \<or> \<not> is_pressed (control (STATE s)) \<or> \<not> high_keys_only (STATE s)"
  shows "\<exists>str b. apply_to up (STATE s) c s = Inr (str, s\<lparr>SCREEN := b\<rparr>)"
proof -
  from assms obtain ts where ts: "TTYS s = Some ts" "length ts = 6" and l: "length (function_keys (STATE s)) = 12"
    by (auto simp: keyboard_wf_def)
  obtain b i where r: "should_switch_tty (STATE s) = Inr (b, i)" "\<not> use_uppercase_letters (STATE s) \<Longrightarrow> b \<longrightarrow> i < 6"
    using should_switch_cases [OF l] assms(2) by blast
  then have "apply_to up (STATE s) c s = Inr (if use_uppercase_letters (STATE s) then up c else [ucast c],
      s\<lparr>SCREEN := SCREEN s\<rparr>)" if "use_uppercase_letters (STATE s) \<or> \<not> b"
    using that by (auto simp: apply_to_def)
  moreover obtain x where "switch i s = Inr (s\<lparr>SCREEN := x\<rparr>)" if b "\<not> use_uppercase_letters (STATE s)"
    using switch_ok [OF ts(1), of i] ts(2) r(2) by auto
  then have "apply_to up (STATE s) c s = Inr ([ucast c], s\<lparr>SCREEN := x\<rparr>)" if "\<not> use_uppercase_letters (STATE s)" b
    using that r(1) by (simp add: apply_to_def)
  ultimately show ?thesis by blast
qed

text \<open>
  The key the driver panics on: a printing key with control down, no capitals in effect and, of the function keys,
  only some of F7 to F12 counted as down. The driver then switches to a terminal that does not exist.
\<close>

definition crashes :: "ModifierState \<Rightarrow> u8 \<Rightarrow> bool" where
  "crashes st c \<longleftrightarrow> (\<exists>b. get_key (ucast c) = Inr (Some (LowerAscii b))) \<and> \<not> use_uppercase_letters st
     \<and> is_pressed (control st) \<and> high_keys_only st"

lemma key_crash:
  assumes "keyboard_wf k" and "crashes (STATE k) c"
  shows "parse_key hw up c k = Inl OutOfRange"
proof -
  from assms(2) obtain b where b: "get_key (ucast c) = Inr (Some (LowerAscii b))" by (auto simp: crashes_def)
  have "get_key (ucast (0xE0 :: u8)) = Inr None" "get_key (ucast (0xE1 :: u8)) = Inr None" by (auto intro!: no_key)
  with b have c: "c \<noteq> 0xE0" "c \<noteq> 0xE1" by auto
  have l: "length (function_keys (STATE k)) = 12" using assms(1) by (simp add: keyboard_wf_def)
  obtain i where "should_switch_tty (STATE k) = Inr (True, i)" "\<not> i < 6"
    using should_switch_cases [OF l] assms(2) by (auto simp: crashes_def)
  then have "apply_to up (STATE k) b k = Inl OutOfRange"
    using assms by (auto simp: apply_to_def keyboard_wf_def switch_def rnth_def crashes_def)
  then show ?thesis using parse_plain [OF c b, of hw up k] by simp
qed

lemma key_step:
  assumes "serial_ready hw COM1" and "keyboard_wf s" and "\<not> crashes (STATE s) c"
  shows "\<exists>s' es. parse_key hw up c s = Inr s' \<and> STATE s' = key_state c (STATE s) \<and> TTYS s' = TTYS s
     \<and> keyboard.more s' = keyboard.more s \<and> trace s' = trace s @ es"
proof (cases "c = 0xE0 \<or> c = 0xE1")
  case True
  then have "key_state c (STATE s) = STATE s" by (intro key_state_idle) (auto simp: meta_codes_def)
  with True show ?thesis by (simp add: parse_extended ps2_read_char_def port8_read_def inb_def Let_def emit_def)
next
  case False
  then obtain k where k: "get_key (ucast c) = Inr k"
    using get_key_row [of "ucast c"] get_key_single [of "ucast c"] by (cases "in_row (ucast c)") auto
  note p = parse_plain [OF _ _ k, of hw up s] False
  have idle: "key_state c (STATE s) = STATE s" if "\<nexists>m. k = Some (Meta m)"
    using that k meta_codes_meta [of c] by (intro key_state_idle) auto
  show ?thesis
  proof (cases k)
    case None
    with p idle show ?thesis by simp
  next
    case (Some key)
    show ?thesis
    proof (cases key)
      case (Ascii b)
      from print_text_ok [OF assms(1), of "[ucast b]" s] obtain s' es where s': "print_text hw [ucast b] s = Inr s'"
        "io.more s' = io.more s" "trace s' = trace s @ es" by blast
      have "print_char hw (ucast b) s = Inr (if (ucast b :: u32) \<in> {0x0A, 0x20, 0x09, 0x08} then s' else s)"
        unfolding print_char_def s'(1) by simp
      with p idle Some Ascii keyboard_more [OF s'(2)] s'(3) show ?thesis by simp
    next
      case (Meta m)
      with p k Some update_state [of c m "STATE s"] assms(2) show ?thesis by (simp add: keyboard_wf_def)
    next
      case (LowerAscii b)
      have "use_uppercase_letters (STATE s) \<or> \<not> is_pressed (control (STATE s)) \<or> \<not> high_keys_only (STATE s)"
        using assms(3) k Some LowerAscii by (auto simp: crashes_def)
      from apply_to_ok [OF assms(2) this] obtain str x where a: "apply_to up (STATE s) b s = Inr (str, s\<lparr>SCREEN := x\<rparr>)" by blast
      from print_text_ok [OF assms(1)] obtain s' es where "print_text hw str (s\<lparr>SCREEN := x\<rparr>) = Inr s'"
        "io.more s' = io.more (s\<lparr>SCREEN := x\<rparr>)" "trace s' = trace (s\<lparr>SCREEN := x\<rparr>) @ es" by blast
      with p idle Some LowerAscii a keyboard_more [of s' "s\<lparr>SCREEN := x\<rparr>"] show ?thesis by (simp add: print_str_def)
    qed
  qed
qed

section \<open>A session\<close>

text \<open>A key is held when its last code was a press.\<close>

definition held :: "u8 \<Rightarrow> u8 list \<Rightarrow> bool" where
  "held p codes = fold (track p) codes False"

definition modifiers_after :: "u8 list \<Rightarrow> ModifierState" where
  "modifiers_after codes = \<lparr>
     shift = \<lparr>left = held 0x2A codes, right = held 0x36 codes\<rparr>,
     control = \<lparr>left = held 0x1D codes, right = False\<rparr>,
     alt = \<lparr>left = held 0x38 codes, right = False\<rparr>,
     caps_lock = odd (count_list codes 0x3A),
     num_lock = fold (\<lambda>c n. if c = 0x45 then \<not> n else if c = 0x46 then True else n) codes False,
     scroll_lock = False,
     function_keys = map (\<lambda>i. \<exists>c \<in> set codes. fkey c = Some i) [0 ..< 12]\<rparr>"

lemma fkey_range: "fkey c = Some i \<Longrightarrow> i < 12"
  unfolding fkey_def by (drule map_of_SomeD) auto

lemma function_keys_snoc:
  "(case fkey c of None \<Rightarrow> map (\<lambda>i. \<exists>c \<in> set codes. fkey c = Some i) [0 ..< 12]
    | Some i \<Rightarrow> (map (\<lambda>i. \<exists>c \<in> set codes. fkey c = Some i) [0 ..< 12])[i := True])
   = map (\<lambda>i. \<exists>c \<in> set (codes @ [c]). fkey c = Some i) [0 ..< 12]"
  using fkey_range [of c]
  by (cases "fkey c") (auto simp: list_eq_iff_nth_eq nth_list_update simp del: upt_rec_numeral)

lemma modifiers_snoc: "modifiers_after (codes @ [c]) = key_state c (modifiers_after codes)"
  using function_keys_snoc [where c = c and codes = codes]
  by (cases "fkey c") (simp_all add: modifiers_after_def key_state_def held_def del: upt_rec_numeral)

text \<open>Some code of a session meets the modifiers it crashes on.\<close>

definition session_crashes :: "u8 list \<Rightarrow> bool" where
  "session_crashes codes \<longleftrightarrow> (\<exists>n < length codes. crashes (modifiers_after (take n codes)) (codes ! n))"

lemma session_crashes_snoc:
  "session_crashes (codes @ [c]) \<longleftrightarrow> session_crashes codes \<or> crashes (modifiers_after codes) c"
proof -
  have "(\<exists>n < length (codes @ [c]). P n) \<longleftrightarrow> (\<exists>n < length codes. P n) \<or> P (length codes)" for P
    by (simp add: less_Suc_eq) blast
  moreover have "crashes (modifiers_after (take n (codes @ [c]))) ((codes @ [c]) ! n) = crashes (modifiers_after (take n codes)) (codes ! n)"
    if "n < length codes" for n using that by (simp add: nth_append)
  ultimately show ?thesis by (simp add: session_crashes_def cong: conj_cong)
qed

lemma session_state:
  assumes "serial_ready hw COM1" and "keyboard_wf k" and "STATE k = modifier_state_new"
  shows "if session_crashes codes then rfold (parse_key hw up) codes k = Inl OutOfRange
     else \<exists>k'. rfold (parse_key hw up) codes k = Inr k' \<and> STATE k' = modifiers_after codes \<and> TTYS k' = TTYS k"
proof (induction codes rule: rev_induct)
  case Nil
  then show ?case
    using assms(3) by (simp add: session_crashes_def modifiers_after_def modifier_state_new_def key_pair_new_def held_def map_replicate_const del: upt_rec_numeral)
next
  case (snoc c codes)
  show ?case
  proof (cases "session_crashes codes")
    case False
    with snoc obtain k1 where k1: "rfold (parse_key hw up) codes k = Inr k1" "STATE k1 = modifiers_after codes" "TTYS k1 = TTYS k"
      by auto
    have wf: "keyboard_wf k1" using assms(2) k1 by (simp add: keyboard_wf_def modifiers_after_def)
    from key_step [OF assms(1) wf, of c up] key_crash [OF wf, of c hw up] False k1 show ?thesis
      by (auto simp: rfold_snoc modifiers_snoc session_crashes_snoc)
  qed (use snoc in \<open>simp add: rfold_snoc session_crashes_snoc\<close>)
qed


definition example_keyboard :: keyboard where
  "example_keyboard = \<lparr>trace = [], frame = replicate 25 (replicate 80 \<lparr>ascii_character = 0x20, char_color = ColorCode 7\<rparr>),
     SCREEN = screen_start, TTYS = Some ttys_start, STATE = modifier_state_new\<rparr>"

lemma example_keyboard_wf: "keyboard_wf example_keyboard" "STATE example_keyboard = modifier_state_new"
  by (simp_all add: keyboard_wf_def example_keyboard_def modifier_state_new_def ttys_start_def)

section \<open>Properties\<close>

text \<open>
  C23. The modifiers follow the keys. From the start state, take any scan codes, extended ones included. Unless one of
  them crashes the driver, it has returned each time and its state says exactly: the
  left and right shift, the left control and the left alt key are down when their last code was a
  press, caps lock is on after an odd number of presses; the right control and alt keys are never
  seen, scroll lock turns num lock on, and a function key that was ever touched counts as down for
  good. It panics exactly on a printing key with control down and no capitals in effect after some of F7 to F12
  were touched and none of F1 to F6: it then switches to a terminal that does not exist.
\<close>

theorem modifiers_tracked:
  assumes "serial_ready hw COM1" and "keyboard_wf k" and "STATE k = modifier_state_new"
  shows "if session_crashes codes then rfold (parse_key hw up) codes k = Inl OutOfRange
     else \<exists>k'. rfold (parse_key hw up) codes k = Inr k' \<and> STATE k' = modifiers_after codes"
  using session_state [OF assms, of codes up] by auto

lemma never_control: "0x1D \<notin> set codes \<Longrightarrow> \<not> held 0x1D codes"
proof -
  have "\<not> fold (track 0x1D) codes old" if "0x1D \<notin> set codes" "\<not> old" for old
    using that by (induction codes arbitrary: old) (auto simp: track_def)
  then show "0x1D \<notin> set codes \<Longrightarrow> \<not> held 0x1D codes" by (simp add: held_def)
qed

lemma no_control_no_crash:
  assumes "0x1D \<notin> set codes"
  shows "\<not> session_crashes codes"
proof -
  have "\<not> held 0x1D (take n codes)" for n using assms by (auto intro!: never_control dest: in_set_takeD)
  then show ?thesis by (simp add: session_crashes_def crashes_def is_pressed_def modifiers_after_def)
qed

lemma f7_crashes: "session_crashes [0x1D, 0x41, 0xC1, 0x1E]"
proof -
  have "get_key (ucast (0x1E :: u8)) = Inr (Some (LowerAscii 0x61))"
    by (simp add: get_key_def get_key_event_def match_scancode_def checked_sub_def rnth_def ascii_def)
  moreover have "modifiers_after [0x1D, 0x41, 0xC1] = modifier_state_new\<lparr>control := \<lparr>left = True, right = False\<rparr>,
      function_keys := [False, False, False, False, False, False, True, False, False, False, False, False]\<rparr>"
    by (simp add: modifiers_after_def modifier_state_new_def key_pair_new_def held_def track_def fkey_def upt_rec)
  moreover have "\<exists>i < 12. [False, False, False, False, False, False, True, False, False, False, False, False] ! i"
    "\<forall>i < 6. \<not> [False, False, False, False, False, False, True, False, False, False, False, False] ! i"
    by (intro exI [of _ 6]) (simp, auto simp: less_Suc_eq numeral_eq_Suc)
  ultimately have "crashes (modifiers_after [0x1D, 0x41, 0xC1]) 0x1E"
    by (simp add: crashes_def high_keys_only_def use_uppercase_letters_def is_pressed_def modifier_state_new_def key_pair_new_def)
  then show ?thesis by (auto simp: session_crashes_def intro!: exI [of _ 3])
qed

theorem modifiers_tracked_witness:
  "(\<exists>k'. rfold (parse_key (\<lambda>tr p. 0x20) us_map_to_upper) [0x2A, 0x1E, 0xAA, 0x3A, 0xE0, 0x41, 0xBB] example_keyboard = Inr k'
     \<and> \<not> left (shift (STATE k')) \<and> caps_lock (STATE k') \<and> \<not> right (control (STATE k')) \<and> function_keys (STATE k') ! 6)
   \<and> rfold (parse_key (\<lambda>tr p. 0x20) us_map_to_upper) [0x1D, 0x41, 0xC1, 0x1E] example_keyboard = Inl OutOfRange"
proof
  have n: "\<not> session_crashes [0x2A, 0x1E, 0xAA, 0x3A, 0xE0, 0x41, 0xBB]" by (rule no_control_no_crash) simp
  from n modifiers_tracked [OF example_serial_ready example_keyboard_wf, of "[0x2A, 0x1E, 0xAA, 0x3A, 0xE0, 0x41, 0xBB]" us_map_to_upper]
  show "\<exists>k'. rfold (parse_key (\<lambda>tr p. 0x20) us_map_to_upper) [0x2A, 0x1E, 0xAA, 0x3A, 0xE0, 0x41, 0xBB] example_keyboard = Inr k'
     \<and> \<not> left (shift (STATE k')) \<and> caps_lock (STATE k') \<and> \<not> right (control (STATE k')) \<and> function_keys (STATE k') ! 6"
    by (auto simp: modifiers_after_def held_def track_def fkey_def)
  from f7_crashes modifiers_tracked [OF example_serial_ready example_keyboard_wf, of "[0x1D, 0x41, 0xC1, 0x1E]" us_map_to_upper]
  show "rfold (parse_key (\<lambda>tr p. 0x20) us_map_to_upper) [0x1D, 0x41, 0xC1, 0x1E] example_keyboard = Inl OutOfRange" by simp
qed



text \<open>
  Extended keys are dropped: after the prefix \<open>0xE0\<close> or \<open>0xE1\<close> the driver reads one more byte
  from the controller and does nothing with it, whatever it is (the two bytes are combined with a
  shift by one bit, which gives no known code). The right control and alt keys, the arrows and
  the other keys of \<^verbatim>\<open>is_special_key\<close> have no effect.
\<close>

theorem extended_keys_dropped:
  assumes "c = 0xE0 \<or> c = 0xE1"
  shows "\<exists>v. parse_key hw up c k = Inr (k\<lparr>trace := trace k @ [In8 0x60 v]\<rparr>)"
  using parse_extended [OF assms, of hw up k]
  by (auto simp: ps2_read_char_def PS2_def ps2_new_def port8_read_def inb_def Let_def emit_def)

theorem extended_keys_dropped_witness:
  "\<exists>v. parse_key (\<lambda>tr p. 0x1D) us_map_to_upper 0xE0 example_keyboard = Inr (example_keyboard\<lparr>trace := [In8 0x60 v]\<rparr>)"
  using extended_keys_dropped [where c = "0xE0" and hw = "\<lambda>tr p. 0x1D" and up = us_map_to_upper and k = example_keyboard]
  by (simp add: example_keyboard_def)

end
