(* ===== verification/Pci.thy ===== *)
theory Pci
  imports Log
begin

text \<open>
  The PCI bus scan, \<^verbatim>\<open>device/pci.rs\<close>, with the AHCI base address of \<^verbatim>\<open>device/ahci/hba.rs\<close> it stores.
  The configuration space is behind two ports: an address is written to one and the register is
  read or written at the other. What the scan finds is reported on the serial port.
\<close>

section \<open>Configuration space\<close>

definition MAX_BUS :: nat where "MAX_BUS = 255"
definition MAX_DEVICE :: nat where "MAX_DEVICE = 31"
definition MAX_FUNCTION :: nat where "MAX_FUNCTION = 7"

record Pci =
  cfg_address :: Port
  cfg_data :: Port

definition PCI :: Pci where
  "PCI = \<lparr>cfg_address = Port 0xCF8, cfg_data = Port 0xCFC\<rparr>"

datatype DeviceClass =
    Legacy | MassStorage | Network | Display | Multimedia | Memory | BridgeDevice
  | SimpleCommunication | BaseSystemPeripheral | InputDevice | DockingStation | Processor
  | SerialBus | Wireless | IntelligentIO | SatelliteCommunication | EncryptionDecryption
  | DataAndSignalProcessing | UnknownClass

definition device_classes :: "DeviceClass list" where
  "device_classes = [Legacy, MassStorage, Network, Display, Multimedia, Memory, BridgeDevice,
     SimpleCommunication, BaseSystemPeripheral, InputDevice, DockingStation, Processor,
     SerialBus, Wireless, IntelligentIO, SatelliteCommunication, EncryptionDecryption,
     DataAndSignalProcessing]"

text \<open>The transmuted number is the position of the class in the enumeration.\<close>

definition from_u8 :: "u8 \<Rightarrow> DeviceClass" where
  "from_u8 c = (if c \<le> 0x11 then device_classes ! unat c else UnknownClass)"

record Device =
  dev_bus :: u8
  function_no :: u8
  device_no :: u8
  device_id :: u16
  vendor_id :: u16
  rev_id :: u8
  dev_subclass :: u8
  dev_class :: DeviceClass
  multifunction :: bool
  bars :: "u32 list"

definition read_config :: "hw \<Rightarrow> Pci \<Rightarrow> u8 \<Rightarrow> u8 \<Rightarrow> u8 \<Rightarrow> u8 \<Rightarrow> 'a io_scheme \<Rightarrow> u32 \<times> 'a io_scheme" where
  "read_config hw self b slot func offset s =
     (let address = 0x80000000 OR push_bit 16 (ucast b) OR push_bit 11 (ucast slot)
            OR push_bit 8 (ucast func) OR ucast (offset AND 0xFC);
          s = port32_write (cfg_address self) address s
      in port32_read hw (cfg_data self) s)"

definition probe :: "hw \<Rightarrow> Pci \<Rightarrow> u8 \<Rightarrow> u8 \<Rightarrow> u8 \<Rightarrow> 'a io_scheme \<Rightarrow> Device option \<times> 'a io_scheme" where
  "probe hw self b slot function s =
     (let (config_0, s) = read_config hw self b slot function 0 s in
      if config_0 = 0xFFFFFFFF then (None, s)
      else
        let (config_4, s) = read_config hw self b slot function 0x8 s;
            (config_c, s) = read_config hw self b slot function 0xC s in
        (Some \<lparr>dev_bus = b, function_no = function, device_no = slot,
           device_id = ucast (drop_bit 16 config_0), vendor_id = ucast config_0,
           rev_id = ucast config_4, dev_subclass = ucast (drop_bit 16 config_4),
           dev_class = from_u8 (ucast (drop_bit 24 config_4)),
           multifunction = config_c AND 0x800000 \<noteq> 0, bars = replicate 6 0\<rparr>, s))"

section \<open>Devices\<close>

definition device_address :: "Device \<Rightarrow> u32 \<Rightarrow> u32" where
  "device_address self offset =
     push_bit 31 1 OR push_bit 16 (ucast (dev_bus self)) OR push_bit 11 (ucast (device_no self))
       OR push_bit 8 (ucast (function_no self)) OR (offset AND 0xFC)"

definition device_read :: "hw \<Rightarrow> Device \<Rightarrow> u32 \<Rightarrow> 'a io_scheme \<Rightarrow> u32 \<times> 'a io_scheme" where
  "device_read hw self offset s =
     (let address = device_address self offset;
          s = port32_write (cfg_address PCI) address s
      in port32_read hw (cfg_data PCI) s)"

definition device_write :: "Device \<Rightarrow> u32 \<Rightarrow> u32 \<Rightarrow> 'a io_scheme \<Rightarrow> 'a io_scheme" where
  "device_write self offset v s =
     (let address = device_address self offset;
          s = port32_write (cfg_address PCI) address s
      in port32_write (cfg_data PCI) v s)"

definition set_flag :: "hw \<Rightarrow> Device \<Rightarrow> u32 \<Rightarrow> u32 \<Rightarrow> bool \<Rightarrow> 'a io_scheme \<Rightarrow> 'a io_scheme res" where
  "set_flag hw self offset flag toggle s =
     (let (v, s) = device_read hw self offset s in
      rbind (if toggle then Inr (v OR flag) else rbind (checked_sub 0xFFFFFFFF flag) (\<lambda>m. Inr (v AND m))) (\<lambda>v.
      Inr (device_write self offset v s)))"

definition load_bar :: "hw \<Rightarrow> nat \<Rightarrow> Device \<times> 'a io_scheme \<Rightarrow> (Device \<times> 'a io_scheme) res" where
  "load_bar hw i = (\<lambda>(self, s).
     let offset = of_nat i * 4 + 0x10;
         (bar, s) = device_read hw self offset s in
     if bar > 0 then
       rbind (rupdate (bars self) i bar) (\<lambda>bs.
       let self = self\<lparr>bars := bs\<rparr>;
           s = device_write self offset 0xFFFFFFFF s;
           (r, s) = device_read hw self offset s in
       rbind (checked_sub 0xFFFFFFFF (r AND 0xFFFFFFF0)) (\<lambda>m.
       rbind (checked_add m 1) (\<lambda>sz.
       let s = device_write self offset bar s in
       if sz > 0 then
         rbind (rupdate (bars self) i sz) (\<lambda>bs. Inr (self\<lparr>bars := bs\<rparr>, s))
       else Inr (self, s))))
     else Inr (self, s))"

definition load_bars :: "hw \<Rightarrow> Device \<Rightarrow> 'a io_scheme \<Rightarrow> (Device \<times> 'a io_scheme) res" where
  "load_bars hw self s = rfold (load_bar hw) [0 ..< 6] (self, s)"

definition device_bar :: "Device \<Rightarrow> nat \<Rightarrow> u32 res" where
  "device_bar self index = rnth (bars self) index"

section \<open>The scan\<close>

record pci = io +
  DEVICES :: "Device list"
  AHCI_BASE :: usize

text \<open>The device list is taken to get the memory it asks for; the masked accesses of the heap calls are not in the trace.\<close>

definition init_function :: "hw \<Rightarrow> u8 \<Rightarrow> u8 \<Rightarrow> nat \<Rightarrow> 'a pci_scheme \<Rightarrow> 'a pci_scheme res" where
  "init_function hw b dev func s =
     (let (device, s) = probe hw PCI b dev (of_nat func) s in
      case device of
        Some d \<Rightarrow> rbind (load_bars hw d s) (\<lambda>(d, s). Inr (s\<lparr>DEVICES := DEVICES s @ [d]\<rparr>))
      | None \<Rightarrow> Inr s)"

definition init_dev :: "hw \<Rightarrow> u8 \<Rightarrow> u8 \<Rightarrow> 'a pci_scheme \<Rightarrow> 'a pci_scheme res" where
  "init_dev hw b dev s = rfold (init_function hw b dev) [0 ..< MAX_FUNCTION] s"

definition init_bus :: "hw \<Rightarrow> u8 \<Rightarrow> 'a pci_scheme \<Rightarrow> 'a pci_scheme res" where
  "init_bus hw b s = rfold (\<lambda>dev. init_dev hw b (of_nat dev)) [0 ..< MAX_DEVICE] s"

definition identify :: "hw \<Rightarrow> Device \<Rightarrow> 'a pci_scheme \<Rightarrow> 'a pci_scheme res" where
  "identify hw dev s =
     (if dev_class dev = MassStorage \<and> dev_subclass dev = 0x06 then
        let (bar, s) = device_read hw dev 0x24 s;
            address = bar AND 0xFFFFFFF0;
            s = s\<lparr>AHCI_BASE := ucast address\<rparr> in
        println hw (''[ dev ] Found AHCI controller. Controller mapped at '' @ fmt_alternate_hex address) s
      else Inr s)"

definition pci_init :: "hw \<Rightarrow> 'a pci_scheme \<Rightarrow> 'a pci_scheme res" where
  "pci_init hw s =
     rbind (rfold (\<lambda>b. init_bus hw (of_nat b)) [0 ..< MAX_BUS] s) (\<lambda>s.
     rbind (println hw (''[ dev ] Discovered '' @ number_text 10 (length (DEVICES s)) @ '' PCI devices.'') s) (\<lambda>s.
     rfold (identify hw) (DEVICES s) s))"

section \<open>Devices as text\<close>

text \<open>The derived \<^verbatim>\<open>Debug\<close> of an enumeration gives the name of the variant.\<close>

fun class_debug :: "DeviceClass \<Rightarrow> string" where
  "class_debug Legacy = ''Legacy''"
| "class_debug MassStorage = ''MassStorage''"
| "class_debug Network = ''Network''"
| "class_debug Display = ''Display''"
| "class_debug Multimedia = ''Multimedia''"
| "class_debug Memory = ''Memory''"
| "class_debug BridgeDevice = ''BridgeDevice''"
| "class_debug SimpleCommunication = ''SimpleCommunication''"
| "class_debug BaseSystemPeripheral = ''BaseSystemPeripheral''"
| "class_debug InputDevice = ''InputDevice''"
| "class_debug DockingStation = ''DockingStation''"
| "class_debug Processor = ''Processor''"
| "class_debug SerialBus = ''SerialBus''"
| "class_debug Wireless = ''Wireless''"
| "class_debug IntelligentIO = ''IntelligentIO''"
| "class_debug SatelliteCommunication = ''SatelliteCommunication''"
| "class_debug EncryptionDecryption = ''EncryptionDecryption''"
| "class_debug DataAndSignalProcessing = ''DataAndSignalProcessing''"
| "class_debug UnknownClass = ''Unknown''"

definition device_fmt :: "Device \<Rightarrow> string" where
  "device_fmt self = fmt_display (dev_bus self) @ ''.'' @ fmt_display (device_no self) @ ''.'' @ fmt_display (function_no self)
     @ '': 0x'' @ fmt_padded_hex 4 (vendor_id self) @ '' 0x'' @ fmt_padded_hex 4 (device_id self) @ '' ''
     @ class_debug (dev_class self) @ '' '' @ fmt_padded_hex 2 (dev_subclass self)"

section \<open>Addresses of the configuration space\<close>

definition config_address :: "u8 \<Rightarrow> u8 \<Rightarrow> u8 \<Rightarrow> u32 \<Rightarrow> u32" where
  "config_address b dev func offset =
     push_bit 31 1 OR push_bit 16 (ucast b) OR push_bit 11 (ucast dev) OR push_bit 8 (ucast func) OR (offset AND 0xFC)"

lemma device_address_eq: "device_address d offset = config_address (dev_bus d) (device_no d) (function_no d) offset"
  by (simp add: device_address_def config_address_def)

text \<open>The bits of the masks.\<close>

lemma mask_bits:
  "bit (0x1F :: int) n \<longleftrightarrow> n < 5" "bit (7 :: int) n \<longleftrightarrow> n < 3" "bit (0xFC :: int) n \<longleftrightarrow> 2 \<le> n \<and> n < 8"
  "bit (0x80000000 :: int) n \<longleftrightarrow> n = 31"
proof -
  have e: "(0x1F :: int) = mask 5" "(7 :: int) = mask 3" "(0xFC :: int) = push_bit 2 (mask 6)"
    "(0x80000000 :: int) = 2 ^ 31"
    by (simp_all add: mask_eq_exp_minus_1)
  show "bit (0x1F :: int) n \<longleftrightarrow> n < 5" "bit (7 :: int) n \<longleftrightarrow> n < 3" unfolding e by (simp_all add: bit_mask_iff)
  show "bit (0xFC :: int) n \<longleftrightarrow> 2 \<le> n \<and> n < 8" unfolding e by (auto simp: bit_push_bit_iff bit_mask_iff)
  show "bit (0x80000000 :: int) n \<longleftrightarrow> n = 31" unfolding e bit_exp_iff by auto
qed

lemma ucast_offset: "ucast ((offset :: u8) AND 0xFC) = (ucast offset :: u32) AND 0xFC"
  by (rule bit_word_eqI) (auto simp: bit_simps mask_bits)

lemma read_config_eq:
  "read_config hw PCI b slot func offset s =
     (let s = outl (config_address b slot func (ucast offset)) 0xCF8 s in inl hw 0xCFC s)"
  by (simp add: read_config_def PCI_def port_defs config_address_def ucast_offset Let_def)

text \<open>An address read as its fields.\<close>

definition address_fields :: "u32 \<Rightarrow> u8 \<times> u8 \<times> u8 \<times> u32" where
  "address_fields a = (ucast (drop_bit 16 a), ucast (drop_bit 11 a AND 0x1F), ucast (drop_bit 8 a AND 7), a AND 0xFC)"

lemma bit_small:
  assumes "unat (w :: u8) < 2 ^ k" and "k \<le> n"
  shows "\<not> bit w n"
proof
  assume "bit w n"
  then have "bit (unat w) n" by (simp add: bit_unsigned_iff)
  moreover have "take_bit k (unat w) = unat w" using assms(1) by (simp add: take_bit_nat_eq_self_iff)
  ultimately have "bit (take_bit k (unat w)) n" by simp
  with assms(2) show False by (simp only: bit_take_bit_iff) simp
qed

text \<open>A device number has five bits, a function number three.\<close>

definition slot_ok :: "u8 \<Rightarrow> u8 \<Rightarrow> bool" where
  "slot_ok dev func \<longleftrightarrow> dev < 32 \<and> func < 8"

lemma slot_bits:
  assumes "slot_ok dev func"
  shows "5 \<le> n \<Longrightarrow> \<not> bit dev n" "3 \<le> n \<Longrightarrow> \<not> bit func n"
  using assms bit_small [of dev 5 n] bit_small [of func 3 n] by (simp_all add: slot_ok_def word_less_nat_alt)

lemma config_address_bit:
  assumes "slot_ok dev func"
  shows "bit (config_address b dev func offset) n \<longleftrightarrow> n = 31 \<or> (16 \<le> n \<and> n < 24 \<and> bit b (n - 16))
     \<or> (11 \<le> n \<and> n < 16 \<and> bit dev (n - 11)) \<or> (8 \<le> n \<and> n < 11 \<and> bit func (n - 8)) \<or> (2 \<le> n \<and> n < 8 \<and> bit offset n)"
    (is "_ \<longleftrightarrow> ?R")
proof -
  have b: "\<not> bit b n" if "8 \<le> n" for n using that by (simp add: bit_word.rep_eq)
  have "bit (push_bit 31 1 :: u32) n \<longleftrightarrow> n = 31" by (auto simp: bit_simps mask_bits)
  moreover have "bit (push_bit 16 (ucast b) :: u32) n \<longleftrightarrow> 16 \<le> n \<and> n < 24 \<and> bit b (n - 16)"
    using b [of "n - 16"] by (cases "n < 24") (auto simp: bit_simps)
  moreover have "bit (push_bit 11 (ucast dev) :: u32) n \<longleftrightarrow> 11 \<le> n \<and> n < 16 \<and> bit dev (n - 11)"
    using slot_bits(1) [OF assms, of "n - 11"] by (cases "n < 16") (auto simp: bit_simps)
  moreover have "bit (push_bit 8 (ucast func) :: u32) n \<longleftrightarrow> 8 \<le> n \<and> n < 11 \<and> bit func (n - 8)"
    using slot_bits(2) [OF assms, of "n - 8"] by (cases "n < 11") (auto simp: bit_simps)
  moreover have "bit (offset AND 0xFC) n \<longleftrightarrow> 2 \<le> n \<and> n < 8 \<and> bit offset n" by (auto simp: bit_simps mask_bits)
  ultimately show ?thesis unfolding config_address_def bit_or_iff by blast
qed

lemma address_fields_config:
  assumes "slot_ok dev func"
  shows "address_fields (config_address b dev func offset) = (b, dev, func, offset AND 0xFC)"
proof -
  note a = config_address_bit [OF assms] slot_bits [OF assms]
  have "ucast (drop_bit 16 (config_address b dev func offset)) = b"
    by (rule bit_word_eqI) (auto simp: bit_simps a(1))
  moreover have "ucast (drop_bit 11 (config_address b dev func offset) AND 0x1F) = dev"
  proof (rule bit_word_eqI)
    fix n
    show "bit (ucast (drop_bit 11 (config_address b dev func offset) AND 0x1F) :: u8) n \<longleftrightarrow> bit dev n" if "n < LENGTH(8)"
      using a(2) [of n] that by (cases "n < 5") (auto simp: bit_simps mask_bits a(1))
  qed
  moreover have "ucast (drop_bit 8 (config_address b dev func offset) AND 7) = func"
  proof (rule bit_word_eqI)
    fix n
    show "bit (ucast (drop_bit 8 (config_address b dev func offset) AND 7) :: u8) n \<longleftrightarrow> bit func n" if "n < LENGTH(8)"
      using a(3) [of n] that by (cases "n < 3") (auto simp: bit_simps mask_bits a(1))
  qed
  moreover have "config_address b dev func offset AND 0xFC = offset AND 0xFC"
    by (rule bit_word_eqI) (auto simp: bit_simps mask_bits a(1))
  ultimately show ?thesis by (simp add: address_fields_def)
qed

section \<open>Base address registers\<close>

lemma device_read_eq:
  "device_read hw d offset s =
     (let a = device_address d offset; v = hw (trace s @ [Out32 0xCF8 a]) 0xCFC in
      (v, s\<lparr>trace := trace s @ [Out32 0xCF8 a, In32 0xCFC v]\<rparr>))"
  by (simp add: device_read_def PCI_def port_defs Let_def emit_def)

lemma device_write_eq:
  "device_write d offset v s = s\<lparr>trace := trace s @ [Out32 0xCF8 (device_address d offset), Out32 0xCFC v]\<rparr>"
  by (simp add: device_write_def PCI_def port_defs Let_def emit_def)

lemma device_address_bars [simp]: "device_address (d\<lparr>bars := bs\<rparr>) = device_address d"
  by (rule ext) (simp add: device_address_def)

text \<open>The accesses \<^verbatim>\<open>load_bars\<close> makes to size a register that held \<open>v\<close>.\<close>

definition sizing :: "u32 \<Rightarrow> u32 \<Rightarrow> io_event list" where
  "sizing a v = [Out32 0xCF8 a, In32 0xCFC v, Out32 0xCF8 a, Out32 0xCFC 0xFFFFFFFF, Out32 0xCF8 a]"

lemma bar_size:
  "rbind (checked_sub 0xFFFFFFFF x) (\<lambda>m. checked_add m 1) = (if x = 0 then Inl Overflow else Inr (- (x :: u32)))"
proof -
  have m: "(0xFFFFFFFF :: u32) = - 1" by simp
  have "checked_sub (0xFFFFFFFF :: u32) x = Inr (- 1 - x)" unfolding m by (simp add: checked_sub_def)
  moreover have "- 1 - x = - 1 \<longleftrightarrow> x = 0" by (simp add: algebra_simps)
  ultimately show ?thesis by (simp add: checked_add_one)
qed

definition bar_address :: "Device \<Rightarrow> nat \<Rightarrow> u32" where
  "bar_address d i = device_address d (of_nat i * 4 + 0x10)"

lemma load_bar_eq:
  assumes "i < length (bars d)"
  shows "load_bar hw i (d, s) =
    (let v = hw (trace s @ [Out32 0xCF8 (bar_address d i)]) 0xCFC;
         w = hw (trace s @ sizing (bar_address d i) v) 0xCFC; r = w AND 0xFFFFFFF0 in
     if v = 0 then Inr (d, s\<lparr>trace := trace s @ [Out32 0xCF8 (bar_address d i), In32 0xCFC v]\<rparr>)
     else if r = 0 then Inl Overflow
     else Inr (d\<lparr>bars := (bars d)[i := - r]\<rparr>,
       s\<lparr>trace := trace s @ sizing (bar_address d i) v @ [In32 0xCFC w, Out32 0xCF8 (bar_address d i), Out32 0xCFC v]\<rparr>))"
proof -
  have b: "rbind (checked_sub 0xFFFFFFFF x) (\<lambda>m. rbind (checked_add m 1) g)
      = rbind (if x = 0 then Inl Overflow else Inr (- (x :: u32))) g" for x g
    unfolding bar_size [symmetric] by (simp add: res_simps)
  have z: "(- (x :: u32) > 0) \<longleftrightarrow> x \<noteq> 0" for x by (simp add: word_gt_0)
  show ?thesis
    using assms
    by (simp add: load_bar_def device_read_eq device_write_eq Let_def b rupdate_def sizing_def bar_address_def z word_gt_0)
qed

section \<open>The scan\<close>

text \<open>
  The hardware as the scan expects it: the first four registers of a function read as fixed
  values (all ones when there is no such function), and a base address register that is not zero
  reports address bits when it is sized.
\<close>

definition config_space :: "hw \<Rightarrow> (u32 \<Rightarrow> u32) \<Rightarrow> bool" where
  "config_space hw cfg \<longleftrightarrow> (\<forall>tr a. a AND 0xFC < 0x10 \<longrightarrow> hw (tr @ [Out32 0xCF8 a]) 0xCFC = cfg a)"

definition sizes_bars :: "hw \<Rightarrow> bool" where
  "sizes_bars hw \<longleftrightarrow> (\<forall>tr a v. v \<noteq> 0 \<longrightarrow> hw (tr @ sizing a v) 0xCFC AND 0xFFFFFFF0 \<noteq> 0)"

definition device_at :: "(u32 \<Rightarrow> u32) \<Rightarrow> u8 \<Rightarrow> u8 \<Rightarrow> u8 \<Rightarrow> Device option" where
  "device_at cfg b dev func =
     (let c0 = cfg (config_address b dev func 0); c8 = cfg (config_address b dev func 8);
          cC = cfg (config_address b dev func 0xC) in
      if c0 = 0xFFFFFFFF then None
      else Some \<lparr>dev_bus = b, function_no = func, device_no = dev, device_id = ucast (drop_bit 16 c0), vendor_id = ucast c0,
        rev_id = ucast c8, dev_subclass = ucast (drop_bit 16 c8), dev_class = from_u8 (ucast (drop_bit 24 c8)),
        multifunction = cC AND 0x800000 \<noteq> 0, bars = replicate 6 0\<rparr>)"

definition no_bars :: "Device \<Rightarrow> Device" where
  "no_bars d = d\<lparr>bars := replicate 6 0\<rparr>"

lemma read_config_at:
  assumes "config_space hw cfg" and "slot_ok dev func" and "offset < 0x10"
  shows "\<exists>es. read_config hw PCI b dev func offset s = (cfg (config_address b dev func (ucast offset)), s\<lparr>trace := trace s @ es\<rparr>)"
proof -
  let ?a = "config_address b dev func (ucast offset)"
  have u: "unat offset < 16" using assms(3) by (simp add: word_less_nat_alt)
  have "?a AND 0xFC = (ucast offset :: u32) AND 0xFC"
    using address_fields_config [OF assms(2), of b "ucast offset"] by (simp add: address_fields_def)
  also have "\<dots> \<le> ucast offset" by (rule word_and_le2)
  also have "\<dots> < 0x10" using u by (simp add: word_less_nat_alt unsigned_ucast_eq take_bit_nat_eq_self)
  finally have "hw (trace s @ [Out32 0xCF8 ?a]) 0xCFC = cfg ?a" using assms(1) by (simp add: config_space_def)
  then show ?thesis by (auto simp: read_config_eq outl_def inl_def emit_def Let_def)
qed

lemma probe_at:
  assumes "config_space hw cfg" and "slot_ok dev func"
  shows "\<exists>es. probe hw PCI b dev func s = (device_at cfg b dev func, s\<lparr>trace := trace s @ es\<rparr>)"
proof -
  note rd = read_config_at [OF assms]
  obtain es0 where r0: "read_config hw PCI b dev func 0 s = (cfg (config_address b dev func 0), s\<lparr>trace := trace s @ es0\<rparr>)"
    using rd [where offset = 0 and s = s and b = b] by auto
  let ?s0 = "s\<lparr>trace := trace s @ es0\<rparr>"
  obtain es8 where r8: "read_config hw PCI b dev func 8 ?s0 = (cfg (config_address b dev func 8), ?s0\<lparr>trace := trace ?s0 @ es8\<rparr>)"
    using rd [where offset = 8 and s = ?s0 and b = b] by auto
  let ?s8 = "?s0\<lparr>trace := trace ?s0 @ es8\<rparr>"
  obtain esC where rC: "read_config hw PCI b dev func 0xC ?s8 = (cfg (config_address b dev func 0xC), ?s8\<lparr>trace := trace ?s8 @ esC\<rparr>)"
    using rd [where offset = "0xC" and s = ?s8 and b = b] by auto
  show ?thesis using r0 r8 rC by (auto simp: probe_def device_at_def Let_def)
qed

lemma load_bars_ok:
  assumes "sizes_bars hw" and "length (bars d) = 6"
  shows "\<exists>d' es. load_bars hw d s = Inr (d', s\<lparr>trace := trace s @ es\<rparr>) \<and> no_bars d' = no_bars d"
proof -
  let ?I = "\<lambda>(d', s'). length (bars d') = 6 \<and> no_bars d' = no_bars d \<and> (\<exists>es. s' = s\<lparr>trace := trace s @ es\<rparr>)"
  have "\<exists>y. load_bar hw i x = Inr y \<and> ?I y" if "i \<in> set [0 ..< 6]" and "?I x" for i x
  proof -
    obtain d' s' where x: "x = (d', s')" by (cases x)
    with that have i: "i < length (bars d')" by (auto simp del: upt_rec_numeral)
    have "v \<noteq> 0 \<Longrightarrow> hw (trace s' @ sizing (bar_address d' i) v) 0xCFC AND 0xFFFFFFF0 \<noteq> 0" for v
      using assms(1) by (simp add: sizes_bars_def)
    with that(2) x show ?thesis
      by (auto simp: load_bar_eq [OF i] Let_def no_bars_def)
  qed
  moreover have "\<exists>es. s = s\<lparr>trace := trace s @ es\<rparr>" by (intro exI [of _ "[]"]) simp
  ultimately have "\<exists>y. rfold (load_bar hw) [0 ..< 6] (d, s) = Inr y \<and> ?I y"
    using assms(2) by (intro rfold_total [where I = ?I]) auto
  then show ?thesis by (auto simp: load_bars_def simp del: upt_rec_numeral)
qed

definition found_at :: "(u32 \<Rightarrow> u32) \<Rightarrow> u8 \<Rightarrow> u8 \<Rightarrow> u8 \<Rightarrow> Device list" where
  "found_at cfg b dev func = (case device_at cfg b dev func of None \<Rightarrow> [] | Some d \<Rightarrow> [d])"

definition listed :: "'a pci_scheme \<Rightarrow> Device list" where
  "listed s = map no_bars (DEVICES s)"

lemma device_at_bars: "device_at cfg b dev func = Some d \<Longrightarrow> no_bars d = d \<and> length (bars d) = 6"
  by (auto simp: device_at_def no_bars_def Let_def split: if_splits)

lemma init_function_finds:
  assumes space: "config_space hw cfg" and sizes: "sizes_bars hw" and slot: "slot_ok dev (of_nat func)"
  shows "\<exists>s'. init_function hw b dev func s = Inr s' \<and> listed s' = listed s @ found_at cfg b dev (of_nat func)"
proof -
  obtain es where p: "probe hw PCI b dev (of_nat func) s = (device_at cfg b dev (of_nat func), s\<lparr>trace := trace s @ es\<rparr>)"
    using probe_at [OF space slot] by blast
  show ?thesis
  proof (cases "device_at cfg b dev (of_nat func)")
    case None
    with p show ?thesis by (simp add: init_function_def found_at_def listed_def)
  next
    case (Some d)
    from load_bars_ok [OF sizes, of d "s\<lparr>trace := trace s @ es\<rparr>"] device_at_bars [OF Some]
    obtain d' es' where "load_bars hw d (s\<lparr>trace := trace s @ es\<rparr>) = Inr (d', s\<lparr>trace := trace s @ es'\<rparr>)" "no_bars d' = d"
      by auto
    with p Some show ?thesis by (simp add: init_function_def found_at_def listed_def)
  qed
qed

lemma init_dev_finds:
  assumes "config_space hw cfg" and "sizes_bars hw" and "dev < 31"
  shows "\<exists>s'. init_dev hw b (of_nat dev) s = Inr s'
     \<and> listed s' = listed s @ concat (map (\<lambda>func. found_at cfg b (of_nat dev) (of_nat func)) [0 ..< 7])"
  unfolding init_dev_def MAX_FUNCTION_def
proof (rule rfold_concat)
  fix func and s :: "'a pci_scheme"
  assume "func \<in> set [0 ..< 7]"
  then have "slot_ok (of_nat dev) (of_nat func)"
    using assms(3) by (simp add: slot_ok_def word_less_nat_alt unat_of_nat)
  with assms(1,2)
  show "\<exists>s'. init_function hw b (of_nat dev) func s = Inr s' \<and> listed s' = listed s @ found_at cfg b (of_nat dev) (of_nat func)"
    by (rule init_function_finds)
qed

definition found_on :: "(u32 \<Rightarrow> u32) \<Rightarrow> nat \<Rightarrow> Device list" where
  "found_on cfg b = concat (map (\<lambda>dev. concat (map (\<lambda>func.
     found_at cfg (of_nat b) (of_nat dev) (of_nat func)) [0 ..< 7])) [0 ..< 31])"

lemma init_bus_finds:
  assumes "config_space hw cfg" and "sizes_bars hw"
  shows "\<exists>s'. init_bus hw (of_nat b) s = Inr s' \<and> listed s' = listed s @ found_on cfg b"
  unfolding init_bus_def MAX_DEVICE_def found_on_def
  by (rule rfold_concat, rule init_dev_finds [OF assms]) (simp del: upt_rec_numeral)

lemma pci_more:
  assumes "io.more s' = io.more (s :: 'a pci_scheme)"
  shows "DEVICES s' = DEVICES s" "AHCI_BASE s' = AHCI_BASE s"
  using assms by (cases s, cases s', simp)+

lemma identify_ok:
  assumes "serial_ready hw COM1"
  shows "\<exists>s'. identify hw d s = Inr s' \<and> DEVICES s' = DEVICES s"
proof -
  let ?s = "snd (device_read hw d 0x24 s)" and ?a = "fst (device_read hw d 0x24 s) AND 0xFFFFFFF0"
  obtain s' where s': "println hw (''[ dev ] Found AHCI controller. Controller mapped at '' @ fmt_alternate_hex ?a)
      (?s\<lparr>AHCI_BASE := ucast ?a\<rparr>) = Inr s'" "printed (?s\<lparr>AHCI_BASE := ucast ?a\<rparr>) s'"
    by (rule println_printed [OF assms])
  have "DEVICES s' = DEVICES s" using pci_more(1) [OF printed_more [OF s'(2)]] by (simp add: device_read_eq Let_def)
  with s'(1) show ?thesis by (auto simp: identify_def case_prod_beta Let_def)
qed

lemma identify_all_ok:
  assumes "serial_ready hw COM1"
  shows "\<exists>s'. rfold (identify hw) ds s = Inr s' \<and> DEVICES s' = DEVICES s"
proof (induction ds arbitrary: s)
  case (Cons d ds)
  obtain s1 where "identify hw d s = Inr s1" "DEVICES s1 = DEVICES s" using identify_ok [OF assms] by blast
  with Cons.IH [of s1] show ?case by auto
qed simp

lemma pci_init_scans:
  assumes "config_space hw cfg" and "sizes_bars hw" and "serial_ready hw COM1"
  shows "\<exists>s'. pci_init hw s = Inr s' \<and> listed s' = listed s @ concat (map (found_on cfg) [0 ..< 255])"
proof -
  have "\<exists>s'. rfold (\<lambda>b. init_bus hw (of_nat b)) [0 ..< MAX_BUS] s = Inr s'
      \<and> listed s' = listed s @ concat (map (found_on cfg) [0 ..< 255])"
    unfolding MAX_BUS_def by (rule rfold_concat, rule init_bus_finds [OF assms(1,2)])
  then obtain s1 where s1: "rfold (\<lambda>b. init_bus hw (of_nat b)) [0 ..< MAX_BUS] s = Inr s1"
    "listed s1 = listed s @ concat (map (found_on cfg) [0 ..< 255])" by blast
  obtain s2 where s2: "println hw (''[ dev ] Discovered '' @ number_text 10 (length (DEVICES s1)) @ '' PCI devices.'') s1 = Inr s2"
    "printed s1 s2" by (rule println_printed [OF assms(3)])
  obtain s3 where s3: "rfold (identify hw) (DEVICES s2) s2 = Inr s3" "DEVICES s3 = DEVICES s2"
    using identify_all_ok [OF assms(3)] by blast
  have "DEVICES s3 = DEVICES s1" using s3(2) pci_more(1) [OF printed_more [OF s2(2)]] by simp
  then have "listed s3 = listed s1" by (simp add: listed_def)
  moreover have "pci_init hw s = Inr s3" using s1(1) s2(1) s3(1) by (simp add: pci_init_def)
  ultimately show ?thesis using s1(2) by auto
qed

text \<open>A bus with one device: a disk controller at device 3, function 0 of bus 0.\<close>

definition example_cfg :: "u32 \<Rightarrow> u32" where
  "example_cfg a = (if a = 0x80001800 then 0x29228086 else if a = 0x80001808 then 0x01060102
     else if a AND 0xFC < 0x10 then 0xFFFFFFFF else 0)"

definition example_bus :: hw where
  "example_bus tr p = (if p = 0x3fd then 0x20 else case rev tr of
     Out32 q a # Out32 q' v # _ \<Rightarrow> if a AND 0xFC < 0x10 then example_cfg a else if v = 0xFFFFFFFF then 0xFFFFF000 else example_cfg a
   | Out32 q a # _ \<Rightarrow> example_cfg a | _ \<Rightarrow> 0)"

lemma example_bus_ok: "config_space example_bus example_cfg" "sizes_bars example_bus" "serial_ready example_bus COM1"
proof -
  show "config_space example_bus example_cfg"
    unfolding config_space_def
  proof (intro allI impI)
    fix tr and a :: u32
    assume "a AND 0xFC < 0x10"
    then show "example_bus (tr @ [Out32 0xCF8 a]) 0xCFC = example_cfg a"
      by (cases "rev tr") (simp_all add: example_bus_def split: io_event.splits)
  qed
  have "example_cfg a AND 0xFFFFFFF0 \<noteq> 0" if "a AND 0xFC < 0x10" for a
    using that by (simp add: example_cfg_def)
  then show "sizes_bars example_bus" by (simp add: sizes_bars_def sizing_def example_bus_def)
  show "serial_ready example_bus COM1"
    by (auto simp: serial_ready_def comes_on_def example_bus_def intro!: exI [of _ 0])
qed

definition example_pci :: pci where
  "example_pci = \<lparr>trace = [], DEVICES = [], AHCI_BASE = 0\<rparr>"

definition example_device :: Device where
  "example_device = \<lparr>dev_bus = 1, function_no = 2, device_no = 3, device_id = 0, vendor_id = 0, rev_id = 0, dev_subclass = 0,
     dev_class = Legacy, multifunction = False, bars = replicate 6 0\<rparr>"

section \<open>Properties\<close>

text \<open>
  C24. The scan finds the devices: on hardware that answers as a configuration space, with an empty
  list and a serial port that is ready, \<^verbatim>\<open>init\<close> returns and the list holds, in the order of the scan, exactly the functions that are
  present with a bus number below 255, a device number below 31 and a function number below 7
  (compared without the base address registers). The last bus, the last device of a bus and the
  last function of a device are never looked at.
\<close>

theorem pci_init_finds_devices:
  assumes "config_space hw cfg" and "sizes_bars hw" and "serial_ready hw COM1" and "DEVICES s = []"
  shows "\<exists>s'. pci_init hw s = Inr s' \<and> map no_bars (DEVICES s') = concat (map (\<lambda>b. concat (map (\<lambda>dev. concat (map (\<lambda>func.
     found_at cfg (of_nat b) (of_nat dev) (of_nat func)) [0 ..< 7])) [0 ..< 31])) [0 ..< 255])"
  using pci_init_scans [OF assms(1-3), of s] assms(4) by (simp add: listed_def found_on_def [abs_def] del: upt_rec_numeral)

theorem pci_init_finds_devices_witness:
  "\<exists>s'. pci_init example_bus example_pci = Inr s' \<and> (\<exists>d \<in> set (DEVICES s'). vendor_id d = 0x8086 \<and> device_no d = 3)"
proof -
  from pci_init_finds_devices [OF example_bus_ok, of example_pci] obtain s' where
    s': "pci_init example_bus example_pci = Inr s'" and l: "map no_bars (DEVICES s') = concat (map (\<lambda>b. concat (map (\<lambda>dev.
      concat (map (\<lambda>func. found_at example_cfg (of_nat b) (of_nat dev) (of_nat func)) [0 ..< 7])) [0 ..< 31])) [0 ..< 255])"
    by (auto simp: example_pci_def simp del: upt_rec_numeral)
  let ?L = "\<lambda>b dev func. found_at example_cfg (of_nat b) (of_nat dev) (of_nat func)"
  obtain d where d: "device_at example_cfg 0 3 0 = Some d" "vendor_id d = 0x8086" "device_no d = 3"
    by (simp add: device_at_def config_address_def example_cfg_def)
  then have "d \<in> set (?L 0 3 0)" by (simp add: found_at_def)
  then have "\<exists>b \<in> {0 ..< 255}. \<exists>dev \<in> {0 ..< 31}. \<exists>func \<in> {0 ..< 7}. d \<in> set (?L b dev func)"
    by (intro bexI [of _ "0 :: nat"] bexI [of _ "3 :: nat"]) simp_all
  then have "d \<in> set (map no_bars (DEVICES s'))"
    unfolding l by (simp del: upt_rec_numeral)
  then obtain e where "e \<in> set (DEVICES s')" "no_bars e = d" by auto
  with d have "vendor_id e = 0x8086" "device_no e = 3" by (auto simp: no_bars_def)
  with s' \<open>e \<in> set (DEVICES s')\<close> show ?thesis by blast
qed

text \<open>
  A configuration address holds its fields: for a device number below 32 and a function number
  below 8, bus, device, function and the aligned offset are read back from the address the driver
  writes, so two different registers have different addresses; \<^verbatim>\<open>read_config\<close> and \<^verbatim>\<open>Device::read\<close> use
  the same address.
\<close>

theorem device_address_roundtrip:
  assumes "device_no d < 32" and "function_no d < 8"
  shows "address_fields (device_address d offset) = (dev_bus d, device_no d, function_no d, offset AND 0xFC)
     \<and> device_read hw d (ucast (off :: u8)) s = read_config hw PCI (dev_bus d) (device_no d) (function_no d) off s"
  using assms address_fields_config
  by (simp_all add: device_address_eq slot_ok_def read_config_eq device_read_eq outl_def inl_def Let_def emit_def)

theorem device_address_roundtrip_witness: "address_fields (device_address example_device 0x11) = (1, 3, 2, 0x10)"
  using device_address_roundtrip [where d = example_device and offset = "0x11" and off = 0 and hw = "\<lambda>_ _. 0" and s = "\<lparr>trace = []\<rparr>"]
  by (simp add: example_device_def)

text \<open>
  \<^verbatim>\<open>load_bars\<close> on one register: a register that reads 0 is skipped. Otherwise it is sized and the
  old value is written back; the list then holds the size of the region and not the base address
  read before. When the sized register reports no address bits the driver panics with an
  overflow.
\<close>

theorem load_bar_stores_size:
  assumes "i < length (bars d)"
  shows "load_bar hw i (d, s) =
    (let v = hw (trace s @ [Out32 0xCF8 (bar_address d i)]) 0xCFC;
         w = hw (trace s @ sizing (bar_address d i) v) 0xCFC; r = w AND 0xFFFFFFF0 in
     if v = 0 then Inr (d, s\<lparr>trace := trace s @ [Out32 0xCF8 (bar_address d i), In32 0xCFC v]\<rparr>)
     else if r = 0 then Inl Overflow
     else Inr (d\<lparr>bars := (bars d)[i := - r]\<rparr>,
       s\<lparr>trace := trace s @ sizing (bar_address d i) v @ [In32 0xCFC w, Out32 0xCF8 (bar_address d i), Out32 0xCFC v]\<rparr>))"
  using assms by (rule load_bar_eq)

theorem load_bar_stores_size_witness:
  "load_bar example_bus 0 (example_device, \<lparr>trace = []\<rparr>)
     = Inr (example_device, \<lparr>trace = [Out32 0xCF8 0x80011A10, In32 0xCFC 0]\<rparr>)"
  using load_bar_stores_size [of 0 example_device example_bus "\<lparr>trace = []\<rparr>"]
  by (simp add: example_device_def bar_address_def device_address_def example_bus_def example_cfg_def)

end
