(* ===== verification/Boot.thy ===== *)
theory Boot
  imports Kernel Keyboard Pci
begin

text \<open>
  Start-up and the parts that need the whole machine: \<^verbatim>\<open>arch/x86_64/init.rs\<close>, \<^verbatim>\<open>device/mod.rs\<close>,
  \<^verbatim>\<open>kmain\<close> of \<^verbatim>\<open>lib.rs\<close>, the keyboard interrupt of \<^verbatim>\<open>irq.rs\<close> and the allocator wrapper of
  \<^verbatim>\<open>heap_allocator.rs\<close>. A \<open>machine\<close> is the console and the keyboard with the other statics; the
  components that have a state of their own run on their part of it (\<open>as_platform\<close>, \<open>as_pci\<close>) and
  share one trace of accesses, in which the messages appear as well.
\<close>

section \<open>The machine\<close>

record machine = keyboard +
  com1 :: SerialPort
  memory :: vm
  apic :: "ApicManager option"
  cpus :: usize
  devices :: "Device list"
  ahci :: usize
  EFER :: u64
  CR0 :: u64
  tables :: "cpu_tables option"

definition as_platform :: "machine \<Rightarrow> platform" where
  "as_platform m = \<lparr>trace = trace m, pvm = memory m, APIC_MANAGER = apic m, CPUS = cpus m\<rparr>"

definition put_platform :: "platform \<Rightarrow> machine \<Rightarrow> machine" where
  "put_platform p m = m\<lparr>trace := trace p, memory := pvm p, apic := APIC_MANAGER p, cpus := CPUS p\<rparr>"

definition as_pci :: "machine \<Rightarrow> pci" where
  "as_pci m = \<lparr>trace = trace m, DEVICES = devices m, AHCI_BASE = ahci m\<rparr>"

definition put_pci :: "pci \<Rightarrow> machine \<Rightarrow> machine" where
  "put_pci p m = m\<lparr>trace := trace p, devices := DEVICES p, ahci := AHCI_BASE p\<rparr>"

section \<open>Start-up\<close>

definition enable_nxe_bit :: "machine \<Rightarrow> machine" where
  "enable_nxe_bit m = (let nxe_bit = push_bit 11 1; efer = EFER m in m\<lparr>EFER := efer OR nxe_bit\<rparr>)"

text \<open>Bit 16 of the register is its write protect flag.\<close>

definition WRITE_PROTECT :: u64 where "WRITE_PROTECT = push_bit 16 1"

definition enable_write_protect_bit :: "machine \<Rightarrow> machine" where
  "enable_write_protect_bit m = m\<lparr>CR0 := CR0 m OR WRITE_PROTECT\<rparr>"

definition serial_init :: "machine \<Rightarrow> machine res" where
  "serial_init m = rbind (serial_do_init (com1 m) m) (\<lambda>(c, m). Inr (m\<lparr>com1 := c\<rparr>))"

definition vga_init :: "machine \<Rightarrow> machine" where
  "vga_init m = tty_init m"

definition device_init :: "hw \<Rightarrow> machine \<Rightarrow> machine res" where
  "device_init hw m =
     (let m = vga_init m in
      rbind (pit_init hw m) (\<lambda>m.
      rbind (ps2_init hw PS2 m) (\<lambda>m.
      rbind (pci_init hw (as_pci m)) (\<lambda>p. Inr (put_pci p m)))))"

text \<open>
  What start-up is given: the firmware and processor facts \<open>acpi\<close>, the crates' bit functions and
  the size and place of the task state segment and the place of the descriptor table, and the boot information \<^verbatim>\<open>multiboot2::load\<close> reads
  at an address.
\<close>

record boot_env =
  acpi :: acpi_env
  get_bits :: "u64 \<Rightarrow> nat \<Rightarrow> nat \<Rightarrow> u64"
  set_bits :: "u64 \<Rightarrow> nat \<Rightarrow> nat \<Rightarrow> u64 \<Rightarrow> u64"
  tss_size :: usize
  tss_ptr :: u64
  gdt_ptr :: u64
  load :: "usize \<Rightarrow> BootInformation"

definition arch_init :: "hw \<Rightarrow> boot_env \<Rightarrow> usize \<Rightarrow> machine \<Rightarrow> machine res" where
  "arch_init hw env multiboot_info m =
     (let m = disable_8259_pic PICS m in
      rbind (serial_init m) (\<lambda>m.
      let m = emit Cli m in
      rbind (clear_screen m) (\<lambda>m.
      rbind (println hw ''[ INFO ] lambdaOS: Begin init.'' m) (\<lambda>m.
      let boot_info = load env multiboot_info;
          m = enable_nxe_bit m;
          m = enable_write_protect_bit m in
      rbind (memory_init hw (acpi env) boot_info (as_platform m)) (\<lambda>(memory_controller, _, p).
      let m = put_platform p m in
      rbind (interrupts_init hw (get_bits env) (set_bits env) (tss_size env) (tss_ptr env) (gdt_ptr env) memory_controller (as_platform m))
        (\<lambda>(t, memory_controller, p).
      let m = (put_platform p m)\<lparr>tables := Some t\<rparr> in
      rbind (device_init hw m) (\<lambda>m.
      let m = emit Sti m in
      println hw ''[ OK ] Init successful, you may now type.'' m)))))))"

definition kmain :: "hw \<Rightarrow> boot_env \<Rightarrow> usize \<Rightarrow> machine \<Rightarrow> unit res" where
  "kmain hw env multiboot_information_address m =
     rbind (arch_init hw env multiboot_information_address m) (\<lambda>m. Inl NoReturn)"

section \<open>The keyboard interrupt\<close>

definition keyboard_handler :: "hw \<Rightarrow> (u8 \<Rightarrow> u32 list) \<Rightarrow> machine \<Rightarrow> machine res" where
  "keyboard_handler hw map_to_upper m =
     rbind (println hw ''keyboard interrupt.'' m) (\<lambda>m.
     let (code, m) = read_char hw m in
     rbind (parse_key hw map_to_upper code m) (\<lambda>m.
     rbind (apic_eoi (apic m)) (\<lambda>_. Inr m)))"

section \<open>The allocator wrapper\<close>

text \<open>
  The heap of the \<^verbatim>\<open>linked_list_allocator\<close> crate is a parameter: its operations on a state of
  any type. An address or the error of the crate is what an allocation gives.
\<close>

record Layout =
  layout_size :: usize
  layout_align :: usize

record 'h heap_crate =
  heap_empty :: 'h
  heap_init :: "usize \<Rightarrow> usize \<Rightarrow> 'h \<Rightarrow> 'h"
  heap_extend :: "usize \<Rightarrow> 'h \<Rightarrow> 'h"
  heap_alloc :: "Layout \<Rightarrow> 'h \<Rightarrow> usize option \<times> 'h"
  heap_dealloc :: "usize \<Rightarrow> Layout \<Rightarrow> 'h \<Rightarrow> 'h"

record 'h heap_state = io +
  inner_heap :: 'h

definition allocator_new :: "'h heap_crate \<Rightarrow> 'h" where
  "allocator_new c = heap_empty c"

definition allocator_init :: "'h heap_crate \<Rightarrow> usize \<Rightarrow> usize \<Rightarrow> 'h heap_state \<Rightarrow> 'h heap_state" where
  "allocator_init c heap_bottom heap_size s = s\<lparr>inner_heap := heap_init c heap_bottom heap_size (inner_heap s)\<rparr>"

definition allocator_extend :: "'h heap_crate \<Rightarrow> usize \<Rightarrow> 'h heap_state \<Rightarrow> 'h heap_state" where
  "allocator_extend c n s = s\<lparr>inner_heap := heap_extend c n (inner_heap s)\<rparr>"

definition allocator_alloc :: "hw \<Rightarrow> 'h heap_crate \<Rightarrow> Layout \<Rightarrow> 'h heap_state \<Rightarrow> (usize option \<times> 'h heap_state) res" where
  "allocator_alloc hw c layout s =
     disable_interrupts_and_then hw (\<lambda>s.
       let (r, h) = heap_alloc c layout (inner_heap s) in Inr (r, s\<lparr>inner_heap := h\<rparr>)) s"

definition allocator_dealloc :: "hw \<Rightarrow> 'h heap_crate \<Rightarrow> usize \<Rightarrow> Layout \<Rightarrow> 'h heap_state \<Rightarrow> (unit \<times> 'h heap_state) res" where
  "allocator_dealloc hw c ptr layout s =
     disable_interrupts_and_then hw (\<lambda>s.
       Inr ((), s\<lparr>inner_heap := heap_dealloc c ptr layout (inner_heap s)\<rparr>)) s"

definition allocator_oom :: "'h heap_state \<Rightarrow> 'h heap_state res" where
  "allocator_oom s = Inl (Panic ''Out of memory'')"

section \<open>Devices\<close>

lemma machine_more:
  assumes "io.more m' = io.more (m :: machine)"
  shows "STATE m' = STATE m" "TTYS m' = TTYS m" "memory m' = memory m" "apic m' = apic m" "devices m' = devices m"
    "ahci m' = ahci m" "EFER m' = EFER m" "CR0 m' = CR0 m" "tables m' = tables m" "cpus m' = cpus m"
  using assms by (cases m, cases m', simp)+

lemmas printed_machine = machine_more [OF printed_more]

lemma device_init_ok:
  assumes "ps2_works hw" and "config_space hw cfg" and "sizes_bars hw" and "serial_ready hw COM1"
  shows "\<exists>m'. device_init hw m = Inr m' \<and> TTYS m' = Some ttys_start
     \<and> map no_bars (devices m') = map no_bars (devices m) @ concat (map (found_on cfg) [0 ..< 255])
     \<and> memory m' = memory m \<and> STATE m' = STATE m \<and> apic m' = apic m \<and> EFER m' = EFER m \<and> CR0 m' = CR0 m
     \<and> tables m' = tables m"
proof -
  obtain m1 where m1: "pit_init hw (vga_init m) = Inr m1" "io.more m1 = io.more (vga_init m)"
    using pit_init_ok [OF assms(4), of "vga_init m"] by blast
  have t1: "TTYS m1 = Some ttys_start" using machine_more(2) [OF m1(2)] tty_init_start [of m] by (simp add: vga_init_def)
  obtain m2 where m2: "ps2_init hw PS2 m1 = Inr m2" "io.more m2 = io.more m1"
    using ps2_init_ok [OF assms(1,4), of m1] by blast
  obtain p where p: "pci_init hw (as_pci m2) = Inr p"
    "listed p = listed (as_pci m2) @ concat (map (found_on cfg) [0 ..< 255])"
    using pci_init_scans [OF assms(2-4)] by blast
  have "device_init hw m = Inr (put_pci p m2)"
    using m1(1) m2(1) p(1) by (simp add: device_init_def Let_def)
  moreover have "map no_bars (devices (put_pci p m2)) = map no_bars (devices m2) @ concat (map (found_on cfg) [0 ..< 255])"
    using p(2) by (simp add: put_pci_def listed_def as_pci_def del: upt_rec_numeral)
  moreover have v: "memory (vga_init m) = memory m" "STATE (vga_init m) = STATE m" "apic (vga_init m) = apic m"
    "EFER (vga_init m) = EFER m" "CR0 (vga_init m) = CR0 m" "tables (vga_init m) = tables m" "devices (vga_init m) = devices m"
    by (simp_all add: vga_init_def tty_init_def)
  ultimately show ?thesis
    using t1 machine_more [OF m2(2)] machine_more [OF m1(2)]
    by (intro exI [of _ "put_pci p m2"]) (simp add: put_pci_def del: upt_rec_numeral)
qed

section \<open>Interrupts while starting up\<close>

lemma clear_screen_returns:
  assumes "console_wf s"
  shows "\<exists>s'. clear_screen s = Inr s' \<and> console_wf s' \<and> TTYS s' = TTYS s \<and> console.more s' = console.more s"
proof -
  from assms obtain t where "shows_text (SCREEN s) t" "rectangle (frame s)" by (auto simp: console_wf_def)
  from clear_screen_ok [OF this, of 25] show ?thesis by (auto simp: clear_screen_def BUFFER_HEIGHT_def console_wf_def)
qed

lemma serial_init_returns:
  assumes "com1 m = COM1"
  shows "serial_init m = Inr (m\<lparr>trace := trace m @ [Out8 0x3f9 0, Out8 0x3fb 0x80, Out8 0x3f8 2, Out8 0x3f9 0, Out8 0x3fb 3,
     Out8 0x3fa 0xc7, Out8 0x3fc 0x0b], com1 := COM1\<lparr>is_initialized := True\<rparr>\<rparr>)"
  using assms
  by (simp add: serial_init_def serial_do_init_def COM1_def serial_new_def serial_out_def serial_port_def checked_add_def
      port_defs emit_def Let_def)

section \<open>An example machine\<close>

definition example_machine :: machine where
  "example_machine = keyboard.extend example_keyboard
     \<lparr>com1 = COM1, memory = example_vm, apic = None, cpus = 0, devices = [], ahci = 0, EFER = 0x500, CR0 = 0x80000011, tables = None\<rparr>"

definition example_hw :: hw where
  "example_hw tr p = (if p = 0x64 then 1 else if p = 0x60 then if last_sent 0x64 0 tr = 0xAA then 0x55 else 0
     else if p = 0x3fd then 0x20 else example_bus tr p)"

lemma example_hw_ok: "ps2_works example_hw" "config_space example_hw example_cfg" "sizes_bars example_hw" "serial_ready example_hw COM1"
proof -
  show "ps2_works example_hw"
    by (auto simp: ps2_works_def comes_on_def example_hw_def intro!: exI [of _ 0])
  show "config_space example_hw example_cfg" "sizes_bars example_hw"
    using example_bus_ok by (simp_all add: config_space_def sizes_bars_def example_hw_def)
  show "serial_ready example_hw COM1"
    by (auto simp: serial_ready_def comes_on_def example_hw_def COM1_def serial_new_def intro!: exI [of _ 0])
qed

definition example_boot_env :: "BootInformation \<Rightarrow> boot_env" where
  "example_boot_env bi = \<lparr>acpi = \<lparr>accepts = (\<lambda>c n. n < c), apic_base_msr = 0, has_apic = Some False\<rparr>, get_bits = (\<lambda>x a b. take_bit (b - a) (drop_bit a x)),
     set_bits = (\<lambda>x a b v. x AND NOT (push_bit a (mask (b - a))) OR push_bit a (take_bit (b - a) v)), tss_size = 104, tss_ptr = 0x9800, gdt_ptr = 0x9900,
     load = (\<lambda>_. bi)\<rparr>"

section \<open>Properties\<close>

text \<open>
  The devices come up: with a keyboard controller that works, a serial port that is ready and hardware
  that answers as a configuration space, \<^verbatim>\<open>device::init\<close> returns with the six terminals blank and the functions the
  scan finds added to the list of devices, and leaves memory, the keyboard's state, the interrupt
  controller and the processor's registers as they are.
\<close>

theorem device_init_brings_up:
  assumes "ps2_works hw" and "config_space hw cfg" and "sizes_bars hw" and "serial_ready hw COM1"
  shows "\<exists>m'. device_init hw m = Inr m' \<and> TTYS m' = Some ttys_start
     \<and> map no_bars (devices m') = map no_bars (devices m) @ concat (map (found_on cfg) [0 ..< 255])
     \<and> memory m' = memory m \<and> STATE m' = STATE m \<and> apic m' = apic m \<and> EFER m' = EFER m \<and> CR0 m' = CR0 m
     \<and> tables m' = tables m"
  using assms by (rule device_init_ok)

theorem device_init_brings_up_witness:
  "\<exists>m'. device_init example_hw example_machine = Inr m' \<and> TTYS m' = Some ttys_start
     \<and> map no_bars (devices m') = concat (map (found_on example_cfg) [0 ..< 255])"
  using device_init_brings_up [OF example_hw_ok, of example_machine]
  by (auto simp: example_machine_def keyboard.defs simp del: upt_rec_numeral)

text \<open>
  C37. The keyboard interrupt, with the serial port ready. The handler reports itself and then reads a scan code from the
  controller. On a key that crashes the driver (a printing key with control down, no capitals in effect and only some of
  F7 to F12 counted as down) it panics. Otherwise the driver's state follows the key, and the handler
  ends with the call that is to signal the end of the interrupt: that panics when no interrupt controller was set up or when
  the register's address overflows, and else it returns and has changed neither memory nor what is known of the
  controllers, for it writes to a temporary.
\<close>

theorem keyboard_handler_takes_key:
  assumes "serial_ready hw COM1" and "keyboard_wf m"
  shows "\<exists>m1 c. logged [''keyboard interrupt.''] m m1 \<and> c = ucast (hw (trace m1) 0x60)
     \<and> (if crashes (STATE m) c then keyboard_handler hw up m = Inl OutOfRange
        else case apic m of
          None \<Rightarrow> keyboard_handler hw up m = Inl (Panic ''apic not initialised'')
        | Some a \<Rightarrow>
            if unat (lapic_base a) + 0xb0 < 2 ^ 32
            then \<exists>m' es. keyboard_handler hw up m = Inr m' \<and> STATE m' = key_state c (STATE m)
              \<and> trace m' = trace m1 @ In8 0x60 c # es \<and> memory m' = memory m \<and> apic m' = apic m
            else keyboard_handler hw up m = Inl Overflow)"
proof -
  obtain m0 where m0: "println hw ''keyboard interrupt.'' m = Inr m0" "logged [''keyboard interrupt.''] m m0"
    by (rule println_ok [OF assms(1)])
  define c :: u8 where "c = ucast (hw (trace m0) 0x60)"
  define m1 where "m1 = emit (In8 0x60 c) m0"
  have c: "ps2_read_char hw PS2 m0 = (c, m1)"
    by (simp add: ps2_read_char_def PS2_def ps2_new_def port_defs Let_def m1_def c_def)
  have "io.more m1 = io.more m" using logged_more [OF m0(2)] by (simp add: m1_def)
  note more = machine_more [OF this]
  have wf: "keyboard_wf m1" using assms(2) more by (simp add: keyboard_wf_def)
  show ?thesis
  proof (cases "crashes (STATE m) c")
    case True
    then have "keyboard_handler hw up m = Inl OutOfRange"
      using key_crash [OF wf, of c hw up] m0(1) c more by (simp add: keyboard_handler_def)
    with True m0(2) c_def show ?thesis by (intro exI [of _ m0] exI [of _ c]) simp
  next
    case False
    with key_step [OF assms(1) wf, of c up] more obtain m2 es where
      m2: "parse_key hw up c m1 = Inr m2" "STATE m2 = key_state c (STATE m)" "keyboard.more m2 = keyboard.more m1" "trace m2 = trace m1 @ es"
      by auto
    have a: "apic m2 = apic m" "memory m2 = memory m" using m2(3) more by (cases m2, cases m1, simp)+
    have "trace m2 = trace m0 @ In8 0x60 c # es" using m2(4) by (simp add: m1_def)
    with False m0 c m2(1,2) a show ?thesis
      by (intro exI [of _ m0] exI [of _ c])
        (auto simp: keyboard_handler_def apic_eoi_def apic_manager_eoi_def lapic_write_def checked_add_def c_def split: option.split)
  qed
qed

theorem keyboard_handler_takes_key_witness:
  "\<exists>m' c. keyboard_handler example_hw us_map_to_upper (example_machine\<lparr>apic := Some apic_manager_new\<rparr>) = Inr m'
     \<and> STATE m' = key_state c modifier_state_new \<and> In8 0x60 c \<in> set (trace m')"
proof -
  let ?m = "example_machine\<lparr>apic := Some apic_manager_new\<rparr>"
  have m: "keyboard_wf ?m" "STATE ?m = modifier_state_new"
    using example_keyboard_wf by (simp_all add: example_machine_def keyboard.defs keyboard_wf_def example_keyboard_def)
  have "\<not> crashes modifier_state_new c" for c
    by (simp add: crashes_def is_pressed_def modifier_state_new_def key_pair_new_def)
  with keyboard_handler_takes_key [OF example_hw_ok(4) m(1), of us_map_to_upper] m(2) show ?thesis
    by (auto simp: apic_manager_new_def)
qed

text \<open>
  Without a memory map from the boot loader, or without its section headers, start-up (with a serial
  port that is ready) panics in \<^verbatim>\<open>memory::init\<close>, before any table of the processor is changed; \<^verbatim>\<open>kmain\<close> never returns in any case.
\<close>

theorem boot_needs_memory_map:
  assumes "console_wf m" and "com1 m = COM1" and "serial_ready hw COM1"
  shows "(bi_memory_areas (load env mbi) = None \<longrightarrow> arch_init hw env mbi m = Inl (Panic ''Memory map tag required''))
     \<and> (bi_memory_areas (load env mbi) \<noteq> None \<longrightarrow> bi_elf_sections (load env mbi) = None \<longrightarrow>
          arch_init hw env mbi m = Inl (Panic ''Elf sections tag required''))
     \<and> (\<exists>e. kmain hw env mbi m = Inl e)"
proof -
  let ?m1 = "disable_8259_pic PICS m"
  have "com1 ?m1 = COM1" using assms(2) by (simp add: disable_8259_pic_def port_defs emit_def Let_def)
  from serial_init_returns [OF this] obtain m2 where m2: "serial_init ?m1 = Inr m2"
    "SCREEN m2 = SCREEN m" "frame m2 = frame m"
    by (simp add: disable_8259_pic_def port_defs emit_def Let_def)
  have "console_wf (emit Cli m2)" using assms(1) m2 by (simp add: console_wf_def emit_def)
  from clear_screen_returns [OF this] obtain m3 where m3: "clear_screen (emit Cli m2) = Inr m3" by blast
  obtain m4 where m4: "println hw ''[ INFO ] lambdaOS: Begin init.'' m3 = Inr m4" by (rule println_printed [OF assms(3)])
  have "\<exists>e. kmain hw env mbi m = Inl e"
    by (cases "arch_init hw env mbi m") (simp_all add: kmain_def)
  then show ?thesis using m2(1) m3 m4 by (auto simp: arch_init_def memory_init_def Let_def)
qed

theorem boot_needs_memory_map_witness:
  "arch_init example_hw (example_boot_env \<lparr>bi_start_address = 0, bi_end_address = 0, bi_memory_areas = None, bi_elf_sections = None\<rparr>) 0 example_machine
     = Inl (Panic ''Memory map tag required'')"
proof -
  have "console_wf example_machine" "com1 example_machine = COM1"
    using example_console_wf(1)
    by (simp_all add: example_machine_def keyboard.defs console_wf_def example_keyboard_def example_console_def)
  from boot_needs_memory_map [OF this example_hw_ok(4)] show ?thesis by (simp add: example_boot_env_def)
qed

text \<open>
  An allocation runs with interrupts masked and gives what the crate's heap gives; the masks are
  restored, but interrupts are on afterwards, also when they were off before. Start-up runs with
  interrupts off and allocates (the list of devices), so its section does not stay closed.
\<close>

theorem allocation_enables_interrupts:
  assumes "reads_masks hw m0 m1" and "heap_alloc c layout (inner_heap s) = (r, h)"
  shows "\<exists>s'. allocator_alloc hw c layout s = Inr (r, s') \<and> inner_heap s' = h
     \<and> last_sent 0x21 m0 (trace s') = last_sent 0x21 m0 (trace s) \<and> last_sent 0xA1 m1 (trace s') = last_sent 0xA1 m1 (trace s)
     \<and> interrupts_on b (trace s')"
proof -
  define f where "f t = (let (r, h) = heap_alloc c layout (inner_heap t) in Inr (r, t\<lparr>inner_heap := h\<rparr>) :: (usize option \<times> 'a heap_state) res)" for t
  have "\<exists>r s' es. f t = Inr (r, s') \<and> trace s' = trace t @ es" for t
    by (cases "heap_alloc c layout (inner_heap t)") (simp add: f_def)
  from masked_section [OF assms(1) this, of s b] obtain s1 r' s2 s3 where
    s3: "f s1 = Inr (r', s2)" "disable_interrupts_and_then hw f s = Inr (r', s3)"
      "last_sent 0x21 m0 (trace s3) = last_sent 0x21 m0 (trace s)" "last_sent 0xA1 m1 (trace s3) = last_sent 0xA1 m1 (trace s)"
      "interrupts_on b (trace s3)" "io.more s1 = io.more s" "io.more s3 = io.more s2" by blast
  have more: "inner_heap t = inner_heap t'" if "io.more t = io.more t'" for t t' :: "'a heap_state"
    using that by (cases t, cases t') simp
  have "allocator_alloc hw c layout s = disable_interrupts_and_then hw f s"
    by (simp add: allocator_alloc_def f_def [abs_def])
  with s3 more [OF s3(6)] more [OF s3(7)] assms(2) show ?thesis by (intro exI [of _ s3]) (auto simp: f_def)
qed

text \<open>A heap that counts the bytes it gave away, on a machine with interrupts off.\<close>

theorem allocation_enables_interrupts_witness:
  "\<exists>s'. allocator_alloc (\<lambda>tr p. ucast (last_sent p 0 tr))
      \<lparr>heap_empty = 0, heap_init = (\<lambda>b n h. b), heap_extend = (\<lambda>n h. h), heap_alloc = (\<lambda>l h. (Some h, h + layout_size l)),
       heap_dealloc = (\<lambda>p l h. h)\<rparr> \<lparr>layout_size = 16, layout_align = 8\<rparr> \<lparr>trace = [Cli], inner_heap = 0x40000000 :: usize\<rparr>
       = Inr (Some 0x40000000, s') \<and> interrupts_on True (trace s')"
proof -
  have "ucast (ucast (v :: u8) :: u32) = v" for v by (rule bit_word_eqI) (simp add: bit_simps)
  then have "reads_masks (\<lambda>tr p. ucast (last_sent p 0 tr)) 0 0" by (simp add: reads_masks_def)
  from allocation_enables_interrupts [OF this, where b = True and s = "\<lparr>trace = [Cli], inner_heap = 0x40000000\<rparr>"
      and layout = "\<lparr>layout_size = 16, layout_align = 8\<rparr>" and c = "\<lparr>heap_empty = 0, heap_init = (\<lambda>b n h. b), heap_extend = (\<lambda>n h. h),
       heap_alloc = (\<lambda>l h. (Some h, h + layout_size l)), heap_dealloc = (\<lambda>p l h. h)\<rparr>"]
  show ?thesis by auto
qed

end
