(* ===== verification/Madt_Correct.thy ===== *)
theory Madt_Correct
  imports Acpi
begin

text \<open>
  Reading the interrupt controller table back: the bytes a firmware writes for a list of entries
  (\<open>entry_bytes\<close>, the layout of the packed structures of \<^verbatim>\<open>acpi/madt.rs\<close> behind their type and length)
  are read back by the iterator and collected by the loop of \<^verbatim>\<open>Madt::init\<close>.
\<close>

section \<open>Bytes of entries\<close>

fun known :: "MadtEntry \<Rightarrow> bool" where
  "known (Lapic _) = True"
| "known (IoApic _) = True"
| "known (Iso _) = True"
| "known (Nmi _) = True"
| "known _ = False"

fun entry_bytes :: "MadtEntry \<Rightarrow> u8 list" where
  "entry_bytes (Lapic l) = [0, 8, lapic_processor_id l, lapic_id l] @ le_bytes 4 (lapic_flags l)"
| "entry_bytes (IoApic a) = [1, 12, io_apic_id a, 0] @ le_bytes 4 (io_apic_address a) @ le_bytes 4 (gsib a)"
| "entry_bytes (Iso i) = [2, 10, bus_source i, irq_source i] @ le_bytes 4 (gsi i) @ le_bytes 2 (iso_flags i)"
| "entry_bytes (Nmi n) = [4, 6, nmi_processor_id n] @ le_bytes 2 (nmi_flags n) @ [lint_no n]"
| "entry_bytes _ = []"

lemma entry_bytes_length: "known e \<Longrightarrow> 6 \<le> length (entry_bytes e) \<and> length (entry_bytes e) \<le> 12"
  by (cases e) simp_all

text \<open>Memory holds the bytes from an address on.\<close>

definition holds :: "vm \<Rightarrow> usize \<Rightarrow> u8 list \<Rightarrow> bool" where
  "holds s a bs \<longleftrightarrow> (\<forall>k < length bs. read8 s (a + of_nat k) = Inr (bs ! k))"

lemma all_less_add: "(\<forall>k < m + n. P k) \<longleftrightarrow> (\<forall>k < m. P k) \<and> (\<forall>k < n. P (m + k :: nat))"
proof (intro iffI conjI allI impI)
  fix k assume P: "(\<forall>k < m. P k) \<and> (\<forall>k < n. P (m + k))" and k: "k < m + n"
  show "P k"
  proof (cases "k < m")
    case False
    then obtain j where "k = m + j" by (auto simp: not_less le_iff_add)
    with P k show ?thesis by simp
  qed (use P in simp)
qed simp_all

lemma holds_append: "holds s a (xs @ ys) \<longleftrightarrow> holds s a xs \<and> holds s (a + of_nat (length xs)) ys"
  by (simp add: holds_def all_less_add nth_append add.assoc)

lemma holds_Cons: "holds s a (b # bs) \<longleftrightarrow> read8 s a = Inr b \<and> holds s (a + 1) bs"
  using holds_append [of s a "[b]" bs] by (simp add: holds_def)

lemma holds_read_bytes: "holds s a bs \<Longrightarrow> read_bytes s a (length bs) = Inr bs"
  by (induction bs arbitrary: a) (simp_all add: holds_Cons)

lemma holds_read_le: "holds s a (le_bytes n w) \<Longrightarrow> read_le s a n = Inr (of_le (le_bytes n w))"
  using holds_read_bytes [of s a "le_bytes n w"] by (simp add: read_le_def)

lemma holds_read32: "holds s a (le_bytes 4 w) \<Longrightarrow> read32 s a = Inr w"
  by (simp add: read32_def holds_read_le ucast_of_le of_le_bytes_full)

lemma holds_read16: "holds s a (le_bytes 2 w) \<Longrightarrow> rbind (read_le s a 2) (\<lambda>f. Inr (ucast f)) = Inr (w :: u16)"
  by (simp add: holds_read_le ucast_of_le of_le_bytes_full)

section \<open>One entry\<close>

lemma item_read:
  assumes "known e" and "holds s a (entry_bytes e)"
  shows "madt_item s (entry_bytes e ! 0) (of_nat (length (entry_bytes e))) (a + 2) = Inr e"
proof -
  have w: "ucast (of_le (le_bytes 2 w) :: u64) = w" for w :: u16 by (simp add: ucast_of_le of_le_bytes_full)
  show ?thesis
    using assms
    by (cases e) (auto simp: madt_item_def holds_Cons holds_append add.assoc read_lapic_def read_io_apic_def read_iso_def
        read_nmi_def holds_read32 holds_read_le w)
qed

lemma next_entry:
  assumes e: "known e" and h: "holds s (sdt + 36 + i) (entry_bytes e)" and dl: "data_len s sdt = Inr dl"
    and fit: "unat i + length (entry_bytes e) \<le> unat dl" and b: "unat sdt + 36 + unat dl < 2 ^ 64"
    and r: "serial_ready hw COM1"
  obtains l' where "madt_next hw s \<lparr>mi_sdt = sdt, mi_i = i\<rparr> l
     = Inr (Some e, \<lparr>mi_sdt = sdt, mi_i = i + of_nat (length (entry_bytes e))\<rparr>, l')" "printed l l'"
proof -
  let ?n = "length (entry_bytes e)"
  note n = entry_bytes_length [OF e]
  have len: "read8 s (sdt + 36 + i) = Inr (entry_bytes e ! 0)" "read8 s (sdt + 36 + i + 1) = Inr (of_nat ?n)"
    using e h by (cases e; simp add: holds_Cons)+
  have u: "unat (of_nat ?n :: u8) = ?n" "unat (of_nat ?n :: usize) = ?n" using n by (simp_all add: unat_of_nat)
  then have c: "ucast (of_nat ?n :: u8) = (of_nat ?n :: usize)"
    using n by (simp add: word_unat_eq_iff unsigned_ucast_eq take_bit_nat_eq_self_iff)
  have i1: "checked_add i 1 = Inr (i + 1)" "unat (i + 1) = unat i + 1"
    using fit n b by (simp_all add: checked_add_def unat_word_ariths)
  have ie: "checked_add i (of_nat ?n) = Inr (i + of_nat ?n)" "unat (i + of_nat ?n) = unat i + ?n"
    using fit u b by (simp_all add: checked_add_def unat_word_ariths)
  have da: "data_address sdt = Inr (sdt + 36)" "unat (sdt + 36) = unat sdt + 36"
    using b by (simp_all add: data_address_def SDT_HEADER_SIZE_def checked_add_def unat_word_ariths)
  have x: "checked_add (sdt + 36) i = Inr (sdt + 36 + i)" "unat (sdt + 36 + i) = unat sdt + 36 + unat i"
    using fit n b da(2) by (simp_all add: checked_add_def unat_word_ariths)
  have y: "checked_add (sdt + 36 + i) 2 = Inr (sdt + 36 + i + 2)"
    using fit n b x(2) by (simp add: checked_add_def)
  obtain l' where l': "println hw (''[ acpi ] MADT entry at address: '' @ fmt_alternate_hex (sdt + 36 + i + 2)) l = Inr l'"
    "printed l l'" by (rule println_printed [OF r])
  have "i + 1 < dl" "i + of_nat ?n \<le> dl" using i1(2) ie(2) fit n by (simp_all add: word_less_nat_alt word_le_nat_alt)
  with dl i1(1) da(1) len c ie(1) x(1) y item_read [OF e h] l'
  show ?thesis by (intro that [of l']) (simp_all add: madt_next_def)
qed

lemma next_end:
  assumes "data_len s sdt = Inr dl" and "unat sdt + 36 + unat dl < 2 ^ 64"
  shows "madt_next hw s \<lparr>mi_sdt = sdt, mi_i = dl\<rparr> l = Inr (None, \<lparr>mi_sdt = sdt, mi_i = dl\<rparr>, l)"
  using assms unat_bound [of dl] by (simp add: madt_next_def checked_add_def word_less_nat_alt unat_word_ariths)

section \<open>All entries\<close>

definition lapics :: "MadtEntry list \<Rightarrow> LapicEntry list" where
  "lapics es = concat (map (\<lambda>e. case e of Lapic l \<Rightarrow> [l] | _ \<Rightarrow> []) es)"

definition ioapics :: "MadtEntry list \<Rightarrow> IoApicEntry list" where
  "ioapics es = concat (map (\<lambda>e. case e of IoApic a \<Rightarrow> [a] | _ \<Rightarrow> []) es)"

definition overrides :: "MadtEntry list \<Rightarrow> InterruptSourceOverride list" where
  "overrides es = concat (map (\<lambda>e. case e of Iso i \<Rightarrow> [i] | _ \<Rightarrow> []) es)"

definition lints :: "MadtEntry list \<Rightarrow> ApicNMI list" where
  "lints es = concat (map (\<lambda>e. case e of Nmi n \<Rightarrow> [n] | _ \<Rightarrow> []) es)"

lemmas entry_lists = lapics_def ioapics_def overrides_def lints_def

text \<open>The vectors take as many entries as the table and the manager have.\<close>

definition room :: "acpi_env \<Rightarrow> ApicManager \<Rightarrow> MadtEntry list \<Rightarrow> bool" where
  "room env m es \<longleftrightarrow>
     (\<forall>n < length (local_apics m) + length (lapics es). accepts env 20 n)
     \<and> (\<forall>n < length (io_apics m) + length (ioapics es). accepts env 10 n)
     \<and> (\<forall>n < length (isos m) + length (overrides es). accepts env 10 n)
     \<and> (\<forall>n < length (nmis m) + length (lints es). accepts env 10 n)"

definition collected :: "MadtEntry list \<Rightarrow> ApicManager \<Rightarrow> ApicManager" where
  "collected es m = m\<lparr>local_apics := local_apics m @ lapics es, io_apics := io_apics m @ ioapics es,
     isos := isos m @ overrides es, nmis := nmis m @ lints es\<rparr>"

definition counted :: "acpi_env \<Rightarrow> MadtEntry list \<Rightarrow> usize \<Rightarrow> usize" where
  "counted env es n = fold (count_cpu env) (lapics es) n"

text \<open>One entry of the loop: its kind's list grows by it, and its message is printed.\<close>

lemma loop_entry:
  assumes e: "known e" and n: "madt_next hw s it l = Inr (Some e, it', l1)" and r: "serial_ready hw COM1" and c: "room env m (e # es)"
  obtains l2 where "madt_loop hw env s it m n l = madt_loop hw env s it' (collected [e] m) (counted env [e] n) l2" "printed l1 l2"
    "room env (collected [e] m) es"
proof -
  have room: "room env (collected [e] m) es" using e c by (cases e) (simp_all add: room_def entry_lists collected_def)
  have "\<exists>l2. madt_loop hw env s it m n l = madt_loop hw env s it' (collected [e] m) (counted env [e] n) l2 \<and> printed l1 l2"
  proof (cases e)
    case (Lapic a)
    obtain l2 where "found_lapic hw env a n l1 = Inr (count_cpu env a n, l2)" "printed l1 l2" using found_lapic_ok [OF r] by blast
    with Lapic n c show ?thesis
      by (auto simp: madt_loop.simps [of hw env s it] static_push_def room_def entry_lists collected_def counted_def)
  next
    case (IoApic a)
    obtain l2 where "println hw (''[ dev ] Found I/O APIC, id: '' @ fmt_display (io_apic_id a) @ '', register base: ''
        @ fmt_alternate_hex (io_apic_address a) @ '', gsib: '' @ fmt_display (gsib a)) l1 = Inr l2" "printed l1 l2"
      by (rule println_printed [OF r])
    with IoApic n c show ?thesis
      by (auto simp: madt_loop.simps [of hw env s it] static_push_def room_def entry_lists collected_def counted_def)
  next
    case (Iso a)
    obtain l2 where "println hw (''[ dev ] Found interrupt source override,'' @ newline # '' overrides IRQ ''
        @ fmt_display (irq_source a) @ '','' @ newline # '' gsi: '' @ fmt_display (gsi a)) l1 = Inr l2" "printed l1 l2"
      by (rule println_printed [OF r])
    with Iso n c show ?thesis
      by (auto simp: madt_loop.simps [of hw env s it] static_push_def room_def entry_lists collected_def counted_def)
  next
    case (Nmi a)
    obtain l2 where "println hw (''[ dev ] APIC NMI with flags: '' @ fmt_display (nmi_flags a) @ '', LINT: ''
        @ fmt_display (lint_no a)) l1 = Inr l2" "printed l1 l2"
      by (rule println_printed [OF r])
    with Nmi n c show ?thesis
      by (auto simp: madt_loop.simps [of hw env s it] static_push_def room_def entry_lists collected_def counted_def)
  qed (use e in simp_all)
  with room that show ?thesis by blast
qed

lemma loop_collects:
  assumes "\<forall>e \<in> set es. known e" and "holds s (sdt + 36 + i) (concat (map entry_bytes es))" and "data_len s sdt = Inr dl"
    and "unat i + length (concat (map entry_bytes es)) = unat dl" and "unat sdt + 36 + unat dl < 2 ^ 64" and "room env m es"
    and r: "serial_ready hw COM1"
  shows "\<exists>l'. madt_loop hw env s \<lparr>mi_sdt = sdt, mi_i = i\<rparr> m n l = Some (Inr (True, collected es m, counted env es n, l')) \<and> printed l l'"
  using assms(1-6)
proof (induction es arbitrary: i m n l)
  case Nil
  then have "i = dl" by (simp add: word_unat_eq_iff)
  then have "madt_next hw s \<lparr>mi_sdt = sdt, mi_i = i\<rparr> l = Inr (None, \<lparr>mi_sdt = sdt, mi_i = i\<rparr>, l)"
    using next_end [OF Nil.prems(3,5)] by simp
  then show ?case
    by (simp add: madt_loop.simps [of hw env s "\<lparr>mi_sdt = sdt, mi_i = i\<rparr>"] collected_def counted_def entry_lists)
next
  case (Cons e es)
  let ?i = "i + of_nat (length (entry_bytes e))" and ?it = "\<lparr>mi_sdt = sdt, mi_i = i\<rparr>"
  have e: "known e" "holds s (sdt + 36 + i) (entry_bytes e)" "holds s (sdt + 36 + ?i) (concat (map entry_bytes es))"
    "unat i + length (entry_bytes e) \<le> unat dl"
    using Cons.prems(1,2,4) by (simp_all add: holds_append add.assoc)
  have i: "unat ?i = unat i + length (entry_bytes e)"
    using e(4) Cons.prems(5) entry_bytes_length [OF e(1)] by (simp add: unat_word_ariths unat_of_nat)
  then have len: "unat ?i + length (concat (map entry_bytes es)) = unat dl" using Cons.prems(4) by simp
  obtain l1 where l1: "madt_next hw s ?it l = Inr (Some e, \<lparr>mi_sdt = sdt, mi_i = ?i\<rparr>, l1)" "printed l l1"
    by (rule next_entry [OF e(1,2) Cons.prems(3) e(4) Cons.prems(5) r])
  obtain l2 where l2: "madt_loop hw env s ?it m n l
      = madt_loop hw env s \<lparr>mi_sdt = sdt, mi_i = ?i\<rparr> (collected [e] m) (counted env [e] n) l2" "printed l1 l2"
      "room env (collected [e] m) es"
    by (rule loop_entry [OF e(1) l1(1) r Cons.prems(6)])
  have "\<forall>e \<in> set es. known e" using Cons.prems(1) by simp
  from Cons.IH [OF this e(3) Cons.prems(3) len Cons.prems(5) l2(3)] obtain l' where
    "madt_loop hw env s \<lparr>mi_sdt = sdt, mi_i = ?i\<rparr> (collected [e] m) (counted env [e] n) l2
      = Some (Inr (True, collected es (collected [e] m), counted env es (counted env [e] n), l'))" "printed l2 l'" by blast
  moreover have "collected es (collected [e] m) = collected (e # es) m" "counted env es (counted env [e] n) = counted env (e # es) n"
    by (simp_all add: collected_def counted_def entry_lists)
  ultimately have "madt_loop hw env s ?it m n l = Some (Inr (True, collected (e # es) m, counted env (e # es) n, l'))"
    "printed l l'"
    using l2(1,2) l1(2) printed_trans [OF printed_trans] by simp_all
  then show ?case by blast
qed

section \<open>An example table\<close>

text \<open>
  A machine with the page \<open>0xe0\<close> identity mapped that holds a table of 58 bytes at its start: the
  local controller of an enabled processor and a line of non-maskable interrupts.
\<close>

definition madt_vm :: vm where
  "madt_vm = \<lparr>pmem = (\<lambda>f i.
       if f = Frame 9 \<and> i = 0 then 0x1003 else if f = Frame 1 \<and> i = 0 then 0x2003
       else if f = Frame 2 \<and> i = 0 then 0x3003 else if f = Frame 3 \<and> i = 0xe0 then 0xe0003
       else if f = Frame 0xe0 then
         if i = 0 then 0x0000003A43495041 else if i = 5 then 0x0100080000000000
         else if i = 6 then 0x05FF060400000001 else if i = 7 then 0x0100 else 0
       else 0),
     cr3 = 0x9000, ALLOCATOR = None, tlb_events = []\<rparr>"

definition madt_entries :: "MadtEntry list" where
  "madt_entries = [Lapic \<lparr>lapic_processor_id = 0, lapic_id = 1, lapic_flags = 1\<rparr>, Nmi \<lparr>nmi_processor_id = 0xff, nmi_flags = 5, lint_no = 1\<rparr>]"

lemma madt_entries_bytes:
  "concat (map entry_bytes madt_entries) = [0, 8, 0, 1, 1, 0, 0, 0, 4, 6, 0xff, 5, 0, 1]"
  by (simp add: madt_entries_def le_bytes_def upt_rec)

lemma read_bytes_holds: "read_bytes s a (length bs) = Inr bs \<Longrightarrow> holds s a bs"
proof (induction bs arbitrary: a)
  case (Cons b bs)
  then show ?case by (auto simp: holds_Cons res_simps)
qed (simp add: holds_def)

lemma madt_vm_holds: "holds madt_vm (0xe0000 + 36 + 8) (concat (map entry_bytes madt_entries))"
proof -
  have "read_bytes madt_vm 0xe002c 14 = Inr [0, 8, 0, 1, 1, 0, 0, 0, 4, 6, 0xff, 5, 0, 1]" by code_simp
  then show ?thesis unfolding madt_entries_bytes by (intro read_bytes_holds) (simp del: read_bytes.simps add: eval_nat_numeral)
qed

section \<open>Properties\<close>

text \<open>
  C18. The interrupt controller table is read back: when memory holds the bytes of a list of entries of
  the four known kinds behind a table's header, and the vectors take them all, the loop of
  \<^verbatim>\<open>Madt::init\<close> returns with exactly these entries in the manager's lists, each kind in the order of
  the table, has counted the enabled processors that do not seem to be the bootstrap one, and has accessed
  only the serial port.
\<close>

theorem madt_table_read_back:
  assumes "\<forall>e \<in> set es. known e" and "holds s (sdt + 36 + 8) (concat (map entry_bytes es))" and "data_len s sdt = Inr dl"
    and "8 + length (concat (map entry_bytes es)) = unat dl" and "unat sdt + 36 + unat dl < 2 ^ 64"
    and "room env apic_manager_new es" and "serial_ready hw COM1"
  shows "\<exists>l'. madt_loop hw env s (madt_iter \<lparr>madt_sdt = sdt, madt_address = a, madt_flags = f\<rparr>) apic_manager_new n l
     = Some (Inr (True, \<lparr>lapic_base = 0, local_apics = lapics es, io_apics = ioapics es, nmis = lints es, isos = overrides es\<rparr>,
         counted env es n, l')) \<and> printed l l'"
  using loop_collects [OF assms(1-3) _ assms(5-7), of n] assms(4)
  by (simp add: madt_iter_def collected_def apic_manager_new_def)

theorem madt_table_read_back_witness:
  "\<exists>l'. madt_loop (\<lambda>tr p. 0x20) \<lparr>accepts = (\<lambda>c n. n < c), apic_base_msr = 0, has_apic = Some True\<rparr> madt_vm
     (madt_iter \<lparr>madt_sdt = 0xe0000, madt_address = 0, madt_flags = 0\<rparr>) apic_manager_new 0 \<lparr>trace = []\<rparr>
   = Some (Inr (True, \<lparr>lapic_base = 0, local_apics = [\<lparr>lapic_processor_id = 0, lapic_id = 1, lapic_flags = 1\<rparr>], io_apics = [],
       nmis = [\<lparr>nmi_processor_id = 0xff, nmi_flags = 5, lint_no = 1\<rparr>], isos = []\<rparr>, 1, l'))"
proof -
  have d: "data_len madt_vm 0xe0000 = Inr 22" by code_simp
  have k: "\<forall>e \<in> set madt_entries. known e" by (simp add: madt_entries_def)
  have r: "room \<lparr>accepts = (\<lambda>c n. n < c), apic_base_msr = 0, has_apic = Some True\<rparr> apic_manager_new madt_entries"
    by (simp add: room_def madt_entries_def entry_lists apic_manager_new_def)
  have c: "8 + length (concat (map entry_bytes madt_entries)) = unat (22 :: usize)" by (simp add: madt_entries_bytes)
  have "lapics madt_entries = [\<lparr>lapic_processor_id = 0, lapic_id = 1, lapic_flags = 1\<rparr>]" "ioapics madt_entries = []"
    "lints madt_entries = [\<lparr>nmi_processor_id = 0xff, nmi_flags = 5, lint_no = 1\<rparr>]" "overrides madt_entries = []"
    by (simp_all add: madt_entries_def entry_lists)
  then show ?thesis
    using madt_table_read_back [OF k madt_vm_holds d c _ r example_serial_ready, of 0 0 0 "\<lparr>trace = []\<rparr>"]
    by (auto simp: counted_def count_cpu_def)
qed

end
