(* ===== verification/Firmware.thy ===== *)
theory Firmware
  imports Madt_Correct Stack_Alloc Kernel_Map
begin

text \<open>
  The ACPI code on firmware tables in physical memory: the root pointer is searched in the pages the
  code maps for it, the root table is mapped and read, the interrupt controller table is found and
  read, and the controllers' registers are mapped (\<^verbatim>\<open>acpi/rsdp.rs\<close>, \<^verbatim>\<open>sdt.rs\<close>, \<^verbatim>\<open>rsdt.rs\<close>,
  \<^verbatim>\<open>madt.rs\<close>, \<^verbatim>\<open>device/apic.rs\<close>).
\<close>

section \<open>Reading pages mapped to themselves\<close>

definition phys8 :: "memory \<Rightarrow> usize \<Rightarrow> u8" where
  "phys8 m a = ucast (drop_bit (8 * unat (a AND 7)) (m (Frame (a div PAGE_SIZE)) (word_in_page a)))"

definition stored :: "memory \<Rightarrow> usize \<Rightarrow> u8 list \<Rightarrow> bool" where
  "stored m a bs \<longleftrightarrow> (\<forall>k < length bs. phys8 m (a + of_nat k) = bs ! k)"

text \<open>The page of an address is mapped to the frame of the same number, by a last table.\<close>

definition direct :: "vm \<Rightarrow> Frame \<Rightarrow> usize \<Rightarrow> bool" where
  "direct s T n \<longleftrightarrow> n < 0x800000000 \<and> small_mapped s T (Page n) \<and> map_option fst (page_map s T (Page n)) = Some (Frame n)"

definition direct_bytes :: "vm \<Rightarrow> Frame \<Rightarrow> usize \<Rightarrow> nat \<Rightarrow> bool" where
  "direct_bytes s T a n \<longleftrightarrow> (\<forall>k < n. direct s T ((a + of_nat k) div PAGE_SIZE))"

lemma low_address_canonical:
  assumes "a div PAGE_SIZE < 0x800000000"
  shows "is_canonical a"
  using assms by (simp add: canonical_page div_PAGE_SIZE)

lemma read8_direct:
  assumes "direct s (cr3_frame s) (a div PAGE_SIZE)"
  shows "read8 s a = Inr (phys8 (pmem s) a)"
proof -
  have "is_canonical a" using assms low_address_canonical by (simp add: direct_def)
  with assms show ?thesis
    by (auto simp: direct_def read8_def vm_read_def mmu_def page_map_def div_PAGE_SIZE page_indices phys8_def)
qed

lemma direct_bytes_mono: "direct_bytes s T a n \<Longrightarrow> m \<le> n \<Longrightarrow> direct_bytes s T a m"
  by (simp add: direct_bytes_def)

lemma direct_bytes_part:
  assumes "direct_bytes s T a n" and "i + m \<le> n"
  shows "direct_bytes s T (a + of_nat i) m"
  unfolding direct_bytes_def
proof (intro allI impI)
  fix k assume "k < m"
  then have "i + k < n" using assms(2) by simp
  with assms(1) have "direct s T ((a + of_nat (i + k)) div PAGE_SIZE)" unfolding direct_bytes_def by blast
  then show "direct s T ((a + of_nat i + of_nat k) div PAGE_SIZE)" by (simp add: add.assoc)
qed

lemma stored_append: "stored m a (xs @ ys) \<longleftrightarrow> stored m a xs \<and> stored m (a + of_nat (length xs)) ys"
  by (simp add: stored_def all_less_add nth_append add.assoc)

lemma stored_holds:
  assumes "stored (pmem s) a bs" and "direct_bytes s (cr3_frame s) a (length bs)"
  shows "holds s a bs"
  using assms read8_direct by (simp add: stored_def direct_bytes_def holds_def)

lemma direct_read_bytes:
  assumes "direct_bytes s (cr3_frame s) a n"
  shows "read_bytes s a n = Inr (map (\<lambda>k. phys8 (pmem s) (a + of_nat k)) [0 ..< n])"
proof -
  let ?bs = "map (\<lambda>k. phys8 (pmem s) (a + of_nat k)) [0 ..< n]"
  have "stored (pmem s) a ?bs" by (simp add: stored_def)
  from holds_read_bytes [OF stored_holds [OF this]] assms show ?thesis by simp
qed

lemma direct_read_stored:
  assumes "direct_bytes s (cr3_frame s) a n" and "read_bytes s a n = Inr bs"
  shows "stored (pmem s) a bs"
  using assms by (auto simp: direct_read_bytes stored_def)

lemma unat_offset:
  assumes "unat a + k < 2 ^ 64"
  shows "unat (a + of_nat k :: usize) = unat a + k"
  using assms by (simp add: unat_word_ariths unat_of_nat)

lemma direct_pages_bytes:
  assumes "\<forall>n. b \<le> n \<and> n \<le> e \<longrightarrow> direct s T n" and "e < 0x800000000"
    and "b \<le> a div PAGE_SIZE" and "unat a + n \<le> (unat e + 1) * 4096"
  shows "direct_bytes s T a n"
  unfolding direct_bytes_def
proof (intro allI impI)
  fix k assume k: "k < n"
  have e: "unat e < 0x800000000" using assms(2) by (simp add: word_less_nat_alt)
  have u: "unat (a + of_nat k) = unat a + k" using assms(4) k e by (intro unat_offset) simp
  have "unat b \<le> unat a div 4096" using assms(3) by (simp add: PAGE_SIZE_def word_le_nat_alt unat_div)
  moreover have "unat a div 4096 \<le> (unat a + k) div 4096" by (rule div_le_mono) simp
  moreover have "(unat a + k) div 4096 \<le> unat e"
    using assms(4) k by (simp add: less_Suc_eq_le [symmetric] div_less_iff_less_mult)
  ultimately have "b \<le> (a + of_nat k) div PAGE_SIZE" "(a + of_nat k) div PAGE_SIZE \<le> e"
    using u by (simp_all add: PAGE_SIZE_def word_le_nat_alt unat_div)
  with assms(1) show "direct s T ((a + of_nat k) div PAGE_SIZE)" by blast
qed

lemma holds_read: "holds s a bs \<Longrightarrow> length bs = n \<Longrightarrow> read_bytes s a n = Inr bs"
  using holds_read_bytes by blast

section \<open>The root pointer\<close>

definition rsdp_bytes :: "RsdpDescriptor \<Rightarrow> u8 list" where
  "rsdp_bytes r = rsdp_signature r @ [rsdp_checksum r] @ rsdp_oem_id r @ [rsdp_revision r] @ le_bytes 4 (rsdt_address r)
     @ le_bytes 4 (rsdp_length r) @ le_bytes 8 (xsdt_address r) @ [rsdp_extended_checksum r] @ rsdp_reserved r"

definition rsdp_ok :: "RsdpDescriptor \<Rightarrow> bool" where
  "rsdp_ok r \<longleftrightarrow> rsdp_signature r = RSD_PTR \<and> length (rsdp_oem_id r) = 6 \<and> length (rsdp_reserved r) = 3"

lemma rsdp_bytes_length: "rsdp_ok r \<Longrightarrow> length (rsdp_bytes r) = 36"
  by (simp add: rsdp_ok_def rsdp_bytes_def RSD_PTR_def)

lemma read_rsdp_bytes:
  assumes "rsdp_ok r" and "holds s a (rsdp_bytes r)"
  shows "read_rsdp s a = Inr r"
proof -
  have l: "length (rsdp_signature r) = 8" "length (rsdp_oem_id r) = 6" "length (rsdp_reserved r) = 3"
    using assms(1) by (simp_all add: rsdp_ok_def RSD_PTR_def)
  have "holds s a (rsdp_signature r)" "read8 s (a + 8) = Inr (rsdp_checksum r)" "holds s (a + 9) (rsdp_oem_id r)"
    "read8 s (a + 15) = Inr (rsdp_revision r)" "holds s (a + 16) (le_bytes 4 (rsdt_address r))"
    "holds s (a + 20) (le_bytes 4 (rsdp_length r))" "holds s (a + 24) (le_bytes 8 (xsdt_address r))"
    "read8 s (a + 32) = Inr (rsdp_extended_checksum r)" "holds s (a + 33) (rsdp_reserved r)"
    using assms(2) l by (simp_all add: rsdp_bytes_def holds_append holds_Cons add.assoc)
  moreover from this have "read_bytes s a 8 = Inr (rsdp_signature r)" "read_bytes s (a + 9) 6 = Inr (rsdp_oem_id r)"
    "read_bytes s (a + 33) 3 = Inr (rsdp_reserved r)"
    using holds_read l by simp_all
  ultimately show ?thesis
    by (simp add: read_rsdp_def holds_read32 holds_read_le of_le_bytes_full del: read_bytes.simps)
qed

lemma search_skips:
  assumes "\<forall>i \<in> set xs. unat start + 16 * unat i < 2 ^ 64 \<and> (\<exists>sig. read_bytes s (start + i * 16) 8 = Inr sig \<and> sig \<noteq> RSD_PTR)"
  shows "rsdp_search_loop hw s start (xs @ ys) l = rsdp_search_loop hw s start ys l"
  using assms
proof (induction xs)
  case (Cons i xs)
  then have b: "unat start + 16 * unat i < 2 ^ 64" by simp
  then have "checked_mul i 16 = Inr (i * 16)" "unat (i * 16) = 16 * unat i"
    by (simp_all add: checked_mul_def unat_word_ariths)
  with b Cons show ?case by (auto simp: checked_add_def simp del: read_bytes.simps)
qed simp

section \<open>Mapping more pages\<close>

text \<open>
  Tables that were extended: only translations of pages of \<open>P\<close> changed, at most \<open>c\<close> frames were used,
  and what was mapped to itself still is.
\<close>

definition extended :: "vm \<Rightarrow> Frame \<Rightarrow> Page set \<Rightarrow> nat \<Rightarrow> vm \<Rightarrow> bool" where
  "extended s T P c s' \<longleftrightarrow>
     pt_wf s' T \<and> kept s T s' \<and> card (free_now s) \<le> card (free_now s') + c
     \<and> (\<forall>n. direct s T n \<longrightarrow> direct s' T n)
     \<and> (\<forall>q. p4_index q \<noteq> 511 \<longrightarrow> page_path q \<notin> page_path ` P \<longrightarrow>
          page_map s' T q = page_map s T q \<and> (mappable s T q \<longrightarrow> mappable s' T q))"

lemma extended_refl: "pt_wf s T \<Longrightarrow> extended s T {} 0 s"
  by (simp add: extended_def)

lemma extended_trans:
  assumes "extended s T P c s'" and "extended s' T Q d s''"
  shows "extended s T (P \<union> Q) (c + d) s''"
  using assms kept_trans [of s T s' s''] unfolding extended_def image_Un by auto

lemma direct_other:
  assumes "kept s T s'" and "direct s T n" and "page_map s' T (Page n) = page_map s T (Page n)"
  shows "direct s' T n"
  using assms kept_small_mapped [of s T s' "Page n"] low_page_ok(2) [of n] by (simp add: direct_def)

lemma direct_not_mappable:
  assumes "direct s T n" and "mappable s T p"
  shows "page_path (Page n) \<noteq> page_path p"
proof
  assume "page_path (Page n) = page_path p"
  then have "page_map s T (Page n) = page_map s T p" by (simp add: page_map_def page_path_def)
  with assms mappable_unmapped(1) [OF assms(2)] show False by (simp add: direct_def)
qed

context page_loop
begin

lemma loop_extended:
  assumes "loop_ready s T xs" and "loop_done s T xs s'"
  shows "extended s T (page ` set xs) (4 * length xs) s'"
  unfolding extended_def
proof (intro conjI allI impI)
  note d = assms(2) [unfolded loop_done_def]
  show "pt_wf s' T" and k: "kept s T s'" and "card (free_now s) \<le> card (free_now s') + 4 * length xs" using d by blast+
  have out: "page_map s' T q = page_map s T q \<and> (mappable s T q \<longrightarrow> mappable s' T q)"
    if "p4_index q \<noteq> 511" "page_path q \<notin> page_path ` page ` set xs" for q
    using d that by (metis imageI)
  then show "page_map s' T q = page_map s T q" "mappable s T q \<Longrightarrow> mappable s' T q"
    if "p4_index q \<noteq> 511" "page_path q \<notin> page_path ` page ` set xs" for q
    using that by blast+
  show "direct s' T n" if n: "direct s T n" for n
  proof -
    have "page_path (Page n) \<noteq> page_path (page x)" if "x \<in> set xs" for x
      using direct_not_mappable [OF n] assms(1) that by (simp add: loop_ready_def)
    then have "page_path (Page n) \<notin> page_path ` page ` set xs" by blast
    with out [of "Page n"] n low_page_ok(2) show ?thesis by (intro direct_other [OF k n]) (simp add: direct_def)
  qed
qed

end

text \<open>Mapping frames to the pages of their own number, with a flush each.\<close>

lemma map_frame_flush_low:
  assumes "low_frame f"
  shows "map_frame_flush flags f s = rbind (map_to (identity_page f) f flags s) (\<lambda>(res, s). mapper_flush res s)"
  using identity_page_containing [OF assms] by (auto simp: map_frame_flush_def res_simps)

lemma map_flush_round:
  assumes "pt_wf s T" and "mappable s T (identity_page f)" and "4 \<le> card (free_now s)" and "low_frame f" and "flags_ok flags"
  shows "\<exists>s'. rbind (map_to (identity_page f) f flags s) (\<lambda>(res, s). mapper_flush res s) = Inr s'
     \<and> mapped_page s T (identity_page f) f (bit flags 1) s'"
proof -
  have n: "frame_number f < 0x800000000" using assms(4) by (simp add: low_frame_def)
  note p = low_page_ok(1,2) [OF n, folded identity_page_def]
  from map_to_mapped_page [OF assms(1,2) p(2) _ low_frame_ok [OF assms(4)] assms(5)] assms(3) show ?thesis
    using mapper_flush_ok [OF p(1)] by (fastforce simp del: mapper_flush.simps)
qed

interpretation firmware_loop: page_loop "map_frame_flush (PRESENT OR NO_EXECUTE)" identity_page low_frame
  "\<lambda>f A F w. F = f \<and> \<not> w"
proof
  fix s T x assume a: "pt_wf s T" "mappable s T (identity_page x)" "4 \<le> card (free_now s)" "low_frame x"
  have "\<not> bit (PRESENT OR NO_EXECUTE) 1" by (simp add: bit_or_iff bit_flag_consts del: One_nat_def)
  with map_flush_round [OF a, of "PRESENT OR NO_EXECUTE"] map_frame_flush_low [OF a(4)]
  show "\<exists>F w s'. map_frame_flush (PRESENT OR NO_EXECUTE) x s = Inr s' \<and> (F = x \<and> \<not> w) \<and> mapped_page s T (identity_page x) F w s'"
    by (auto simp: flags_ok_or)
qed

section \<open>Finding the root pointer\<close>

definition firmware_frames :: "Frame list" where
  "firmware_frames = map Frame (word_range 0xe0 0xff)"

definition rsdp_place :: "nat \<Rightarrow> usize" where
  "rsdp_place k = 0xe0000 + of_nat k * 16"

text \<open>The first root pointer in the firmware's area, at a place where all of it is inside the area.\<close>

definition rsdp_first :: "memory \<Rightarrow> nat \<Rightarrow> RsdpDescriptor \<Rightarrow> bool" where
  "rsdp_first m k r \<longleftrightarrow> k < 8190 \<and> rsdp_ok r \<and> stored m (rsdp_place k) (rsdp_bytes r)
     \<and> (\<forall>j < k. \<not> stored m (rsdp_place j) RSD_PTR)"

lemma stored_cong:
  assumes "\<And>k. k < length bs \<Longrightarrow> m' (Frame ((a + of_nat k) div PAGE_SIZE)) = m (Frame ((a + of_nat k) div PAGE_SIZE))"
  shows "stored m' a bs \<longleftrightarrow> stored m a bs"
  using assms by (simp add: stored_def phys8_def)

lemma rsdp_place_unat: "k < 8192 \<Longrightarrow> unat (rsdp_place k) = 0xe0000 + 16 * k"
  by (simp add: rsdp_place_def unat_word_ariths unat_of_nat)

lemma in_area:
  assumes "0xe0000 \<le> unat a" and "unat a < 0x100000"
  shows "0xe0 \<le> a div PAGE_SIZE" and "a div PAGE_SIZE \<le> 0xff"
  using assms by (simp_all add: PAGE_SIZE_def word_le_nat_alt unat_div)

lemma area_byte:
  assumes "k < 8192" and "16 * k + n \<le> 0x20000" and "i < n"
  shows "0xe0 \<le> (rsdp_place k + of_nat i) div PAGE_SIZE" and "(rsdp_place k + of_nat i) div PAGE_SIZE \<le> 0xff"
proof -
  have "unat (rsdp_place k + of_nat i) = 0xe0000 + 16 * k + i"
    using assms rsdp_place_unat [OF assms(1)] by (subst unat_offset) simp_all
  with assms show "0xe0 \<le> (rsdp_place k + of_nat i) div PAGE_SIZE" "(rsdp_place k + of_nat i) div PAGE_SIZE \<le> 0xff"
    by (intro in_area; simp)+
qed

lemma rsdp_search_first_found:
  assumes d: "\<forall>n. 0xe0 \<le> n \<and> n \<le> 0xff \<longrightarrow> direct s (cr3_frame s) n" and f: "rsdp_first (pmem s) k r"
    and sr: "serial_ready hw COM1"
  shows "\<exists>l'. rsdp_search hw s 0xe0000 0xfffff l = Inr (Some r, l') \<and> printed l l'"
proof -
  have k: "k < 8190" "rsdp_ok r" "stored (pmem s) (rsdp_place k) (rsdp_bytes r)" "\<forall>j < k. \<not> stored (pmem s) (rsdp_place j) RSD_PTR"
    using f by (simp_all add: rsdp_first_def)
  have db: "direct_bytes s (cr3_frame s) (rsdp_place j) n" if "j < 8192" "16 * j + n \<le> 0x20000" for j n
    using d area_byte [OF that] by (simp add: direct_bytes_def)
  have h: "holds s (rsdp_place k) (rsdp_bytes r)"
    using k rsdp_bytes_length [OF k(2)] by (intro stored_holds db) simp_all
  then have "holds s (rsdp_place k) RSD_PTR" using k(2) by (simp add: rsdp_bytes_def holds_append rsdp_ok_def)
  then have sig: "read_bytes s (rsdp_place k) 8 = Inr RSD_PTR" by (rule holds_read) (simp add: RSD_PTR_def)
  have skip: "\<exists>sig. read_bytes s (rsdp_place j) 8 = Inr sig \<and> sig \<noteq> RSD_PTR" if "j < k" for j
  proof -
    have "direct_bytes s (cr3_frame s) (rsdp_place j) 8" using that k(1) by (intro db) simp_all
    with direct_read_bytes direct_read_stored k(4) that show ?thesis by metis
  qed
  have n: "map of_nat [0 ..< 8192] = map of_nat [0 ..< k] @ (of_nat k :: usize) # map of_nat [Suc k ..< 8192]"
    using k(1) upt_add_eq_append [of 0 k "8192 - k"] upt_conv_Cons [of k 8192] by simp
  obtain l' where l': "println hw (''[ acpi ] Found RSDP at '' @ fmt_alternate_hex (rsdp_place k)) l = Inr l'" "printed l l'"
    by (rule println_printed [OF sr])
  have "rsdp_search_loop hw s 0xe0000 (map of_nat [0 ..< 8192]) l = Inr (Some r, l')"
    unfolding n
  proof (subst search_skips)
    show "\<forall>i \<in> set (map of_nat [0 ..< k]). unat (0xe0000 :: usize) + 16 * unat i < 2 ^ 64
        \<and> (\<exists>sig. read_bytes s (0xe0000 + i * 16) 8 = Inr sig \<and> sig \<noteq> RSD_PTR)"
      using skip k(1) by (auto simp: rsdp_place_def unat_of_nat simp del: read_bytes.simps)
    have "unat (of_nat k :: usize) = k" using k(1) by (simp add: unat_of_nat)
    then have "checked_mul (of_nat k) 16 = Inr (of_nat k * 16 :: usize)" "unat (of_nat k * 16 :: usize) = 16 * k"
      using k(1) by (simp_all add: checked_mul_def unat_word_ariths)
    then show "rsdp_search_loop hw s 0xe0000 (of_nat k # map of_nat [Suc k ..< 8192]) l = Inr (Some r, l')"
      using k(1) sig read_rsdp_bytes [OF k(2) h] l'(1) by (simp add: checked_add_def rsdp_place_def del: read_bytes.simps)
  qed
  then show ?thesis using l'(2) by (auto simp: rsdp_search_def checked_add_def checked_sub_def)
qed

lemma kept_stored:
  assumes "kept s T s'" and "\<And>k. k < length bs \<Longrightarrow> idle s {T} (Frame ((a + of_nat k) div PAGE_SIZE))"
  shows "stored (pmem s') a bs \<longleftrightarrow> stored (pmem s) a bs"
  using kept_spared [OF assms(1)] assms(2) by (intro stored_cong) (simp add: spared_def)

lemma firmware_ready:
  assumes "\<forall>f \<in> set firmware_frames. mappable s T (identity_page f)" and "128 \<le> card (free_now s)"
  shows "firmware_loop.loop_ready s T firmware_frames"
proof -
  have low: "k < 0x800000000" if "k \<le> 0xff" for k :: usize using that by (simp add: word_le_nat_alt word_less_nat_alt)
  have "inj_on (\<lambda>k. page_path (Page k)) {k. 0xe0 \<le> k \<and> k \<le> 0xff}"
    using page_path_low_inj low by (intro inj_onI) auto
  then have "distinct (map (\<lambda>f. page_path (identity_page f)) firmware_frames)"
    by (simp add: firmware_frames_def identity_page_def distinct_map comp_def inj_on_def)
  moreover have "\<forall>f \<in> set firmware_frames. p4_index (identity_page f) \<noteq> 511 \<and> low_frame f"
    using low_page_ok low by (auto simp: firmware_frames_def identity_page_def low_frame_def)
  moreover have "length firmware_frames = 32" by (simp add: firmware_frames_def)
  ultimately show ?thesis using assms by (simp add: firmware_loop.loop_ready_def)
qed

lemma firmware_mapped:
  assumes "firmware_loop.loop_done s T firmware_frames s'"
  shows "\<forall>n. 0xe0 \<le> n \<and> n \<le> 0xff \<longrightarrow> direct s' T n"
proof (intro allI impI)
  fix n :: usize assume n: "0xe0 \<le> n \<and> n \<le> 0xff"
  then have f: "Frame n \<in> set firmware_frames" by (simp add: firmware_frames_def)
  have "small_mapped s' T (identity_page f)" "\<exists>w. page_map s' T (identity_page f) = Some (f, w)"
    if "f \<in> set firmware_frames" for f
    using assms that unfolding firmware_loop.loop_done_def by blast+
  from this [OF f] have "small_mapped s' T (Page n)" "\<exists>w. page_map s' T (Page n) = Some (Frame n, w)"
    by (simp_all add: identity_page_def)
  moreover have "n < 0x800000000" using n by (simp add: word_le_nat_alt word_less_nat_alt)
  ultimately show "direct s' T n" by (auto simp: direct_def)
qed

lemma rsdp_first_same:
  assumes "\<forall>f \<in> set firmware_frames. m' f = m f" and "rsdp_first m k r"
  shows "rsdp_first m' k r"
proof -
  have k: "k < 8190" "rsdp_ok r" using assms(2) by (simp_all add: rsdp_first_def)
  have "stored m' (rsdp_place j) bs \<longleftrightarrow> stored m (rsdp_place j) bs" if "j < 8192" "16 * j + length bs \<le> 0x20000" for j bs
    using assms(1) area_byte [OF that] by (intro stored_cong) (simp add: firmware_frames_def)
  then show ?thesis
    using assms(2) k rsdp_bytes_length [OF k(2)] by (simp add: rsdp_first_def RSD_PTR_def)
qed

lemma kept_idle: "kept s T s' \<Longrightarrow> idle s {T} f \<Longrightarrow> pmem s' f = pmem s f"
  using kept_spared by (simp add: spared_def)

lemma rsdp_init_ok:
  assumes "pt_wf s T" and "cr3_frame s = T"
    and "\<forall>f \<in> set firmware_frames. mappable s T (identity_page f)" and "\<forall>f \<in> set firmware_frames. idle s {T} f"
    and "128 \<le> card (free_now s)" and "rsdp_first (pmem s) k r"
    and s: "s = pvm p" and sr: "serial_ready hw COM1"
  shows "\<exists>p'. rsdp_init hw p = Inr (Some r, p') \<and> extended s T (identity_page ` set firmware_frames) 128 (pvm p')
     \<and> (\<forall>n. 0xe0 \<le> n \<and> n \<le> 0xff \<longrightarrow> direct (pvm p') T n) \<and> APIC_MANAGER p' = APIC_MANAGER p"
proof -
  note ready = firmware_ready [OF assms(3,5)]
  obtain s' where s': "rfold (map_frame_flush (PRESENT OR NO_EXECUTE)) firmware_frames s = Inr s'"
    and d: "firmware_loop.loop_done s T firmware_frames s'"
    using firmware_loop.loop_maps [OF assms(1) ready] by blast
  have k: "kept s T s'" using d unfolding firmware_loop.loop_done_def by blast
  have cr: "cr3_frame s' = T" using kept_cr3 [OF k] assms(2) by simp
  note m = firmware_mapped [OF d]
  obtain p' where search: "rsdp_search hw s' 0xe0000 0xfffff (p\<lparr>pvm := s'\<rparr>) = Inr (Some r, p')" "printed (p\<lparr>pvm := s'\<rparr>) p'"
    using rsdp_search_first_found [OF _ _ sr, of s' k r "p\<lparr>pvm := s'\<rparr>"] m rsdp_first_same [OF _ assms(6)] kept_idle [OF k] assms(4) cr
    by auto
  have "frames_of (frame_range_inclusive (frame_containing_address (PhysicalAddress 0xe0000))
      (frame_containing_address (PhysicalAddress 0xfffff))) = Inr firmware_frames"
    by (simp add: frames_of_range frame_containing_address_def PAGE_SIZE_def firmware_frames_def)
  with s' search(1) s have "rsdp_init hw p = Inr (Some r, p')" by (simp add: rsdp_init_def Let_def)
  with m firmware_loop.loop_extended [OF ready d] printed_platform [OF search(2)] show ?thesis by (auto simp: firmware_frames_def)
qed

section \<open>Mapping a table\<close>

definition ready_page :: "vm \<Rightarrow> Frame \<Rightarrow> usize \<Rightarrow> bool" where
  "ready_page s T n \<longleftrightarrow> n < 0x800000000 \<and> (direct s T n \<or> mappable s T (Page n))"

lemma extended_more: "extended s T P c s' \<Longrightarrow> P \<subseteq> Q \<Longrightarrow> c \<le> d \<Longrightarrow> extended s T Q d s'"
  unfolding extended_def by (meson image_mono le_trans add_left_mono subsetD)

lemma low_path_out:
  assumes "n < 0x800000000" and "\<forall>p \<in> P. page_number p < 0x800000000" and "Page n \<notin> P"
  shows "page_path (Page n) \<notin> page_path ` P"
proof
  assume "page_path (Page n) \<in> page_path ` P"
  then obtain p where p: "p \<in> P" "page_path (Page n) = page_path p" by auto
  then have "n = page_number p" using page_path_low_inj [of n "page_number p"] assms(1,2) by simp
  with p(1) assms(3) show False by simp
qed

lemma extended_other:
  assumes "extended s T P c s'" and "n < 0x800000000" and "\<forall>p \<in> P. page_number p < 0x800000000" and "Page n \<notin> P"
  shows "page_map s' T (Page n) = page_map s T (Page n)" and "mappable s T (Page n) \<Longrightarrow> mappable s' T (Page n)"
  using assms(1) low_path_out [OF assms(2-4)] low_page_ok(2) [OF assms(2)] by (simp_all add: extended_def)

lemma ready_page_extended:
  assumes "extended s T P c s'" and "ready_page s T n" and "Page n \<in> P \<Longrightarrow> direct s' T n"
    and "\<forall>p \<in> P. page_number p < 0x800000000"
  shows "ready_page s' T n"
proof (cases "Page n \<in> P")
  case True
  with assms show ?thesis by (simp add: ready_page_def)
next
  case False
  with assms(1,2) extended_other(2) [OF assms(1) _ assms(4) False] show ?thesis by (auto simp: ready_page_def extended_def)
qed

lemma mapped_page_extended:
  assumes "mapped_page s T (Page n) (Frame n) w s'" and "mappable s T (Page n)" and "n < 0x800000000"
  shows "extended s T {Page n} 4 s'" and "direct s' T n"
proof -
  note m = assms(1) [unfolded mapped_page_def]
  show "direct s' T n" using m assms(3) by (simp add: direct_def)
  have "direct s' T k" if "direct s T k" for k
    using direct_other [OF _ that] m direct_not_mappable [OF that assms(2)] low_page_ok(2) [of k] that by (auto simp: direct_def)
  then show "extended s T {Page n} 4 s'" using m by (auto simp: extended_def)
qed

lemma map_if_unmapped_ok:
  assumes "pt_wf s T" and "ready_page s T n" and "4 \<le> card (free_now s)"
  shows "\<exists>s'. map_if_unmapped (Page n) s = Inr s' \<and> extended s T {Page n} 4 s' \<and> direct s' T n"
proof (cases "direct s T n")
  case True
  then have n: "p4_index (Page n) \<noteq> 511" "huge_aligned (pmem s) T (Page n)"
    using low_page_ok(2) [of n] small_aligned by (auto simp: direct_def small_mapped_def)
  have "map_if_unmapped (Page n) s = Inr s"
    using translate_page_ok [OF assms(1) n] True by (auto simp: map_if_unmapped_def direct_def)
  moreover have "extended s T {Page n} 4 s" using extended_refl [OF assms(1)] by (rule extended_more) simp_all
  ultimately show ?thesis using True by blast
next
  case False
  then have n: "n < 0x800000000" and m: "mappable s T (Page n)" using assms(2) by (auto simp: ready_page_def)
  note p = low_page_ok [OF n]
  have "translate_page s (Page n) = Inr None"
    using translate_page_ok [OF assms(1) p(2) mappable_unmapped(2) [OF m]] mappable_unmapped(1) [OF m] by simp
  then have "map_if_unmapped (Page n) s
      = rbind (map_to (Page n) (Frame n) (PRESENT OR NO_EXECUTE) s) (\<lambda>(res, s). mapper_flush res s)"
    using page_start_ok [OF p(1)] p(3)
    by (simp add: map_if_unmapped_def frame_containing_address_def div_PAGE_SIZE)
  moreover obtain w s' where
    "rbind (map_to (Page n) (Frame n) (PRESENT OR NO_EXECUTE) s) (\<lambda>(res, s). mapper_flush res s) = Inr s'"
    "mapped_page s T (Page n) (Frame n) w s'"
    using map_flush_round [of s T "Frame n" "PRESENT OR NO_EXECUTE"] assms(1,3) m n
    by (auto simp: identity_page_def low_frame_def flags_ok_or)
  ultimately show ?thesis using mapped_page_extended [OF _ m n] by auto
qed

lemma map_pages_ok:
  assumes "pt_wf s T" and "\<forall>n \<in> set ns. ready_page s T n" and "4 * length ns \<le> card (free_now s)"
  shows "\<exists>s'. rfold map_if_unmapped (map Page ns) s = Inr s' \<and> extended s T (Page ` set ns) (4 * length ns) s'
     \<and> (\<forall>n \<in> set ns. direct s' T n)"
  using assms
proof (induction ns arbitrary: s)
  case Nil
  then show ?case using extended_refl by simp
next
  case (Cons n ns)
  obtain s1 where s1: "map_if_unmapped (Page n) s = Inr s1" "extended s T {Page n} 4 s1" "direct s1 T n"
    using map_if_unmapped_ok [OF Cons.prems(1), of n] Cons.prems(2,3) by auto
  have "n < 0x800000000" using Cons.prems(2) by (simp add: ready_page_def)
  then have "\<forall>m \<in> set ns. ready_page s1 T m"
    using ready_page_extended [OF s1(2)] s1(3) Cons.prems(2) by auto
  moreover have "pt_wf s1 T" "4 * length ns \<le> card (free_now s1)" using s1(2) Cons.prems(3) by (simp_all add: extended_def)
  ultimately obtain s' where s': "rfold map_if_unmapped (map Page ns) s1 = Inr s'"
      "extended s1 T (Page ` set ns) (4 * length ns) s'" "\<forall>n \<in> set ns. direct s' T n"
    using Cons.IH by blast
  have "extended s T (Page ` set (n # ns)) (4 * length (n # ns)) s'"
    using extended_trans [OF s1(2) s'(2)] by (simp add: add.commute)
  moreover have "direct s' T n" using s'(2) s1(3) by (simp add: extended_def)
  ultimately show ?case using s1(1) s'(1,3) by auto
qed

text \<open>A table of \<open>len\<close> bytes at \<open>a\<close>: its pages, and a header whose length is inside the first page.\<close>

definition table_pages :: "usize \<Rightarrow> u32 \<Rightarrow> usize set" where
  "table_pages a len = {n. a div PAGE_SIZE \<le> n \<and> n \<le> (a + ucast len) div PAGE_SIZE}"

definition table_fits :: "usize \<Rightarrow> u32 \<Rightarrow> bool" where
  "table_fits a len \<longleftrightarrow> unat a mod 4096 + 8 \<le> 4096 \<and> unat a + 4096 + unat len < 0x800000000000"

definition table_cost :: "usize \<Rightarrow> u32 \<Rightarrow> nat" where
  "table_cost a len = 4 * (unat len div 4096 + 2)"

lemma unat_ucast_32: "unat (ucast (w :: u32) :: usize) = unat w"
proof -
  have "unat w < 2 ^ 64" using unat_bound [of w] by simp
  then show ?thesis by (simp add: unsigned_ucast_eq take_bit_nat_eq_self_iff)
qed

lemma div_same: "(x :: nat) mod m + y < m \<Longrightarrow> (x + y) div m = x div m"
  by (subst div_add1_eq) auto

lemma table_fits_arith:
  assumes "table_fits a len"
  shows "checked_add a 4096 = Inr (a + 4096)" and "checked_add a (ucast len) = Inr (a + ucast len)"
    and "(a + 4096) div PAGE_SIZE = a div PAGE_SIZE + 1" and "is_canonical a" and "is_canonical (a + 4096)"
    and "is_canonical (a + ucast len)" and "(a + ucast len) div PAGE_SIZE < 0x800000000"
    and "unat (a + ucast len) = unat a + unat len" and "a div PAGE_SIZE \<le> (a + ucast len) div PAGE_SIZE"
    and "unat (a div PAGE_SIZE + 1) = unat a div 4096 + 1"
proof -
  have b: "unat a + 4096 + unat len < 0x800000000000" using assms by (simp add: table_fits_def)
  have l: "unat (ucast len :: usize) = unat len" by (rule unat_ucast_32)
  have u: "unat (a + 4096) = unat a + 4096" using b by (simp add: unat_word_ariths)
  show ul: "unat (a + ucast len) = unat a + unat len" using b l by (simp add: unat_word_ariths)
  show "checked_add a 4096 = Inr (a + 4096)" "checked_add a (ucast len) = Inr (a + ucast len)"
    using b l by (simp_all add: checked_add_def)
  have d: "unat (a div PAGE_SIZE) = unat a div 4096" by (simp add: PAGE_SIZE_def unat_div)
  show d1: "unat (a div PAGE_SIZE + 1) = unat a div 4096 + 1" using b d by (simp add: unat_word_ariths)
  show "(a + 4096) div PAGE_SIZE = a div PAGE_SIZE + 1"
    using u d1 by (simp add: PAGE_SIZE_def word_unat_eq_iff unat_div)
  show "is_canonical a" "is_canonical (a + 4096)" "is_canonical (a + ucast len)"
    using b u ul by (simp_all add: is_canonical_def word_less_nat_alt)
  show "(a + ucast len) div PAGE_SIZE < 0x800000000"
    using b ul by (simp add: PAGE_SIZE_def word_less_nat_alt unat_div div_less_iff_less_mult)
  show "a div PAGE_SIZE \<le> (a + ucast len) div PAGE_SIZE"
    using ul d by (simp add: PAGE_SIZE_def word_le_nat_alt unat_div div_le_mono)
qed

lemma get_sdt_ok:
  assumes wf: "pt_wf s T" "cr3_frame s = T" and fits: "table_fits a len"
    and pages: "\<forall>n \<in> table_pages a len. ready_page s T n \<and> idle s {T} (Frame n)"
    and len: "stored (pmem s) (a + 4) (le_bytes 4 len)" and free: "table_cost a len \<le> card (free_now s)"
  shows "\<exists>s'. get_sdt a s = Inr (a, s') \<and> extended s T (Page ` table_pages a len) (table_cost a len) s'
     \<and> (\<forall>n \<in> table_pages a len. direct s' T n)"
proof -
  note ar = table_fits_arith [OF fits]
  let ?p = "a div PAGE_SIZE" and ?e = "(a + ucast len) div PAGE_SIZE"
  have pP: "?p \<in> table_pages a len" using ar(9) by (simp add: table_pages_def)
  obtain s1 where s1: "map_if_unmapped (Page ?p) s = Inr s1" "extended s T {Page ?p} 4 s1" "direct s1 T ?p"
    using map_if_unmapped_ok [OF wf(1)] pages pP free by (auto simp: table_cost_def)
  have k1: "kept s T s1" using s1(2) by (simp add: extended_def)
  have cr: "cr3_frame s1 = T" using kept_cr3 [OF k1] wf(2) by simp
  have inp: "(a + 4 + of_nat k) div PAGE_SIZE = ?p" if "k < 4" for k
  proof -
    have "unat (a + of_nat (4 + k)) = unat a + (4 + k)" using that fits by (intro unat_offset) (simp add: table_fits_def)
    moreover have "unat a mod 4096 + (4 + k) < 4096" using that fits by (simp add: table_fits_def)
    then have "(unat a + (4 + k)) div 4096 = unat a div 4096" by (rule div_same)
    ultimately show ?thesis by (simp add: PAGE_SIZE_def word_unat_eq_iff unat_div add.assoc)
  qed
  have "stored (pmem s1) (a + 4) (le_bytes 4 len)"
    using inp len pages pP by (subst kept_stored [OF k1]) simp_all
  moreover have "direct_bytes s1 T (a + 4) (length (le_bytes 4 len))" using inp s1(3) by (simp add: direct_bytes_def)
  ultimately have l: "sdt_length s1 a = Inr len"
    using holds_read32 stored_holds cr by (simp add: sdt_length_def)
  let ?ns = "word_range (?p + 1) ?e"
  have pl: "?p < 0x800000000" "?e \<noteq> -1" using ar(7,9) low_ne_max by auto
  have ns: "set ?ns \<subseteq> table_pages a len"
    using ar(10) by (auto simp: table_pages_def word_le_nat_alt unat_div PAGE_SIZE_def)
  have cost: "4 + 4 * length ?ns \<le> table_cost a len"
  proof -
    have "unat ?e = (unat a + unat len) div 4096" using ar(8) by (simp add: PAGE_SIZE_def unat_div)
    moreover have "(unat a + unat len) div 4096 \<le> unat a div 4096 + unat len div 4096 + 1" by linarith
    ultimately show ?thesis using ar(10) by (simp add: table_cost_def)
  qed
  have "\<forall>n \<in> set ?ns. ready_page s1 T n"
    using ready_page_extended [OF s1(2)] s1(3) pages ns pl(1) by auto
  moreover have "4 * length ?ns \<le> card (free_now s1)" "pt_wf s1 T" using s1(2) cost free by (simp_all add: extended_def)
  ultimately obtain s' where s': "rfold map_if_unmapped (map Page ?ns) s1 = Inr s'"
      "extended s1 T (Page ` set ?ns) (4 * length ?ns) s'" "\<forall>n \<in> set ?ns. direct s' T n"
    using map_pages_ok by blast
  have "pages_of (page_range_inclusive (Page (?p + 1)) (Page ?e)) = Inr (map Page ?ns)"
    using pages_of_range [of "Page ?e" "Page (?p + 1)"] pl(2) by simp
  then have "get_sdt a s = Inr (a, s')"
    using s1(1) l s'(1) ar by (simp add: get_sdt_def page_containing_address_def)
  moreover have "extended s T (Page ` table_pages a len) (table_cost a len) s'"
    by (rule extended_more [OF extended_trans [OF s1(2) s'(2)]]) (use ns pP cost in auto)
  moreover have "direct s' T n" if "n \<in> table_pages a len" for n
  proof (cases "n = ?p")
    case True
    then show ?thesis using s1(3) s'(2) by (simp add: extended_def)
  next
    case False
    with that have "?p < n" "n \<le> ?e" by (auto simp: table_pages_def)
    then have "?p + 1 \<le> n" using ar(10) by (simp add: word_less_nat_alt word_le_nat_alt unat_div PAGE_SIZE_def)
    with \<open>n \<le> ?e\<close> s'(3) show ?thesis by simp
  qed
  ultimately show ?thesis by blast
qed

section \<open>The interrupt controllers\<close>

interpretation registers_loop: page_loop map_registers "\<lambda>a. Page (ucast a div PAGE_SIZE)" "\<lambda>_. True"
  "\<lambda>a A F w. F = Frame (ucast a div PAGE_SIZE) \<and> w"
proof
  fix s T and x :: u32
  let ?n = "ucast x div PAGE_SIZE :: usize"
  assume a: "pt_wf s T" "mappable s T (Page ?n)" "4 \<le> card (free_now s)"
  have "unat x < 2 ^ 32" using unat_bound [of x] by simp
  then have n: "?n < 0x800000000"
    by (simp add: PAGE_SIZE_def word_less_nat_alt unat_div unat_ucast_32 div_less_iff_less_mult)
  have w: "bit (PRESENT OR WRITABLE OR NO_EXECUTE) 1" "flags_ok (PRESENT OR WRITABLE OR NO_EXECUTE)"
    by (simp_all add: bit_or_iff bit_flag_consts flags_ok_or del: One_nat_def)
  have "map_registers x s = rbind (map_to (Page ?n) (Frame ?n) (PRESENT OR WRITABLE OR NO_EXECUTE) s) (\<lambda>(res, s). mapper_flush res s)"
    using low_address_canonical [OF n] by (simp add: map_registers_def page_containing_address_def frame_containing_address_def Let_def)
  with map_flush_round [of s T "Frame ?n" "PRESENT OR WRITABLE OR NO_EXECUTE"] a n w
  show "\<exists>F w s'. map_registers x s = Inr s' \<and> (F = Frame ?n \<and> w) \<and> mapped_page s T (Page ?n) F w s'"
    by (auto simp: identity_page_def low_frame_def)
qed

text \<open>What the set-up of the controllers needs: registers that do not overflow, a processor for redirections.\<close>

definition manager_ok :: "ApicManager \<Rightarrow> bool" where
  "manager_ok m \<longleftrightarrow> unat (lapic_base m) + 0x360 < 2 ^ 32 \<and> length (nmis m) \<le> 112 \<and> (isos m \<noteq> [] \<longrightarrow> local_apics m \<noteq> [])"

definition registers :: "ApicManager \<Rightarrow> u32 list" where
  "registers m = lapic_base m # map io_apic_address (io_apics m)"

lemma install_nmi_ok:
  assumes "manager_ok m" and "serial_ready hw COM1" and "i < 112"
  shows "\<exists>l'. install_nmi hw m (i, n) l = Inr l' \<and> printed l l'"
proof -
  have c: "checked_add 0x90 (of_nat i :: u8) = Inr (0x90 + of_nat i)" "checked_add 0x90 (of_nat i :: usize) = Inr (0x90 + of_nat i)"
    using assms(3) by (simp_all add: checked_add_def unat_of_nat)
  obtain l1 where 1: "println hw (''[ dev ] Installing NMI '' @ fmt_display (of_nat i :: usize) @ '', vector offset: ''
      @ fmt_alternate_hex (0x90 + of_nat i :: usize)) l = Inr l1" "printed l l1" by (rule println_printed [OF assms(2)])
  obtain l2 where 2: "println hw (''[ dev ] NMI has flags: '' @ fmt_display (nmi_flags n) @ '', using register LVT''
      @ fmt_display (lint_no n)) l1 = Inr l2" "printed l1 l2" by (rule println_printed [OF assms(2)])
  obtain l3 where 3: "println hw (''[ dev ] Setting NMI, '' @ fmt_alternate_hex (lapic_nmi_value (0x90 + of_nat i) (nmi_flags n))) l2 = Inr l3"
    "printed l2 l3" by (rule println_printed [OF assms(2)])
  have "install_nmi hw m (i, n) l = Inr l3"
    using c 1(1) 2(1) 3(1) assms(1)
    by (simp add: install_nmi_def lapic_set_nmi_def lapic_write_def manager_ok_def checked_add_def Let_def)
  then show ?thesis using printed_trans [OF printed_trans [OF 1(2) 2(2)] 3(2)] by blast
qed

lemma install_nmis_ok:
  assumes "manager_ok m" and "serial_ready hw COM1"
  shows "\<exists>l'. install_nmis hw m l = Inr l' \<and> printed l l'"
  unfolding install_nmis_def
proof (rule rfold_printed)
  fix x s assume "x \<in> set (enumerate 0 (nmis m))"
  then have "fst x < 112" using assms(1) by (auto simp: in_set_enumerate_eq manager_ok_def)
  from install_nmi_ok [OF assms this, of "snd x" s] show "\<exists>s'. install_nmi hw m x s = Inr s' \<and> printed s s'" by simp
qed

lemma install_redirects_ok:
  assumes "manager_ok m" and "serial_ready hw COM1"
  shows "\<exists>l'. install_redirects hw m l = Inr l' \<and> printed l l'"
  unfolding install_redirects_def
proof (rule rfold_printed)
  fix i s assume "i \<in> set (isos m)"
  then have "local_apics m \<noteq> []" using assms by (auto simp: manager_ok_def)
  moreover obtain s' where "println hw (''[ apic ] Error: Could not find an I/O APIC that handles GSI: '' @ fmt_display (gsi i)) s = Inr s'"
    "printed s s'" by (rule println_printed [OF assms(2)])
  ultimately show "\<exists>s'. rbind (rnth (local_apics m) 0) (\<lambda>a. set_redirect hw m (irq_source i) (gsi i) (iso_flags i) (lapic_id a) s)
      = Inr s' \<and> printed s s'"
    by (simp add: rnth_def set_redirect_def io_apic_from_gsi_none)
qed

lemma apic_init_ok:
  assumes "pt_wf (pvm p) T" and "registers_loop.loop_ready (pvm p) T (registers m)" and "manager_ok m" and "APIC_MANAGER p = Some m"
    and sr: "serial_ready hw COM1"
  shows "\<exists>p'. apic_init hw p = Inr p' \<and> registers_loop.loop_done (pvm p) T (registers m) (pvm p') \<and> APIC_MANAGER p' = APIC_MANAGER p"
proof -
  have e: "lapic_enable m = Inr ()"
    using assms(3) by (simp add: lapic_enable_def lapic_read_def lapic_write_def manager_ok_def checked_add_def)
  obtain p1 where 1: "println hw (''[ dev ] Initialising APIC, lapic base at '' @ fmt_alternate_hex (lapic_base m)) p = Inr p1" "printed p p1"
    by (rule println_printed [OF sr])
  obtain p2 where 2: "println hw ''[ dev ] Mapping local APIC address space...'' p1 = Inr p2" "printed p1 p2"
    by (rule println_printed [OF sr])
  have "\<exists>p3. rfold (report_max_redirect hw m) [0 ..< length (io_apics m)] p2 = Inr p3 \<and> printed p2 p3"
  proof (rule rfold_printed)
    fix i and s :: platform assume "i \<in> set [0 ..< length (io_apics m)]"
    moreover obtain s' where "println hw (''Max redirect for this i/o apic is '' @ fmt_display (0 :: u32)) s = Inr s'" "printed s s'"
      by (rule println_printed [OF sr])
    ultimately show "\<exists>s'. report_max_redirect hw m i s = Inr s' \<and> printed s s'"
      by (simp add: report_max_redirect_def get_max_redirect_zero)
  qed
  then obtain p3 where 3: "rfold (report_max_redirect hw m) [0 ..< length (io_apics m)] p2 = Inr p3" "printed p2 p3" by blast
  have v3: "pvm p3 = pvm p" "APIC_MANAGER p3 = APIC_MANAGER p"
    using printed_platform [OF printed_trans [OF printed_trans [OF 1(2) 2(2)] 3(2)]] by simp_all
  obtain v where v: "rfold map_registers (registers m) (pvm p) = Inr v" "registers_loop.loop_done (pvm p) T (registers m) v"
    using registers_loop.loop_maps [OF assms(1,2)] by blast
  obtain p4 where 4: "println hw ''[ dev ] Installing non-maskable interrupts...'' (p3\<lparr>pvm := v\<rparr>) = Inr p4" "printed (p3\<lparr>pvm := v\<rparr>) p4"
    by (rule println_printed [OF sr])
  obtain p5 where 5: "install_nmis hw m p4 = Inr p5" "printed p4 p5" using install_nmis_ok [OF assms(3) sr] by blast
  obtain p6 where 6: "println hw ''[ dev ] Installing interrupt source overrides...'' p5 = Inr p6" "printed p5 p6"
    by (rule println_printed [OF sr])
  obtain p7 where 7: "install_redirects hw m p6 = Inr p7" "printed p6 p7" using install_redirects_ok [OF assms(3) sr] by blast
  obtain p8 where 8: "println hw ''[ dev ] Enabling Local APIC'' p7 = Inr p8" "printed p7 p8" by (rule println_printed [OF sr])
  have "printed (p3\<lparr>pvm := v\<rparr>) p8"
    using 4(2) 5(2) 6(2) 7(2) 8(2) printed_trans by metis
  note v8 = printed_platform [OF this]
  have "apic_init hw p = Inr p8"
    using v(1) v3(1) 1(1) 2(1) 3(1) 4(1) 5(1) 6(1) 7(1) 8(1) e assms(4)
    by (auto simp: apic_init_def registers_def rfold_map comp_def res_simps)
  then show ?thesis using v(2) v8 v3 by simp
qed

section \<open>A firmware's tables\<close>

text \<open>
  The tables a firmware has put into memory: the place and contents of the root pointer, the tables
  the root table lists before the interrupt controller table, that table (its address, the address
  of the local controllers, its flags and its entries), and the tables listed behind it.
\<close>

record madt_image =
  mt_address :: u32
  mt_lapic :: u32
  mt_flags :: u32
  mt_entries :: "MadtEntry list"

record firmware =
  fw_slot :: nat
  fw_rsdp :: RsdpDescriptor
  fw_tables :: "u32 list"
  fw_madt :: "madt_image option"
  fw_rest :: "u32 list"

definition fw_pointers :: "firmware \<Rightarrow> u32 list" where
  "fw_pointers fw = fw_tables fw @ (case fw_madt fw of None \<Rightarrow> [] | Some mt \<Rightarrow> mt_address mt # fw_rest fw)"

definition fw_root :: "firmware \<Rightarrow> usize" where
  "fw_root fw = ucast (rsdt_address (fw_rsdp fw))"

definition fw_root_len :: "firmware \<Rightarrow> u32" where
  "fw_root_len fw = of_nat (36 + 4 * length (fw_pointers fw))"

text \<open>The pages the code maps for the tables: the area of the root pointer and the pages of the root table.\<close>

definition fw_pages :: "firmware \<Rightarrow> usize set" where
  "fw_pages fw = {n. 0xe0 \<le> n \<and> n \<le> 0xff} \<union> table_pages (fw_root fw) (fw_root_len fw)"

definition in_pages :: "usize set \<Rightarrow> usize \<Rightarrow> nat \<Rightarrow> bool" where
  "in_pages K a n \<longleftrightarrow> (\<forall>k < n. (a + of_nat k) div PAGE_SIZE \<in> K)"

definition mt_len :: "madt_image \<Rightarrow> nat" where
  "mt_len mt = 44 + length (concat (map entry_bytes (mt_entries mt)))"

definition madt_stored :: "memory \<Rightarrow> usize set \<Rightarrow> madt_image \<Rightarrow> bool" where
  "madt_stored m K mt \<longleftrightarrow> (\<forall>e \<in> set (mt_entries mt). known e) \<and> mt_len mt < 2 ^ 32
     \<and> (let a = ucast (mt_address mt) in in_pages K a (mt_len mt) \<and> stored m a SIG_APIC
          \<and> stored m (a + 4) (le_bytes 4 (of_nat (mt_len mt) :: u32)) \<and> stored m (a + 36) (le_bytes 4 (mt_lapic mt))
          \<and> stored m (a + 40) (le_bytes 4 (mt_flags mt)) \<and> stored m (a + 44) (concat (map entry_bytes (mt_entries mt))))"

definition root_stored :: "memory \<Rightarrow> firmware \<Rightarrow> bool" where
  "root_stored m fw \<longleftrightarrow> table_fits (fw_root fw) (fw_root_len fw) \<and> length (fw_pointers fw) < 1000
     \<and> stored m (fw_root fw) SIG_RSDT \<and> stored m (fw_root fw + 4) (le_bytes 4 (fw_root_len fw))
     \<and> stored m (fw_root fw + 36) (concat (map (le_bytes 4) (fw_pointers fw)))"

definition firmware_in :: "memory \<Rightarrow> firmware \<Rightarrow> bool" where
  "firmware_in m fw \<longleftrightarrow> rsdp_first m (fw_slot fw) (fw_rsdp fw) \<and> rsdp_revision (fw_rsdp fw) < 2 \<and> root_stored m fw
     \<and> (\<forall>q \<in> set (fw_tables fw). in_pages (fw_pages fw) (ucast q) 4 \<and> \<not> stored m (ucast q) SIG_APIC)
     \<and> (\<forall>mt. fw_madt fw = Some mt \<longrightarrow> madt_stored m (fw_pages fw) mt)"

lemma in_pages_part: "in_pages K a n \<Longrightarrow> i + m \<le> n \<Longrightarrow> in_pages K (a + of_nat i) m"
  unfolding in_pages_def
proof (intro allI impI)
  fix k assume a: "\<forall>k < n. (a + of_nat k) div PAGE_SIZE \<in> K" and "i + m \<le> n" "k < m"
  then have "(a + of_nat (i + k)) div PAGE_SIZE \<in> K" by (intro a [rule_format]) simp
  then show "(a + of_nat i + of_nat k) div PAGE_SIZE \<in> K" by (simp add: add.assoc)
qed

lemma root_bytes:
  assumes "root_stored m fw"
  shows "in_pages (table_pages (fw_root fw) (fw_root_len fw)) (fw_root fw) (36 + 4 * length (fw_pointers fw))"
    and "unat (fw_root_len fw) = 36 + 4 * length (fw_pointers fw)"
    and "unat (fw_root fw) + 36 + 4 * length (fw_pointers fw) < 0x800000000000"
proof -
  let ?a = "fw_root fw" and ?n = "36 + 4 * length (fw_pointers fw)"
  have f: "table_fits ?a (fw_root_len fw)" and l: "length (fw_pointers fw) < 1000" using assms by (simp_all add: root_stored_def)
  show u: "unat (fw_root_len fw) = ?n" using l unat_of_nat [of ?n, where 'a = 32] by (simp add: fw_root_len_def)
  with f show b: "unat ?a + 36 + 4 * length (fw_pointers fw) < 0x800000000000" by (simp add: table_fits_def)
  note ar = table_fits_arith [OF f]
  show "in_pages (table_pages ?a (fw_root_len fw)) ?a ?n"
    unfolding in_pages_def table_pages_def
  proof (intro allI impI CollectI conjI)
    fix k assume k: "k < ?n"
    have uk: "unat (?a + of_nat k) = unat ?a + k" using k b by (intro unat_offset) simp
    show "?a div PAGE_SIZE \<le> (?a + of_nat k) div PAGE_SIZE"
      using uk by (simp add: PAGE_SIZE_def word_le_nat_alt unat_div div_le_mono)
    show "(?a + of_nat k) div PAGE_SIZE \<le> (?a + ucast (fw_root_len fw)) div PAGE_SIZE"
      using uk ar(8) u k by (simp add: PAGE_SIZE_def word_le_nat_alt unat_div div_le_mono)
  qed
qed

text \<open>Reading pages that are all mapped to themselves.\<close>

definition pages_direct :: "vm \<Rightarrow> usize set \<Rightarrow> bool" where
  "pages_direct s K \<longleftrightarrow> (\<forall>n \<in> K. direct s (cr3_frame s) n)"

lemma pages_holds:
  assumes "pages_direct s K" and "in_pages K a (length bs)" and "stored (pmem s) a bs"
  shows "holds s a bs"
  using assms by (intro stored_holds) (simp_all add: direct_bytes_def pages_direct_def in_pages_def)

lemma pages_holds_at:
  assumes "pages_direct s K" and "in_pages K a n" and "i + length bs \<le> n" and "stored (pmem s) (a + of_nat i) bs"
  shows "holds s (a + of_nat i) bs"
  using pages_holds [OF assms(1) in_pages_part [OF assms(2,3)] assms(4)] .

lemma signature_read:
  assumes "pages_direct s K" and "in_pages K a 4" and "length sig = 4"
  shows "\<exists>sg. sdt_signature s a = Inr sg \<and> (sg = sig \<longleftrightarrow> stored (pmem s) a sig)"
proof -
  have d: "direct_bytes s (cr3_frame s) a 4" using assms(1,2) by (simp add: direct_bytes_def pages_direct_def in_pages_def)
  obtain sg where sg: "read_bytes s a 4 = Inr sg" "length sg = 4" using direct_read_bytes [OF d] by simp
  note st = direct_read_stored [OF d sg(1)]
  have "sg = sig" if "stored (pmem s) a sig"
    using that st sg(2) assms(3) by (intro nth_equalityI) (simp_all add: stored_def)
  with sg(1) st show ?thesis by (auto simp: sdt_signature_def)
qed

lemma find_skips:
  assumes "list_all2 (\<lambda>i p. read32 s i = Inr p) is ps"
    and "\<forall>p \<in> set ps. \<exists>sg. sdt_signature s (ucast p) = Inr sg \<and> sg \<noteq> sig"
  shows "find_sdt_loop s sig (is @ js) = find_sdt_loop s sig js"
  using assms by (induction "is" ps rule: list_all2_induct) auto

lemma pointers_read:
  "holds s a (concat (map (le_bytes 4) ps)) \<Longrightarrow>
   list_all2 (\<lambda>i p. read32 s i = Inr p) (map (\<lambda>k. a + 4 * of_nat k) [0 ..< length ps]) (ps :: u32 list)"
proof (induction ps arbitrary: a)
  case (Cons p ps)
  have p: "read32 s a = Inr p" and ps: "holds s (a + 4) (concat (map (le_bytes 4) ps))"
    using Cons.prems by (simp_all add: holds_append holds_read32)
  have "map (\<lambda>k. a + 4 * of_nat k) [0 ..< length (p # ps)] = a # map (\<lambda>k. a + 4 + 4 * of_nat k) [0 ..< length ps]"
    by (simp add: upt_conv_Cons map_Suc_upt [symmetric] algebra_simps del: upt_Suc)
  with p Cons.IH [OF ps] show ?case by simp
qed simp

lemma root_in_pages:
  assumes "root_stored m fw"
  shows "in_pages (fw_pages fw) (fw_root fw) (36 + 4 * length (fw_pointers fw))"
  using root_bytes(1) [OF assms] by (simp add: in_pages_def fw_pages_def)

lemma table_len_read:
  assumes "pages_direct s K" and "in_pages K a n" and "8 \<le> n" and "stored (pmem s) (a + 4) (le_bytes 4 l)"
  shows "sdt_length s a = Inr l"
  using pages_holds_at [OF assms(1,2), of 4 "le_bytes 4 l"] assms(3,4) by (simp add: sdt_length_def holds_read32)

lemma root_read:
  assumes "pages_direct s (fw_pages fw)" and "root_stored (pmem s) fw"
  shows "sdt_length s (fw_root fw) = Inr (fw_root_len fw)"
    and "rsdt_new s (fw_root fw) = Inr \<lparr>rsdt_sdt = fw_root fw, entries_address = fw_root fw + 36, entries_len = length (fw_pointers fw)\<rparr>"
    and "list_all2 (\<lambda>i p. read32 s i = Inr p)
      (map (\<lambda>k. fw_root fw + 36 + 4 * of_nat k) [0 ..< length (fw_pointers fw)]) (fw_pointers fw)"
proof -
  let ?a = "fw_root fw" and ?n = "length (fw_pointers fw)"
  note K = root_in_pages [OF assms(2)] and b = root_bytes(2,3) [OF assms(2)]
  have st: "stored (pmem s) ?a SIG_RSDT" "stored (pmem s) (?a + 4) (le_bytes 4 (fw_root_len fw))"
    "stored (pmem s) (?a + 36) (concat (map (le_bytes 4) (fw_pointers fw)))"
    using assms(2) by (simp_all add: root_stored_def)
  show len: "sdt_length s ?a = Inr (fw_root_len fw)" using table_len_read [OF assms(1) K _ st(2)] by simp
  have "in_pages (fw_pages fw) ?a 4" using K by (simp add: in_pages_def)
  from signature_read [OF assms(1) this, of SIG_RSDT] st(1) have sig: "sdt_signature s ?a = Inr SIG_RSDT"
    by (auto simp: SIG_RSDT_def)
  have u: "unat (ucast (fw_root_len fw) :: usize) = 36 + 4 * ?n" using b(1) by (simp add: unat_ucast_32)
  have dl: "data_len s ?a = Inr (ucast (fw_root_len fw) - 36)"
    using len u by (simp add: data_len_def SDT_HEADER_SIZE_def checked_sub_def word_le_nat_alt Let_def)
  have "unat (ucast (fw_root_len fw) - 36 :: usize) = 4 * ?n" using u by (simp add: unat_sub word_le_nat_alt)
  then have "unat ((ucast (fw_root_len fw) - 36 :: usize) div 4) = ?n" by (simp add: unat_div)
  moreover have "data_address ?a = Inr (?a + 36)" using b(2) by (simp add: data_address_def SDT_HEADER_SIZE_def checked_add_def)
  ultimately show "rsdt_new s ?a = Inr \<lparr>rsdt_sdt = ?a, entries_address = ?a + 36, entries_len = ?n\<rparr>"
    using sig dl by (simp add: rsdt_new_def rsdt_data_def)
  have "length (concat (map (le_bytes 4) (fw_pointers fw))) = 4 * ?n"
    by (simp add: length_concat comp_def sum_list_triv)
  then have "holds s (?a + of_nat 36) (concat (map (le_bytes 4) (fw_pointers fw)))"
    using pages_holds_at [OF assms(1) K, of 36 "concat (map (le_bytes 4) (fw_pointers fw))"] st(3) by simp
  from pointers_read [OF this] show "list_all2 (\<lambda>i p. read32 s i = Inr p)
      (map (\<lambda>k. ?a + 36 + 4 * of_nat k) [0 ..< ?n]) (fw_pointers fw)" by simp
qed

definition madt_of :: "madt_image \<Rightarrow> Madt" where
  "madt_of mt = \<lparr>madt_sdt = ucast (mt_address mt), madt_address = mt_lapic mt, madt_flags = mt_flags mt\<rparr>"

lemma madt_read:
  assumes "pages_direct s K" and "madt_stored (pmem s) K mt"
  shows "sdt_signature s (ucast (mt_address mt)) = Inr SIG_APIC" and "madt_new s (ucast (mt_address mt)) = Inr (madt_of mt)"
    and "data_len s (ucast (mt_address mt)) = Inr (of_nat (mt_len mt - 36))" and "unat (of_nat (mt_len mt - 36) :: usize) = mt_len mt - 36"
    and "holds s (ucast (mt_address mt) + 36 + 8) (concat (map entry_bytes (mt_entries mt)))"
proof -
  let ?a = "ucast (mt_address mt) :: usize"
  have l: "mt_len mt < 2 ^ 32" and K: "in_pages K ?a (mt_len mt)" and st: "stored (pmem s) ?a SIG_APIC"
    "stored (pmem s) (?a + 4) (le_bytes 4 (of_nat (mt_len mt) :: u32))" "stored (pmem s) (?a + 36) (le_bytes 4 (mt_lapic mt))"
    "stored (pmem s) (?a + 40) (le_bytes 4 (mt_flags mt))" "stored (pmem s) (?a + 44) (concat (map entry_bytes (mt_entries mt)))"
    using assms(2) by (simp_all add: madt_stored_def Let_def)
  have n: "44 \<le> mt_len mt" by (simp add: mt_len_def)
  have "in_pages K ?a 4" using K n by (simp add: in_pages_def)
  from signature_read [OF assms(1) this, of SIG_APIC] st(1) show "sdt_signature s ?a = Inr SIG_APIC"
    by (auto simp: SIG_APIC_def)
  have a: "unat ?a < 2 ^ 32" using unat_bound [of "mt_address mt"] by (simp add: unat_ucast_32)
  have "read32 s (?a + 36) = Inr (mt_lapic mt)" "read32 s (?a + 40) = Inr (mt_flags mt)"
    using pages_holds_at [OF assms(1) K, of 36 "le_bytes 4 (mt_lapic mt)"] st(3)
      pages_holds_at [OF assms(1) K, of 40 "le_bytes 4 (mt_flags mt)"] st(4) n by (simp_all add: holds_read32)
  then show "madt_new s ?a = Inr (madt_of mt)"
    using a by (simp add: madt_new_def data_address_def SDT_HEADER_SIZE_def checked_add_def madt_of_def add.assoc)
  have u: "unat (of_nat (mt_len mt) :: u32) = mt_len mt" "unat (of_nat (mt_len mt) :: usize) = mt_len mt"
    using l by (simp_all add: unat_of_nat)
  then have c: "ucast (of_nat (mt_len mt) :: u32) = (of_nat (mt_len mt) :: usize)" by (simp add: word_unat_eq_iff unat_ucast_32)
  show "unat (of_nat (mt_len mt - 36) :: usize) = mt_len mt - 36" using l by (simp add: unat_of_nat)
  have "sdt_length s ?a = Inr (of_nat (mt_len mt))" using table_len_read [OF assms(1) K _ st(2)] n by simp
  then show "data_len s ?a = Inr (of_nat (mt_len mt - 36))"
    using c u(2) n by (simp add: data_len_def SDT_HEADER_SIZE_def checked_sub_def word_le_nat_alt of_nat_diff Let_def)
  show "holds s (?a + 36 + 8) (concat (map entry_bytes (mt_entries mt)))"
    using pages_holds_at [OF assms(1) K, of 44 "concat (map entry_bytes (mt_entries mt))"] st(5)
    by (simp add: mt_len_def add.assoc)
qed

lemma find_madt:
  assumes d: "pages_direct s (fw_pages fw)" and f: "firmware_in (pmem s) fw"
  shows "find_sdt s \<lparr>rsdt_sdt = fw_root fw, entries_address = fw_root fw + 36, entries_len = length (fw_pointers fw)\<rparr> SIG_APIC
     = Inr (map_option (\<lambda>mt. MadtTable (madt_of mt)) (fw_madt fw))"
proof -
  let ?is = "map (\<lambda>k. fw_root fw + 36 + 4 * of_nat k) [0 ..< length (fw_pointers fw)]"
  have r: "list_all2 (\<lambda>i p. read32 s i = Inr p) ?is (fw_pointers fw)" using f root_read(3) [OF d] by (simp add: firmware_in_def)
  have skip: "\<forall>p \<in> set (fw_tables fw). \<exists>sg. sdt_signature s (ucast p) = Inr sg \<and> sg \<noteq> SIG_APIC"
    using f signature_read [OF d, of _ SIG_APIC] by (fastforce simp: firmware_in_def SIG_APIC_def)
  show ?thesis
  proof (cases "fw_madt fw")
    case None
    then have "find_sdt_loop s SIG_APIC (?is @ []) = find_sdt_loop s SIG_APIC []"
      using r skip by (intro find_skips) (simp_all add: fw_pointers_def)
    with None show ?thesis by (simp add: find_sdt_def)
  next
    case (Some mt)
    then have "madt_stored (pmem s) (fw_pages fw) mt" using f by (simp add: firmware_in_def)
    note mt = madt_read(1,2) [OF d this]
    from r Some obtain is' i js where il: "?is = is' @ i # js" "list_all2 (\<lambda>i p. read32 s i = Inr p) is' (fw_tables fw)"
      "read32 s i = Inr (mt_address mt)"
      by (auto simp: fw_pointers_def list_all2_append2 list_all2_Cons2)
    have "find_sdt_loop s SIG_APIC ?is = find_sdt_loop s SIG_APIC (i # js)"
      unfolding il(1) using il(2) skip by (rule find_skips)
    then show ?thesis using Some il(3) mt by (simp add: find_sdt_def)
  qed
qed

section \<open>The whole set-up\<close>

lemma pages_same:
  assumes "\<forall>n \<in> K. m' (Frame n) = m (Frame n)" and "in_pages K a n" and "i + length bs \<le> n"
  shows "stored m' (a + of_nat i) bs \<longleftrightarrow> stored m (a + of_nat i) bs"
  using assms(1) in_pages_part [OF assms(2,3)] by (intro stored_cong) (simp add: in_pages_def)

lemma firmware_same:
  assumes same: "\<forall>n \<in> fw_pages fw. m' (Frame n) = m (Frame n)" and f: "firmware_in m fw"
  shows "firmware_in m' fw"
proof -
  have root: "root_stored m fw" using f by (simp add: firmware_in_def)
  note K = root_in_pages [OF root]
  have l: "length (concat (map (le_bytes 4) (fw_pointers fw))) = 4 * length (fw_pointers fw)"
    by (simp add: length_concat comp_def sum_list_triv)
  have "root_stored m' fw"
    using root pages_same [OF same K, of 0 SIG_RSDT] pages_same [OF same K, of 4 "le_bytes 4 (fw_root_len fw)"]
      pages_same [OF same K, of 36 "concat (map (le_bytes 4) (fw_pointers fw))"] l
    by (simp add: root_stored_def SIG_RSDT_def)
  moreover have "rsdp_first m' (fw_slot fw) (fw_rsdp fw)"
    using rsdp_first_same [of m' m] same f by (simp add: firmware_in_def fw_pages_def firmware_frames_def)
  moreover have "\<not> stored m' (ucast q) SIG_APIC" if "q \<in> set (fw_tables fw)" for q
    using pages_same [OF same, of "ucast q" 4 0 SIG_APIC] f that by (simp add: firmware_in_def SIG_APIC_def)
  moreover have "madt_stored m' (fw_pages fw) mt" if "fw_madt fw = Some mt" for mt
  proof -
    have mt: "madt_stored m (fw_pages fw) mt" using f that by (simp add: firmware_in_def)
    then have M: "in_pages (fw_pages fw) (ucast (mt_address mt)) (mt_len mt)" by (simp add: madt_stored_def Let_def)
    have "44 \<le> mt_len mt" by (simp add: mt_len_def)
    then show ?thesis
      using mt pages_same [OF same M, of 0 SIG_APIC] pages_same [OF same M, of 4 "le_bytes 4 (of_nat (mt_len mt) :: u32)"]
        pages_same [OF same M, of 36 "le_bytes 4 (mt_lapic mt)"] pages_same [OF same M, of 40 "le_bytes 4 (mt_flags mt)"]
        pages_same [OF same M, of 44 "concat (map entry_bytes (mt_entries mt))"]
      by (simp add: madt_stored_def SIG_APIC_def mt_len_def Let_def)
  qed
  ultimately show ?thesis using f by (simp add: firmware_in_def)
qed

definition manager_of :: "madt_image \<Rightarrow> ApicManager" where
  "manager_of mt = (let es = mt_entries mt in
     \<lparr>lapic_base = mt_lapic mt, local_apics = lapics es, io_apics = ioapics es, nmis = lints es, isos = overrides es\<rparr>)"

text \<open>
  The controllers are set up when the processor has one: the pages of their registers are then
  unmapped and all different.
\<close>

definition fw_registers :: "acpi_env \<Rightarrow> firmware \<Rightarrow> u32 list" where
  "fw_registers env fw = (case fw_madt fw of None \<Rightarrow> [] | Some mt \<Rightarrow> if has_apic env = Some True then registers (manager_of mt) else [])"

definition controllers_ok :: "acpi_env \<Rightarrow> firmware \<Rightarrow> bool" where
  "controllers_ok env fw \<longleftrightarrow> (\<forall>mt. fw_madt fw = Some mt \<longrightarrow>
     room env apic_manager_new (mt_entries mt) \<and> has_apic env \<noteq> None \<and> (has_apic env = Some True \<longrightarrow> manager_ok (manager_of mt)))"

definition register_page :: "u32 \<Rightarrow> usize" where
  "register_page a = ucast a div PAGE_SIZE"

definition registers_mapped :: "vm \<Rightarrow> Frame \<Rightarrow> u32 list \<Rightarrow> bool" where
  "registers_mapped s T rs \<longleftrightarrow> (\<forall>a \<in> set rs. page_map s T (Page (register_page a)) = Some (Frame (register_page a), True))"

lemma madt_init_ok:
  assumes wf: "pt_wf (pvm p) T" and d: "pages_direct (pvm p) (fw_pages fw)" and mt: "madt_stored (pmem (pvm p)) (fw_pages fw) mt"
    and fw: "fw_madt fw = Some mt" and c: "controllers_ok env fw"
    and ready: "registers_loop.loop_ready (pvm p) T (fw_registers env fw)" and sr: "serial_ready hw COM1"
  shows "\<exists>p'. madt_init hw env (madt_of mt) p = Inr p' \<and> APIC_MANAGER p' = Some (manager_of mt)
     \<and> extended (pvm p) T (Page ` register_page ` set (fw_registers env fw)) (4 * length (fw_registers env fw)) (pvm p')
     \<and> registers_mapped (pvm p') T (fw_registers env fw)"
proof -
  let ?a = "ucast (mt_address mt) :: usize"
  note r = madt_read(3,4,5) [OF d mt]
  have len: "8 + length (concat (map entry_bytes (mt_entries mt))) = unat (of_nat (mt_len mt - 36) :: usize)"
    using r(2) by (simp add: mt_len_def)
  have "mt_len mt < 2 ^ 32" "unat ?a < 2 ^ 32"
    using mt unat_bound [of "mt_address mt"] by (simp_all add: unat_ucast_32 madt_stored_def)
  then have b: "unat ?a + 36 + unat (of_nat (mt_len mt - 36) :: usize) < 2 ^ 64" unfolding r(2) by simp
  have e: "\<forall>e \<in> set (mt_entries mt). known e" "room env apic_manager_new (mt_entries mt)"
    using mt c fw by (simp_all add: madt_stored_def controllers_ok_def)
  obtain b where hb: "has_apic env = Some b" using c fw by (auto simp: controllers_ok_def)
  have "\<exists>p1. madt_loop hw env (pvm p) (madt_iter (madt_of mt)) apic_manager_new (CPUS p) p
      = Some (Inr (True, collected (mt_entries mt) apic_manager_new, counted env (mt_entries mt) (CPUS p), p1)) \<and> printed p p1"
    using loop_collects [OF e(1) r(3) r(1) _ b e(2) sr, of "CPUS p" p] len by (simp add: madt_iter_def madt_of_def)
  then obtain p1 where loop: "madt_loop hw env (pvm p) (madt_iter (madt_of mt)) apic_manager_new (CPUS p) p
      = Some (Inr (True, collected (mt_entries mt) apic_manager_new, counted env (mt_entries mt) (CPUS p), p1))" "printed p p1" by blast
  have m: "(collected (mt_entries mt) apic_manager_new)\<lparr>lapic_base := madt_address (madt_of mt)\<rparr> = manager_of mt"
    by (simp add: collected_def apic_manager_new_def manager_of_def madt_of_def Let_def)
  let ?p1 = "p1\<lparr>CPUS := counted env (mt_entries mt) (CPUS p), APIC_MANAGER := Some (manager_of mt)\<rparr>"
  obtain p2 where p2: "pics_init hw PICS ?p1 = Inr p2" "io.more p2 = io.more ?p1" using pics_init_ok [OF sr, of ?p1] by blast
  have v2: "pvm p2 = pvm p" "APIC_MANAGER p2 = Some (manager_of mt)"
    using platform_more [OF p2(2)] printed_platform [OF loop(2)] by simp_all
  have "\<exists>p3. (if b then apic_init hw p2 else Inr p2) = Inr p3 \<and> APIC_MANAGER p3 = Some (manager_of mt)
     \<and> extended (pvm p) T (Page ` register_page ` set (fw_registers env fw)) (4 * length (fw_registers env fw)) (pvm p3)
     \<and> registers_mapped (pvm p3) T (fw_registers env fw)"
  proof (cases b)
    case True
    then have regs: "fw_registers env fw = registers (manager_of mt)" using hb fw by (simp add: fw_registers_def)
    have ok: "manager_ok (manager_of mt)" using True hb c fw by (simp add: controllers_ok_def)
    have "registers_loop.loop_ready (pvm p2) T (registers (manager_of mt))" "pt_wf (pvm p2) T" using v2 ready regs wf by simp_all
    from apic_init_ok [OF this(2,1) ok v2(2) sr] obtain p3 where p3: "apic_init hw p2 = Inr p3"
      "registers_loop.loop_done (pvm p) T (registers (manager_of mt)) (pvm p3)" "APIC_MANAGER p3 = Some (manager_of mt)"
      using v2 by auto
    have "extended (pvm p) T (Page ` register_page ` set (fw_registers env fw)) (4 * length (fw_registers env fw)) (pvm p3)"
      using registers_loop.loop_extended [OF ready] p3(2) regs by (simp add: image_image register_page_def)
    moreover have "registers_mapped (pvm p3) T (fw_registers env fw)"
      using p3(2) regs by (auto simp: registers_loop.loop_done_def registers_mapped_def register_page_def)
    ultimately show ?thesis using True p3(1,3) by simp
  next
    case False
    then have "fw_registers env fw = []" using hb fw by (simp add: fw_registers_def)
    then show ?thesis using False v2 extended_refl [OF wf] by (simp add: registers_mapped_def)
  qed
  then obtain p3 where p3: "(if b then apic_init hw p2 else Inr p2) = Inr p3" "APIC_MANAGER p3 = Some (manager_of mt)"
    "extended (pvm p) T (Page ` register_page ` set (fw_registers env fw)) (4 * length (fw_registers env fw)) (pvm p3)"
    "registers_mapped (pvm p3) T (fw_registers env fw)" by blast
  obtain p4 where p4: "println hw (''[ smp ] Found '' @ fmt_display (CPUS p3) @ '' APs'') p3 = Inr p4" "printed p3 p4"
    by (rule println_printed [OF sr])
  have "madt_init hw env (madt_of mt) p = Inr p4"
    using loop(1) m hb p2(1) p3(1) p4(1) by (simp add: madt_init_def Let_def)
  then show ?thesis using p3(2-4) printed_platform [OF p4(2)] by simp
qed

definition fw_ready :: "vm \<Rightarrow> Frame \<Rightarrow> firmware \<Rightarrow> bool" where
  "fw_ready s T fw \<longleftrightarrow> firmware_in (pmem s) fw \<and> (\<forall>n \<in> fw_pages fw. idle s {T} (Frame n))
     \<and> (\<forall>n. 0xe0 \<le> n \<and> n \<le> 0xff \<longrightarrow> mappable s T (Page n))
     \<and> (\<forall>n \<in> table_pages (fw_root fw) (fw_root_len fw). \<not> (0xe0 \<le> n \<and> n \<le> 0xff) \<longrightarrow> ready_page s T n)"

definition registers_free :: "vm \<Rightarrow> Frame \<Rightarrow> acpi_env \<Rightarrow> firmware \<Rightarrow> bool" where
  "registers_free s T env fw \<longleftrightarrow>
     (\<forall>a \<in> set (fw_registers env fw). mappable s T (Page (register_page a)) \<and> register_page a \<notin> fw_pages fw)
     \<and> distinct (map register_page (fw_registers env fw))"

definition fw_cost :: "acpi_env \<Rightarrow> firmware \<Rightarrow> nat" where
  "fw_cost env fw = 128 + table_cost (fw_root fw) (fw_root_len fw) + 4 * length (fw_registers env fw)"

definition fw_touched :: "acpi_env \<Rightarrow> firmware \<Rightarrow> Page set" where
  "fw_touched env fw = Page ` (fw_pages fw \<union> register_page ` set (fw_registers env fw))"

lemma register_page_low: "register_page a < 0x800000000"
proof -
  have "unat a < 2 ^ 32" using unat_bound [of a] by simp
  then show ?thesis
    by (simp add: register_page_def PAGE_SIZE_def word_less_nat_alt unat_div unat_ucast_32 div_less_iff_less_mult)
qed

lemma fw_pages_low:
  assumes "root_stored m fw" and "n \<in> fw_pages fw"
  shows "n < 0x800000000"
proof -
  have "(fw_root fw + ucast (fw_root_len fw)) div PAGE_SIZE < 0x800000000"
    using assms(1) table_fits_arith(7) by (simp add: root_stored_def)
  with assms(2) show ?thesis by (auto simp: fw_pages_def table_pages_def word_le_nat_alt word_less_nat_alt)
qed

text \<open>The root table is found and mapped.\<close>

lemma tables_mapped:
  assumes s: "s = pvm p" and wf: "pt_wf s T" "cr3_frame s = T" and fw: "fw_ready s T fw" and sr: "serial_ready hw COM1"
    and free: "128 + table_cost (fw_root fw) (fw_root_len fw) \<le> card (free_now s)"
  shows "\<exists>p1 s2. rsdp_init hw p = Inr (Some (fw_rsdp fw), p1) \<and> get_sdt (fw_root fw) (pvm p1) = Inr (fw_root fw, s2)
     \<and> APIC_MANAGER p1 = APIC_MANAGER p
     \<and> extended s T (Page ` fw_pages fw) (128 + table_cost (fw_root fw) (fw_root_len fw)) s2 \<and> pages_direct s2 (fw_pages fw)
     \<and> firmware_in (pmem s2) fw"
proof -
  let ?tp = "table_pages (fw_root fw) (fw_root_len fw)"
  have f: "firmware_in (pmem s) fw" and idle: "\<forall>n \<in> fw_pages fw. idle s {T} (Frame n)" using fw by (simp_all add: fw_ready_def)
  then have root: "root_stored (pmem s) fw" and first: "rsdp_first (pmem s) (fw_slot fw) (fw_rsdp fw)" by (simp_all add: firmware_in_def)
  have area: "\<forall>f \<in> set firmware_frames. mappable s T (identity_page f) \<and> idle s {T} f"
    using fw by (auto simp: fw_ready_def fw_pages_def firmware_frames_def identity_page_def)
  then obtain p1 where p1: "rsdp_init hw p = Inr (Some (fw_rsdp fw), p1)" "extended s T (identity_page ` set firmware_frames) 128 (pvm p1)"
      "\<forall>n. 0xe0 \<le> n \<and> n \<le> 0xff \<longrightarrow> direct (pvm p1) T n" "APIC_MANAGER p1 = APIC_MANAGER p"
    using rsdp_init_ok [OF wf _ _ _ first s sr] free by auto
  define s1 where "s1 = pvm p1"
  note s1 = p1(1) p1(2,3) [folded s1_def]
  have k1: "kept s T s1" "pt_wf s1 T" using s1(2) by (simp_all add: extended_def)
  have f1: "firmware_in (pmem s1) fw" using firmware_same [OF _ f] kept_idle [OF k1(1)] idle by blast
  have idle1: "\<forall>n \<in> fw_pages fw. idle s1 {T} (Frame n)" using kept_spared [OF k1(1)] idle by (simp add: spared_def)
  have "ready_page s1 T n" if "n \<in> ?tp" for n
  proof (cases "0xe0 \<le> n \<and> n \<le> 0xff")
    case True
    then show ?thesis using s1(3) by (simp add: ready_page_def direct_def)
  next
    case False
    with that fw have "ready_page s T n" by (simp add: fw_ready_def)
    moreover have "Page n \<notin> identity_page ` set firmware_frames" using False by (auto simp: firmware_frames_def identity_page_def)
    moreover have "\<forall>q \<in> identity_page ` set firmware_frames. page_number q < 0x800000000"
      by (auto simp: firmware_frames_def identity_page_def word_le_nat_alt word_less_nat_alt)
    ultimately show ?thesis using ready_page_extended [OF s1(2)] by blast
  qed
  moreover have "table_cost (fw_root fw) (fw_root_len fw) \<le> card (free_now s1)" using s1(2) free by (simp add: extended_def)
  moreover have "cr3_frame s1 = T" using kept_cr3 [OF k1(1)] wf(2) by simp
  moreover have "root_stored (pmem s1) fw" using f1 by (simp add: firmware_in_def)
  ultimately obtain s2 where s2: "get_sdt (fw_root fw) s1 = Inr (fw_root fw, s2)"
      "extended s1 T (Page ` ?tp) (table_cost (fw_root fw) (fw_root_len fw)) s2" "\<forall>n \<in> ?tp. direct s2 T n"
    using get_sdt_ok [OF k1(2), of "fw_root fw" "fw_root_len fw"] idle1 by (auto simp: root_stored_def fw_pages_def)
  have e: "extended s T (Page ` fw_pages fw) (128 + table_cost (fw_root fw) (fw_root_len fw)) s2"
    by (rule extended_more [OF extended_trans [OF s1(2) s2(2)]])
      (auto simp: fw_pages_def firmware_frames_def identity_page_def)
  have k2: "kept s T s2" "cr3_frame s2 = T" using e kept_cr3 [of s T s2] wf(2) by (simp_all add: extended_def)
  have "pages_direct s2 (fw_pages fw)"
    using s2(2,3) s1(3) k2(2) by (auto simp: pages_direct_def fw_pages_def extended_def)
  moreover have "firmware_in (pmem s2) fw" using firmware_same [OF _ f] kept_idle [OF k2(1)] idle by blast
  ultimately show ?thesis using s1(1) s2(1) e p1(4) unfolding s1_def by blast
qed

lemma registers_ready:
  assumes "registers_free s T env fw" and "extended s T (Page ` fw_pages fw) c s'" and "root_stored m fw"
    and "4 * length (fw_registers env fw) \<le> card (free_now s')"
  shows "registers_loop.loop_ready s' T (fw_registers env fw)"
proof -
  have "mappable s' T (Page (register_page a))" if a: "a \<in> set (fw_registers env fw)" for a
    using extended_other(2) [OF assms(2) register_page_low] fw_pages_low [OF assms(3)] assms(1) a
    by (auto simp: registers_free_def)
  moreover have "distinct (map (\<lambda>a. page_path (Page (register_page a))) (fw_registers env fw))"
  proof -
    have "inj_on (\<lambda>n. page_path (Page n)) (register_page ` set (fw_registers env fw))"
      using page_path_low_inj register_page_low by (intro inj_onI) blast
    then have "distinct (map (\<lambda>n. page_path (Page n)) (map register_page (fw_registers env fw)))"
      using assms(1) unfolding registers_free_def by (subst distinct_map) simp
    then show ?thesis by (simp add: comp_def)
  qed
  ultimately show ?thesis
    using assms(4) low_page_ok(2) [OF register_page_low]
    by (simp add: registers_loop.loop_ready_def register_page_def)
qed

lemma acpi_init_ok:
  assumes wf: "pt_wf (pvm p) T" "cr3_frame (pvm p) = T" and fw: "fw_ready (pvm p) T fw"
    and c: "controllers_ok env fw" "registers_free (pvm p) T env fw" and free: "fw_cost env fw \<le> card (free_now (pvm p))"
    and sr: "serial_ready hw COM1"
  shows "\<exists>p'. acpi_init hw env p = Inr p' \<and> extended (pvm p) T (fw_touched env fw) (fw_cost env fw) (pvm p')
     \<and> (\<forall>n \<in> fw_pages fw. direct (pvm p') T n) \<and> registers_mapped (pvm p') T (fw_registers env fw)
     \<and> APIC_MANAGER p' = (case fw_madt fw of None \<Rightarrow> APIC_MANAGER p | Some mt \<Rightarrow> Some (manager_of mt))"
proof -
  let ?c = "128 + table_cost (fw_root fw) (fw_root_len fw)"
  obtain p1 s2 where s2: "rsdp_init hw p = Inr (Some (fw_rsdp fw), p1)" "get_sdt (fw_root fw) (pvm p1) = Inr (fw_root fw, s2)"
      "extended (pvm p) T (Page ` fw_pages fw) ?c s2" "pages_direct s2 (fw_pages fw)" "firmware_in (pmem s2) fw"
      and a1: "APIC_MANAGER p1 = APIC_MANAGER p"
    using tables_mapped [OF refl wf fw sr] free by (auto simp: fw_cost_def)
  have wf2: "pt_wf s2 T" "cr3_frame s2 = T" using s2(3) wf(2) kept_cr3 [of "pvm p" T s2] by (simp_all add: extended_def)
  have root: "root_stored (pmem s2) fw" and rev: "\<not> rsdp_revision (fw_rsdp fw) \<ge> 2" using s2(5) by (auto simp: firmware_in_def)
  note r = root_read [OF s2(4) root]
  have u: "unat (ucast (fw_root_len fw) :: usize) = 36 + 4 * length (fw_pointers fw)"
    using root_bytes(2) [OF root] by (simp add: unat_ucast_32)
  define q1 where "q1 = p1\<lparr>pvm := s2\<rparr>"
  obtain q2 where q2: "println hw (''[ apci ] Found RSDT at address '' @ fmt_alternate_hex (fw_root fw)) q1 = Inr q2" "printed q1 q2"
    by (rule println_printed [OF sr])
  let ?l = "fw_root_len fw"
  obtain q3 where q3: "println hw (''[ acpi ] RSDT length '' @ fmt_display ?l @ '', data length '' @ fmt_display (ucast ?l - 36 :: usize)) q2 = Inr q3"
    "printed q2 q3" by (rule println_printed [OF sr])
  obtain q4 where q4: "println hw (''[ acpi ] RSDT points to '' @ number_text 10 (length (fw_pointers fw)) @ '' tables'') q3 = Inr q4"
    "printed q3 q4" by (rule println_printed [OF sr])
  have "printed q1 q4" using q2(2) q3(2) q4(2) printed_trans by blast
  from printed_platform [OF this] have v4: "pvm q4 = s2" "APIC_MANAGER q4 = APIC_MANAGER p" using a1 by (simp_all add: q1_def)
  have run: "acpi_init hw env p = (case map_option (\<lambda>mt. MadtTable (madt_of mt)) (fw_madt fw) of
      Some (MadtTable m) \<Rightarrow>
        rbind (println hw (''[ apci ] Found MADT at address '' @ fmt_alternate_hex (madt_sdt m)) q4) (\<lambda>p. madt_init hw env m p)
    | _ \<Rightarrow> println hw ''Could not find MADT.'' q4)"
    using s2(1,2) r(1,2) find_madt [OF s2(4,5)] rev u q2(1) q3(1) q4(1)
    by (cases "fw_madt fw")
      (simp_all add: acpi_init_def rsdp_sdt_def fw_root_def [symmetric] checked_sub_def SDT_HEADER_SIZE_def word_le_nat_alt Let_def q1_def)
  have d: "direct s2 T n" if "n \<in> fw_pages fw" for n using s2(4) wf2(2) that by (simp add: pages_direct_def)
  show ?thesis
  proof (cases "fw_madt fw")
    case None
    have "extended (pvm p) T (fw_touched env fw) (fw_cost env fw) s2"
      using s2(3) by (rule extended_more) (auto simp: fw_touched_def fw_cost_def)
    moreover obtain q5 where "println hw ''Could not find MADT.'' q4 = Inr q5" "printed q4 q5" by (rule println_printed [OF sr])
    moreover note printed_platform [OF this(2)]
    ultimately show ?thesis using None run d v4 by (simp add: registers_mapped_def fw_registers_def)
  next
    case (Some mt)
    obtain q5 where q5: "println hw (''[ apci ] Found MADT at address '' @ fmt_alternate_hex (madt_sdt (madt_of mt))) q4 = Inr q5" "printed q4 q5"
      by (rule println_printed [OF sr])
    have v5: "pvm q5 = s2" using printed_platform [OF q5(2)] v4 by simp
    then have mt: "madt_stored (pmem (pvm q5)) (fw_pages fw) mt" using s2(5) Some by (simp add: firmware_in_def)
    have "4 * length (fw_registers env fw) \<le> card (free_now s2)" using s2(3) free by (simp add: extended_def fw_cost_def)
    note ready = registers_ready [OF c(2) s2(3) root this]
    obtain p' where p': "madt_init hw env (madt_of mt) q5 = Inr p'" "APIC_MANAGER p' = Some (manager_of mt)"
        "extended s2 T (Page ` register_page ` set (fw_registers env fw)) (4 * length (fw_registers env fw)) (pvm p')"
        "registers_mapped (pvm p') T (fw_registers env fw)"
      using madt_init_ok [OF _ _ mt Some c(1) _ sr, of T] wf2(1) s2(4) ready v5 by auto
    have "extended (pvm p) T (fw_touched env fw) (fw_cost env fw) (pvm p')"
      using extended_trans [OF s2(3) p'(3)] by (simp add: fw_touched_def fw_cost_def image_Un)
    moreover have "\<forall>n \<in> fw_pages fw. direct (pvm p') T n" using p'(3) d by (simp add: extended_def)
    ultimately show ?thesis using Some run q5(1) p'(1,2,4) by simp
  qed
qed

section \<open>An example firmware\<close>

text \<open>
  Tables in the frame \<open>0xe0\<close>: the root pointer at its start, the root table at \<open>0xe0040\<close>, another table
  at \<open>0xe0080\<close>, and the interrupt controller table at \<open>0xe00c0\<close> with an entry of each kind.
\<close>

definition fw_words :: "usize \<Rightarrow> u64" where
  "fw_words i =
     (if i = 0 then 0x2052545020445352 else if i = 2 then 0xe0040
      else if i = 8 then 0x2c54445352 else if i = 12 then 0xe008000000000 else if i = 13 then 0xe00c0
      else if i = 16 then 0x50434146
      else if i = 24 then 0x5043495041 else if i = 28 then 0xfee0000000000000 else if i = 29 then 0x0100080000000001
      else if i = 30 then 0x00020c0100000001 else if i = 31 then 0xfec00000 else if i = 32 then 0x0000000200000a02
      else if i = 33 then 0x010005ff06040000 else 0)"

definition fw_madt_image :: madt_image where
  "fw_madt_image = \<lparr>mt_address = 0xe00c0, mt_lapic = 0xfee00000, mt_flags = 1, mt_entries =
     [Lapic \<lparr>lapic_processor_id = 0, lapic_id = 1, lapic_flags = 1\<rparr>, IoApic \<lparr>io_apic_id = 2, io_apic_address = 0xfec00000, gsib = 0\<rparr>,
      Iso \<lparr>bus_source = 0, irq_source = 0, gsi = 2, iso_flags = 0\<rparr>, Nmi \<lparr>nmi_processor_id = 0xff, nmi_flags = 5, lint_no = 1\<rparr>]\<rparr>"

definition example_fw :: firmware where
  "example_fw = \<lparr>fw_slot = 0, fw_rsdp = \<lparr>rsdp_signature = RSD_PTR, rsdp_checksum = 0, rsdp_oem_id = [0, 0, 0, 0, 0, 0], rsdp_revision = 0,
     rsdt_address = 0xe0040, rsdp_length = 0, xsdt_address = 0, rsdp_extended_checksum = 0, rsdp_reserved = [0, 0, 0]\<rparr>,
     fw_tables = [0xe0080], fw_madt = Some fw_madt_image, fw_rest = []\<rparr>"

lemma stored_Nil: "stored m a []"
  by (simp add: stored_def)

lemma stored_Cons: "stored m a (b # bs) \<longleftrightarrow> phys8 m a = b \<and> stored m (a + 1) bs"
  using stored_append [of m a "[b]" bs] by (simp add: stored_def)

lemma stored_other:
  assumes "m (Frame 0xe0) = fw_words" and "in_pages {0xe0} a (length bs)"
  shows "stored m a bs \<longleftrightarrow> stored (\<lambda>_. fw_words) a bs"
  using assms by (intro stored_cong) (simp add: in_pages_def)

lemma fw_words_stored:
  "stored (\<lambda>_. fw_words) 0xe0000 (rsdp_bytes (fw_rsdp example_fw))"
  "stored (\<lambda>_. fw_words) 0xe0040 SIG_RSDT" "stored (\<lambda>_. fw_words) 0xe0044 (le_bytes 4 (44 :: u32))"
  "stored (\<lambda>_. fw_words) 0xe0064 (concat (map (le_bytes 4) [0xe0080, 0xe00c0 :: u32]))"
  "\<not> stored (\<lambda>_. fw_words) 0xe0080 SIG_APIC"
  "stored (\<lambda>_. fw_words) 0xe00c0 SIG_APIC" "stored (\<lambda>_. fw_words) 0xe00c4 (le_bytes 4 (80 :: u32))"
  "stored (\<lambda>_. fw_words) 0xe00e4 (le_bytes 4 (0xfee00000 :: u32))" "stored (\<lambda>_. fw_words) 0xe00e8 (le_bytes 4 (1 :: u32))"
  "stored (\<lambda>_. fw_words) 0xe00ec (concat (map entry_bytes (mt_entries fw_madt_image)))"
  by (simp_all add: stored_Cons stored_Nil phys8_def word_in_page_def PAGE_SIZE_def fw_words_def example_fw_def fw_madt_image_def
      rsdp_bytes_def RSD_PTR_def SIG_RSDT_def SIG_APIC_def le_bytes_def upt_rec)

lemma first_page:
  assumes "0xe0000 \<le> unat a" and "unat a + n \<le> 0xe1000"
  shows "in_pages {0xe0} a n"
  unfolding in_pages_def
proof (intro allI impI)
  fix k assume "k < n"
  then have "unat (a + of_nat k) = unat a + k" using assms by (intro unat_offset) simp
  moreover have "(unat a + k) div 4096 = 0xe0" using assms \<open>k < n\<close> by (intro div_nat_eqI) simp_all
  ultimately show "(a + of_nat k) div PAGE_SIZE \<in> {0xe0}" by (simp add: PAGE_SIZE_def word_unat_eq_iff unat_div)
qed

lemma example_fw_simps:
  "fw_pointers example_fw = [0xe0080, 0xe00c0]" "fw_root example_fw = 0xe0040" "fw_root_len example_fw = 44"
  "mt_len fw_madt_image = 80" "fw_pages example_fw = {n. 0xe0 \<le> n \<and> n \<le> 0xff}"
proof -
  show p: "fw_pointers example_fw = [0xe0080, 0xe00c0]" and r: "fw_root example_fw = 0xe0040" "mt_len fw_madt_image = 80"
    by (simp_all add: example_fw_def fw_madt_image_def fw_pointers_def fw_root_def mt_len_def)
  show l: "fw_root_len example_fw = 44" by (simp add: fw_root_len_def p)
  have "n = 0xe0" if "0xe0 \<le> n" "n \<le> 0xe0" for n :: usize using that by simp
  then show "fw_pages example_fw = {n. 0xe0 \<le> n \<and> n \<le> 0xff}"
    by (auto simp: fw_pages_def table_pages_def r l PAGE_SIZE_def word_le_nat_alt)
qed

lemma example_firmware:
  assumes m: "m (Frame 0xe0) = fw_words"
  shows "firmware_in m example_fw"
proof -
  have st: "stored m a bs \<longleftrightarrow> stored (\<lambda>_. fw_words) a bs" if "0xe0000 \<le> unat a" "unat a + length bs \<le> 0xe1000" for a bs
    using stored_other [of m, OF m first_page [OF that]] .
  have K: "in_pages (fw_pages example_fw) a n" if "0xe0000 \<le> unat a" "unat a + n \<le> 0xe1000" for a n
    using first_page [OF that] by (simp add: in_pages_def example_fw_simps(5))
  have ok: "rsdp_ok (fw_rsdp example_fw)" by (simp add: rsdp_ok_def example_fw_def)
  note len = rsdp_bytes_length [OF ok]
  have "rsdp_first m (fw_slot example_fw) (fw_rsdp example_fw)"
    using st [of "0xe0000" "rsdp_bytes (fw_rsdp example_fw)"] fw_words_stored(1) ok len
    by (simp add: rsdp_first_def rsdp_place_def) (simp add: example_fw_def)
  moreover have "root_stored m example_fw"
    using st [of "0xe0040" SIG_RSDT] st [of "0xe0044" "le_bytes 4 (44 :: u32)"]
      st [of "0xe0064" "concat (map (le_bytes 4) [0xe0080, 0xe00c0 :: u32])"] fw_words_stored(2-4)
    by (simp add: root_stored_def example_fw_simps table_fits_def SIG_RSDT_def)
  moreover have "madt_stored m (fw_pages example_fw) fw_madt_image"
  proof -
    have "length (concat (map entry_bytes (mt_entries fw_madt_image))) = 36" by (simp add: fw_madt_image_def)
    then have "stored m 0xe00c0 SIG_APIC" "stored m 0xe00c4 (le_bytes 4 (80 :: u32))" "stored m 0xe00e4 (le_bytes 4 (0xfee00000 :: u32))"
      "stored m 0xe00e8 (le_bytes 4 (1 :: u32))" "stored m 0xe00ec (concat (map entry_bytes (mt_entries fw_madt_image)))"
      using fw_words_stored(6-10) by (simp_all add: st SIG_APIC_def)
    moreover have "\<forall>e \<in> set (mt_entries fw_madt_image). known e" by (simp add: fw_madt_image_def)
    moreover have "in_pages (fw_pages example_fw) 0xe00c0 80" by (rule K) simp_all
    moreover have "mt_address fw_madt_image = 0xe00c0" "mt_lapic fw_madt_image = 0xfee00000" "mt_flags fw_madt_image = 1"
      by (simp_all add: fw_madt_image_def)
    ultimately show ?thesis by (simp add: madt_stored_def example_fw_simps(4) Let_def)
  qed
  moreover have "\<not> stored m 0xe0080 SIG_APIC" using st [of "0xe0080" SIG_APIC] fw_words_stored(5) by (simp add: SIG_APIC_def)
  moreover have "in_pages (fw_pages example_fw) 0xe0080 4" by (rule K) simp_all
  moreover have "rsdp_revision (fw_rsdp example_fw) < 2" "fw_tables example_fw = [0xe0080]" "fw_madt example_fw = Some fw_madt_image"
    by (simp_all add: example_fw_def)
  ultimately show ?thesis by (simp add: firmware_in_def)
qed

definition fw_vm :: vm where
  "fw_vm = big_vm\<lparr>pmem := (pmem big_vm)(Frame 0xe0 := fw_words)\<rparr>"

definition fw_env :: acpi_env where
  "fw_env = \<lparr>accepts = (\<lambda>c n. n < c), apic_base_msr = 0xfee00900, has_apic = Some True\<rparr>"

lemma big_table_frames: "table_frames (pmem big_vm) (Frame 9) = {Frame 9}"
  using example_table_frames by (simp add: big_vm_def)

lemma fw_vm_simps:
  "cr3_frame fw_vm = Frame 9" "free_now fw_vm = free_now big_vm" "pmem fw_vm (Frame 0xe0) = fw_words" "cr3 fw_vm = 0x9000"
  by (simp_all add: fw_vm_def cr3_frame_def big_vm_def example_vm_def free_now_def)

lemma fw_vm_agree: "agree (pmem big_vm) (pmem fw_vm) (Frame 9)"
  by (simp add: agree_def big_table_frames fw_vm_def)

lemma fw_vm_wf: "pt_wf fw_vm (Frame 9)" "table_frames (pmem fw_vm) (Frame 9) = {Frame 9}"
proof -
  note ok = pt_wf_tables_ok [OF big_vm_wf]
  obtain a where a: "ALLOCATOR big_vm = Some a" "alloc_wf a" "free_set a = free_now big_vm" using pt_wf_allocator [OF big_vm_wf] by blast
  have c: "cr3_frame big_vm = Frame 9" by (simp add: cr3_frame_def big_vm_def example_vm_def)
  have "recursive (pmem fw_vm) (Frame 9) (Frame 9)"
    using pt_wf_recursive [OF big_vm_wf] c by (simp add: recursive_def fw_vm_def)
  with pt_wf_agree [OF big_vm_wf fw_vm_agree _ _ a(2)] a c fw_vm_simps(1) show "pt_wf fw_vm (Frame 9)"
    by (simp add: fw_vm_def)
  show "table_frames (pmem fw_vm) (Frame 9) = {Frame 9}" using agree_frames [OF ok fw_vm_agree] big_table_frames by simp
qed

lemma fw_vm_mappable:
  assumes "p4_index p \<noteq> 511"
  shows "mappable fw_vm (Frame 9) p"
proof (rule mappable_agree)
  show "mappable big_vm (Frame 9) p" using example_mappable [OF assms] by (simp add: mappable_def big_vm_def)
qed (use assms pt_wf_tables_ok [OF big_vm_wf] in \<open>simp_all add: big_table_frames fw_vm_def\<close>)

lemma fw_idle: "n \<in> fw_pages example_fw \<Longrightarrow> idle fw_vm {Frame 9} (Frame n)"
proof -
  have "free_now big_vm = {f. 0x1000 \<le> unat (frame_number f) \<and> unat (frame_number f) < 0x2000}"
    by (simp add: free_now_def big_vm_def big_allocator_free)
  then show "n \<in> fw_pages example_fw \<Longrightarrow> idle fw_vm {Frame 9} (Frame n)"
    by (auto simp: idle_def fw_vm_simps(2) fw_vm_wf(2) example_fw_simps(5) word_le_nat_alt)
qed

lemma fw_registers_example: "fw_registers fw_env example_fw = [0xfee00000, 0xfec00000]"
  by (simp add: fw_registers_def fw_env_def registers_def manager_of_def example_fw_def fw_madt_image_def ioapics_def Let_def)

lemma fw_controllers: "controllers_ok fw_env example_fw"
  by (simp add: controllers_ok_def fw_env_def room_def apic_manager_new_def example_fw_def fw_madt_image_def entry_lists manager_ok_def
      manager_of_def)

lemma fw_cost_example: "fw_cost fw_env example_fw = 144"
  by (simp add: fw_cost_def fw_registers_example table_cost_def example_fw_simps)

section \<open>Properties\<close>

text \<open>
  C17. The set-up from the firmware's tables: with well-formed tables, firmware tables in frames that are
  neither free nor page tables, a root table of revision 0 or 1 whose listed tables lie in the pages
  the code maps, registers on pages that are unmapped and all different, and a serial port that is ready for
  the messages, \<^verbatim>\<open>acpi::init\<close> returns. The
  tables' pages are then mapped to themselves, the pages of the controllers' registers are mapped
  to themselves writable, the manager holds the entries of the interrupt controller table (or is left as it was,
  without one), and no other page's translation has changed.
\<close>

theorem acpi_init_sets_up:
  assumes "pt_wf (pvm p) T" and "cr3_frame (pvm p) = T" and "fw_ready (pvm p) T fw"
    and "controllers_ok env fw" and "registers_free (pvm p) T env fw" and "fw_cost env fw \<le> card (free_now (pvm p))"
    and "serial_ready hw COM1"
  shows "\<exists>p'. acpi_init hw env p = Inr p' \<and> pt_wf (pvm p') T \<and> kept (pvm p) T (pvm p')
     \<and> (\<forall>n \<in> fw_pages fw. direct (pvm p') T n) \<and> registers_mapped (pvm p') T (fw_registers env fw)
     \<and> APIC_MANAGER p' = (case fw_madt fw of None \<Rightarrow> APIC_MANAGER p | Some mt \<Rightarrow> Some (manager_of mt))
     \<and> (\<forall>q. p4_index q \<noteq> 511 \<longrightarrow> page_path q \<notin> page_path ` fw_touched env fw \<longrightarrow> page_map (pvm p') T q = page_map (pvm p) T q)"
  using acpi_init_ok [OF assms] unfolding extended_def by blast

theorem acpi_init_sets_up_witness:
  "\<exists>p'. acpi_init (\<lambda>tr p. 0x20) fw_env \<lparr>trace = [], pvm = fw_vm, APIC_MANAGER = None, CPUS = 0\<rparr> = Inr p'
     \<and> page_map (pvm p') (Frame 9) (Page 0xfee00) = Some (Frame 0xfee00, True)
     \<and> APIC_MANAGER p' = Some (manager_of fw_madt_image)"
proof -
  let ?p = "\<lparr>trace = [], pvm = fw_vm, APIC_MANAGER = None, CPUS = 0\<rparr>"
  have low: "p4_index (Page n) \<noteq> 511" if "n < 0x800000000" for n using that by (rule low_page_ok(2))
  have "fw_ready (pvm ?p) (Frame 9) example_fw"
    using example_firmware [of "pmem fw_vm"] fw_vm_simps(3) fw_idle fw_vm_mappable [OF low]
    by (auto simp: fw_ready_def example_fw_simps table_pages_def PAGE_SIZE_def word_le_nat_alt word_less_nat_alt ready_page_def)
  moreover have "registers_free (pvm ?p) (Frame 9) fw_env example_fw"
    using fw_vm_mappable [OF low]
    by (simp add: registers_free_def fw_registers_example register_page_def PAGE_SIZE_def example_fw_simps)
  moreover have "fw_cost fw_env example_fw \<le> card (free_now (pvm ?p))"
    using big_vm_card by (simp add: fw_cost_example fw_vm_simps)
  ultimately show ?thesis
    using acpi_init_sets_up [of ?p "Frame 9" example_fw fw_env "\<lambda>tr p. 0x20"] example_serial_ready fw_vm_wf(1) fw_vm_simps(1) fw_controllers
    by (auto simp: registers_mapped_def fw_registers_example register_page_def PAGE_SIZE_def) (auto simp: example_fw_def)
qed

text \<open>
  A table that is not on one of these pages cannot be read: \<^verbatim>\<open>Rsdt::find_sdt\<close> follows the pointers of the
  root table without mapping what they point to, and the first one to an unmapped page faults.
\<close>

theorem find_sdt_unmapped_faults:
  assumes "read32 s i = Inr q" and "is_canonical (ucast q)" and "page_map s (cr3_frame s) (Page (ucast q div PAGE_SIZE)) = None"
  shows "find_sdt_loop s sig (i # is) = Inl (PageFault (ucast q))"
proof -
  have "mmu s (ucast q) = None" using assms(2,3) by (simp add: mmu_def page_map_def div_PAGE_SIZE page_indices)
  then show ?thesis
    using assms(1) by (simp add: sdt_signature_def read8_def vm_read_def eval_nat_numeral)
qed

end
