(* ===== verification/Boot_Complete.thy ===== *)
theory Boot_Complete
  imports Boot Firmware
begin

text \<open>
  Start-up as a whole: on a machine whose boot data, page tables and firmware tables are in order,
  \<^verbatim>\<open>memory::init\<close> and then all of \<^verbatim>\<open>arch::init\<close> return, and what they have set up.
\<close>

section \<open>The range of the kernel\<close>

definition loaded :: "ElfSection list \<Rightarrow> ElfSection list" where
  "loaded secs = filter sec_allocated secs"

definition sections_ok :: "ElfSection list \<Rightarrow> bool" where
  "sections_ok secs \<longleftrightarrow> loaded secs \<noteq> [] \<and> (\<forall>sec \<in> set (loaded secs). unat (sec_start sec) + unat (sec_size sec) < 2 ^ 64)"

definition kernel_bounds :: "ElfSection list \<Rightarrow> usize \<times> usize" where
  "kernel_bounds secs = (Min (sec_start ` set (loaded secs)), Max ((\<lambda>sec. sec_start sec + sec_size sec) ` set (loaded secs)))"

lemma section_ends:
  assumes "\<forall>sec \<in> set xs. unat (sec_start sec) + unat (sec_size sec) < 2 ^ 64"
  shows "rfold (\<lambda>s ends. rbind (checked_add (sec_start s) (sec_size s)) (\<lambda>e. Inr (e # ends))) xs acc
     = Inr (rev (map (\<lambda>sec. sec_start sec + sec_size sec) xs) @ acc)"
  using assms by (induction xs arbitrary: acc) (simp_all add: checked_add_def)

lemma kernel_range_ok: "sections_ok secs \<Longrightarrow> kernel_range secs = Inr (kernel_bounds secs)"
  by (auto simp: kernel_range_def sections_ok_def section_ends kernel_bounds_def loaded_def [symmetric] Let_def)

section \<open>The state at boot\<close>

text \<open>The frames the allocator has when it is made: all usable ones but the lowest.\<close>

definition boot_frames :: "BootInformation \<Rightarrow> ElfSection list \<Rightarrow> MemoryArea list \<Rightarrow> Frame set" where
  "boot_frames bi secs ms =
     (let u = usable_frames (fst (kernel_bounds secs)) (snd (kernel_bounds secs)) (bi_start_address bi) (bi_end_address bi) ms in u - {Min u})"

definition kernel_pages :: "BootInformation \<Rightarrow> ElfSection list \<Rightarrow> usize set" where
  "kernel_pages bi secs = frame_number ` fst ` set (boot_maps secs bi)"

text \<open>The pages of the heap and of the stacks.\<close>

definition dynamic_pages :: "usize set" where
  "dynamic_pages = {n. 0x40000 \<le> n \<and> n \<le> 0x400e1}"

definition boot_data_ok :: "BootInformation \<Rightarrow> ElfSection list \<Rightarrow> MemoryArea list \<Rightarrow> bool" where
  "boot_data_ok bi secs ms \<longleftrightarrow> bi_memory_areas bi = Some ms \<and> (\<forall>area \<in> set ms. area_ok area)
     \<and> boot_ok bi secs \<and> sections_ok secs \<and> kernel_pages bi secs \<inter> dynamic_pages = {}"

definition boot_tables_ok :: "BootInformation \<Rightarrow> ElfSection list \<Rightarrow> MemoryArea list \<Rightarrow> vm \<Rightarrow> bool" where
  "boot_tables_ok bi secs ms s \<longleftrightarrow> (let r = cr3_frame s in
     cr3_ok s \<and> recursive (pmem s) r r \<and> tables_ok (pmem s) r \<and> mappable s r (tp_page TEMPORARY_PAGE)
     \<and> frame_number r \<in> kernel_pages bi secs
     \<and> (\<forall>f \<in> boot_frames bi secs ms. frame_ok f \<and> f \<notin> table_frames (pmem s) r))"

definition boot_firmware_ok :: "acpi_env \<Rightarrow> BootInformation \<Rightarrow> ElfSection list \<Rightarrow> MemoryArea list \<Rightarrow> firmware \<Rightarrow> vm \<Rightarrow> bool" where
  "boot_firmware_ok env bi secs ms fw s \<longleftrightarrow> firmware_in (pmem s) fw \<and> controllers_ok env fw
     \<and> (\<forall>n \<in> fw_pages fw. Frame n \<notin> boot_frames bi secs ms \<and> Frame n \<notin> table_frames (pmem s) (cr3_frame s))
     \<and> (fw_pages fw \<union> register_page ` set (fw_registers env fw)) \<inter> (kernel_pages bi secs \<union> dynamic_pages) = {}
     \<and> fw_pages fw \<inter> register_page ` set (fw_registers env fw) = {} \<and> distinct (map register_page (fw_registers env fw))"

definition boot_cost :: "acpi_env \<Rightarrow> BootInformation \<Rightarrow> ElfSection list \<Rightarrow> firmware \<Rightarrow> nat" where
  "boot_cost env bi secs fw = 4 * length (boot_maps secs bi) + 511 + fw_cost env fw"

lemma boot_allocator:
  assumes "boot_data_ok bi secs ms" and "boot_tables_ok bi secs ms s" and "4 * length (boot_maps secs bi) + 10 \<le> card (boot_frames bi secs ms)"
  shows "\<exists>a. area_frame_allocator_new (fst (kernel_bounds secs)) (snd (kernel_bounds secs)) (bi_start_address bi) (bi_end_address bi) ms = Inr a
     \<and> free_now (s\<lparr>ALLOCATOR := Some a\<rparr>) = boot_frames bi secs ms \<and> boot_ready bi secs (s\<lparr>ALLOCATOR := Some a\<rparr>)"
proof -
  obtain a where a: "area_frame_allocator_new (fst (kernel_bounds secs)) (snd (kernel_bounds secs)) (bi_start_address bi) (bi_end_address bi) ms = Inr a"
      "alloc_wf a" "free_set a = boot_frames bi secs ms"
    using area_frame_allocator_new_ok [of ms "fst (kernel_bounds secs)" "snd (kernel_bounds secs)" "bi_start_address bi" "bi_end_address bi"]
      assms(1) by (auto simp: boot_data_ok_def boot_frames_def Let_def)
  let ?v = "s\<lparr>ALLOCATOR := Some a\<rparr>"
  have r: "cr3_frame ?v = cr3_frame s" by (simp add: cr3_frame_def)
  note t = assms(2) [unfolded boot_tables_ok_def Let_def]
  have "pt_wf ?v (cr3_frame ?v)"
    using t a(2,3) root_in_frames [of "cr3_frame s" "pmem s"] by (auto simp: pt_wf_def r alloc_apart_def)
  moreover have "cr3_frame ?v \<in> fst ` set (boot_maps secs bi)"
  proof -
    have "frame_number (cr3_frame s) \<in> frame_number ` fst ` set (boot_maps secs bi)" using t by (simp add: kernel_pages_def)
    then show ?thesis unfolding r by (metis (no_types, lifting) Frame.expand imageE)
  qed
  ultimately have "boot_ready bi secs ?v"
    using t assms(1,3) a(3) by (simp add: boot_ready_def boot_data_ok_def r cr3_ok_def mappable_def free_now_def)
  with a show ?thesis by (auto simp: free_now_def)
qed

section \<open>The pages that are mapped\<close>

text \<open>Memory after \<^verbatim>\<open>memory::init\<close>, with the tables of \<open>T\<close> and \<open>r\<close> the top table of the boot loader.\<close>

definition kernel_mapped :: "vm \<Rightarrow> Frame \<Rightarrow> Frame \<Rightarrow> BootInformation \<Rightarrow> ElfSection list \<Rightarrow> bool" where
  "kernel_mapped s T r bi secs \<longleftrightarrow> page_map s T (identity_page r) = None
     \<and> (\<forall>(f, fl) \<in> set (boot_maps secs bi). f \<noteq> r \<longrightarrow> page_map s T (identity_page f) = Some (f, bit fl 1))"

definition heap_mapped :: "vm \<Rightarrow> Frame \<Rightarrow> bool" where
  "heap_mapped s T \<longleftrightarrow> (\<forall>p \<in> set heap_pages. \<exists>f. page_map s T p = Some (f, True))
     \<and> distinct (map (\<lambda>p. map_option fst (page_map s T p)) heap_pages)"

lemma kernel_mapped_extended:
  assumes "kernel_mapped s T r bi secs" and "extended s T P c s'" and "boot_ok bi secs" and "frame_number r \<in> kernel_pages bi secs"
    and "\<forall>p \<in> P. page_number p < 0x800000000" and "\<forall>n \<in> kernel_pages bi secs. Page n \<notin> P"
  shows "kernel_mapped s' T r bi secs"
proof -
  have same: "page_map s' T (identity_page f) = page_map s T (identity_page f)" if "frame_number f \<in> kernel_pages bi secs" for f
  proof -
    have "frame_number f < 0x800000000" using that assms(3) by (auto simp: kernel_pages_def boot_ok_def low_frame_def)
    then show ?thesis using extended_other(1) [OF assms(2) _ assms(5)] assms(6) that by (simp add: identity_page_def)
  qed
  have "frame_number f \<in> kernel_pages bi secs" if "(f, fl) \<in> set (boot_maps secs bi)" for f fl
    using that by (force simp: kernel_pages_def)
  then show ?thesis using assms(1,4) same by (auto simp: kernel_mapped_def)
qed

lemma heap_mapped_extended:
  assumes "heap_mapped s T" and "extended s T P c s'" and "\<forall>p \<in> P. page_number p < 0x800000000" and "\<forall>n \<in> dynamic_pages. Page n \<notin> P"
  shows "heap_mapped s' T"
proof -
  have "page_map s' T p = page_map s T p" if p: "p \<in> set heap_pages" for p
  proof -
    obtain n where n: "p = Page n" "0x40000 \<le> n" "n \<le> 0x4007c" using p by (auto simp: heap_pages_def)
    then have "n \<in> dynamic_pages" by (simp add: dynamic_pages_def word_le_nat_alt)
    with heap_page_low [OF p] extended_other(1) [OF assms(2) _ assms(3)] assms(4) n show ?thesis by simp
  qed
  then show ?thesis using assms(1) by (simp add: heap_mapped_def cong: map_cong)
qed

lemma map_heap_extended:
  assumes "pt_wf s T" and "\<forall>p \<in> set heap_pages. mappable s T p" and "500 \<le> card (free_now s)"
  shows "\<exists>s'. map_heap s = Inr (Page 0x4007c, s') \<and> extended s T (set heap_pages) 500 s' \<and> heap_mapped s' T"
proof -
  note ready = heap_ready [OF assms(2,3)]
  obtain s' where s': "rfold (map_and_flush (PRESENT OR WRITABLE)) heap_pages s = Inr s'" "heap_loop.loop_done s T heap_pages s'"
    using heap_loop.loop_maps [OF assms(1) ready] by blast
  then have m: "map_heap s = Inr (Page 0x4007c, s')" by (simp add: map_heap_loop)
  have l: "length heap_pages = 125" by (simp add: heap_pages_def)
  have "heap_mapped s' T"
    using map_heap_ok [OF assms] m by (auto simp: heap_mapped_def fresh_frames_def)
  with m heap_loop.loop_extended [OF ready s'(2)] l show ?thesis by auto
qed

section \<open>Memory\<close>

lemma after_paging_mappable:
  assumes "\<forall>q. p4_index q \<noteq> 511 \<longrightarrow> page_path q \<notin> (\<lambda>(f, _). page_path (identity_page f)) ` set (boot_maps secs bi) \<longrightarrow>
      page_map s T q = None \<and> mappable s T q"
    and "boot_ok bi secs" and "n < 0x800000000" and "n \<notin> kernel_pages bi secs"
  shows "mappable s T (Page n)"
proof -
  let ?P = "(\<lambda>(f, _). identity_page f) ` set (boot_maps secs bi)"
  have "\<forall>p \<in> ?P. page_number p < 0x800000000" using assms(2) by (auto simp: boot_ok_def low_frame_def identity_page_def)
  moreover have "Page n \<notin> ?P" using assms(4) by (force simp: kernel_pages_def identity_page_def)
  ultimately have "page_path (Page n) \<notin> page_path ` ?P" by (rule low_path_out [OF assms(3)])
  then have "page_path (Page n) \<notin> (\<lambda>(f, _). page_path (identity_page f)) ` set (boot_maps secs bi)"
    by (simp add: image_image case_prod_beta)
  with assms(1) low_page_ok(2) [OF assms(3)] show ?thesis by blast
qed

lemma heap_page_dynamic: "Page n \<in> set heap_pages \<Longrightarrow> n \<in> dynamic_pages"
  by (auto simp: heap_pages_def dynamic_pages_def word_le_nat_alt)

lemma boot_paging:
  assumes d: "boot_data_ok bi secs ms" and t: "boot_tables_ok bi secs ms s"
    and free: "4 * length (boot_maps secs bi) + 511 \<le> card (boot_frames bi secs ms)"
  shows "\<exists>a s1 s2 T. area_frame_allocator_new (fst (kernel_bounds secs)) (snd (kernel_bounds secs)) (bi_start_address bi) (bi_end_address bi) ms = Inr a
     \<and> paging_init bi (s\<lparr>ALLOCATOR := Some a\<rparr>) = Inr s1 \<and> map_heap s1 = Inr (Page 0x4007c, s2)
     \<and> pt_wf s2 T \<and> cr3_frame s2 = T \<and> kernel_mapped s2 T (cr3_frame s) bi secs \<and> heap_mapped s2 T
     \<and> card (boot_frames bi secs ms) \<le> card (free_now s2) + 4 * length (boot_maps secs bi) + 507
     \<and> (\<forall>n < 0x800000000. n \<notin> kernel_pages bi secs \<longrightarrow> Page n \<notin> set heap_pages \<longrightarrow> mappable s2 T (Page n))
     \<and> (\<forall>h. h \<notin> boot_frames bi secs ms \<longrightarrow> h \<notin> table_frames (pmem s) (cr3_frame s) \<longrightarrow> pmem s2 h = pmem s h \<and> idle s2 {T} h)"
proof -
  let ?r = "cr3_frame s"
  have bok: "boot_ok bi secs" and kd: "kernel_pages bi secs \<inter> dynamic_pages = {}" using d by (simp_all add: boot_data_ok_def)
  obtain a where a: "area_frame_allocator_new (fst (kernel_bounds secs)) (snd (kernel_bounds secs)) (bi_start_address bi) (bi_end_address bi) ms = Inr a"
      "free_now (s\<lparr>ALLOCATOR := Some a\<rparr>) = boot_frames bi secs ms" "boot_ready bi secs (s\<lparr>ALLOCATOR := Some a\<rparr>)"
    using boot_allocator [OF d t] free by auto
  let ?v = "s\<lparr>ALLOCATOR := Some a\<rparr>"
  have r: "cr3_frame ?v = ?r" by (simp add: cr3_frame_def)
  obtain s1 T where s1: "paging_init bi ?v = Inr s1" "cr3_frame s1 = T" "pt_wf s1 T" "kernel_mapped s1 T ?r bi secs"
      "\<forall>q. p4_index q \<noteq> 511 \<longrightarrow> page_path q \<notin> (\<lambda>(f, _). page_path (identity_page f)) ` set (boot_maps secs bi) \<longrightarrow>
         page_map s1 T q = None \<and> mappable s1 T q"
      "card (boot_frames bi secs ms) \<le> card (free_now s1) + 4 * length (boot_maps secs bi) + 7" "spared ?v {?r} s1 {T}"
    using paging_init_ok [OF a(3)] a(2) r by (auto simp: kernel_mapped_def)
  note m1 = after_paging_mappable [OF s1(5) bok]
  have "\<forall>p \<in> set heap_pages. mappable s1 T p"
  proof
    fix p assume p: "p \<in> set heap_pages"
    then have "page_number p \<in> dynamic_pages" using heap_page_dynamic [of "page_number p"] by simp
    with m1 [of "page_number p"] kd heap_page_low [OF p] show "mappable s1 T p" by auto
  qed
  moreover have "500 \<le> card (free_now s1)" using s1(6) free by simp
  ultimately obtain s2 where s2: "map_heap s1 = Inr (Page 0x4007c, s2)" "extended s1 T (set heap_pages) 500 s2" "heap_mapped s2 T"
    using map_heap_extended [OF s1(3)] by blast
  have hlow: "\<forall>p \<in> set heap_pages. page_number p < 0x800000000" using heap_page_low by blast
  have k2: "kept s1 T s2" "pt_wf s2 T" using s2(2) by (simp_all add: extended_def)
  have m2: "\<forall>n < 0x800000000. n \<notin> kernel_pages bi secs \<longrightarrow> Page n \<notin> set heap_pages \<longrightarrow> mappable s2 T (Page n)"
    using extended_other(2) [OF s2(2) _ hlow] m1 by blast
  have "spared ?v {?r} s2 {T}" using spared_trans [OF s1(7) kept_spared [OF k2(1)]] .
  then have "\<forall>h. h \<notin> boot_frames bi secs ms \<longrightarrow> h \<notin> table_frames (pmem s) ?r \<longrightarrow> pmem s2 h = pmem s h \<and> idle s2 {T} h"
    using a(2) by (simp add: spared_def idle_def)
  moreover have "kernel_mapped s2 T ?r bi secs"
    using kernel_mapped_extended [OF s1(4) s2(2) bok _ hlow] t kd heap_page_dynamic by (auto simp: boot_tables_ok_def Let_def)
  moreover have "card (boot_frames bi secs ms) \<le> card (free_now s2) + 4 * length (boot_maps secs bi) + 507"
    using s2(2) s1(6) by (simp add: extended_def)
  moreover have "cr3_frame s2 = T" using kept_cr3 [OF k2(1)] s1(2) by simp
  ultimately show ?thesis using a(1) s1(1) s2(1,3) k2(2) m2 by blast
qed

text \<open>The firmware's tables are untouched by then.\<close>

lemma boot_firmware_ready:
  assumes f: "boot_firmware_ok env bi secs ms fw s"
    and same: "\<forall>h. h \<notin> boot_frames bi secs ms \<longrightarrow> h \<notin> table_frames (pmem s) (cr3_frame s) \<longrightarrow> pmem s2 h = pmem s h \<and> idle s2 {T} h"
    and m: "\<forall>n < 0x800000000. n \<notin> kernel_pages bi secs \<longrightarrow> Page n \<notin> set heap_pages \<longrightarrow> mappable s2 T (Page n)"
  shows "fw_ready s2 T fw" and "registers_free s2 T env fw"
proof -
  let ?K = "fw_pages fw \<union> register_page ` set (fw_registers env fw)"
  have apart: "n \<notin> kernel_pages bi secs" "Page n \<notin> set heap_pages" if "n \<in> ?K" for n
    using f that heap_page_dynamic by (auto simp: boot_firmware_ok_def)
  have fin: "firmware_in (pmem s) fw" using f by (simp add: boot_firmware_ok_def)
  have Klow: "n < 0x800000000" if "n \<in> ?K" for n
    using that register_page_low fw_pages_low [of "pmem s" fw] fin by (auto simp: firmware_in_def)
  have mK: "mappable s2 T (Page n)" if "n \<in> ?K" for n using m apart [OF that] Klow [OF that] by blast
  have idle: "pmem s2 (Frame n) = pmem s (Frame n) \<and> idle s2 {T} (Frame n)" if "n \<in> fw_pages fw" for n
    using f same that by (simp add: boot_firmware_ok_def)
  show "fw_ready s2 T fw"
    unfolding fw_ready_def
  proof (intro conjI allI ballI impI)
    show "firmware_in (pmem s2) fw" using firmware_same [OF _ fin] idle by blast
    show "idle s2 {T} (Frame n)" if "n \<in> fw_pages fw" for n using idle [OF that] by blast
    show "mappable s2 T (Page n)" if "0xe0 \<le> n \<and> n \<le> 0xff" for n using that mK [of n] by (simp add: fw_pages_def)
    show "ready_page s2 T n" if "n \<in> table_pages (fw_root fw) (fw_root_len fw)" for n
      using that Klow [of n] mK [of n] by (simp add: fw_pages_def ready_page_def)
  qed
  show "registers_free s2 T env fw" using f mK by (auto simp: registers_free_def boot_firmware_ok_def)
qed

text \<open>What memory is like after \<^verbatim>\<open>memory::init\<close>.\<close>

definition memory_up :: "acpi_env \<Rightarrow> BootInformation \<Rightarrow> ElfSection list \<Rightarrow> firmware \<Rightarrow> Frame \<Rightarrow> vm \<Rightarrow> bool" where
  "memory_up env bi secs fw r s \<longleftrightarrow> (let T = cr3_frame s in
     pt_wf s T \<and> kernel_mapped s T r bi secs \<and> heap_mapped s T \<and> (\<forall>n \<in> fw_pages fw. direct s T n)
     \<and> registers_mapped s T (fw_registers env fw))"

definition apic_after :: "firmware \<Rightarrow> ApicManager option \<Rightarrow> ApicManager option" where
  "apic_after fw old = (case fw_madt fw of None \<Rightarrow> old | Some mt \<Rightarrow> Some (manager_of mt))"

lemma fw_touched_out:
  assumes "boot_firmware_ok env bi secs ms fw s"
  shows "\<forall>p \<in> fw_touched env fw. page_number p < 0x800000000" and "\<forall>n \<in> kernel_pages bi secs. Page n \<notin> fw_touched env fw"
    and "\<forall>n \<in> dynamic_pages. Page n \<notin> fw_touched env fw"
  using assms register_page_low fw_pages_low [of "pmem s" fw]
  by (auto simp: fw_touched_def boot_firmware_ok_def firmware_in_def)

lemma paging_report_ok:
  assumes "boot_ok bi secs" and "cr3_ok before" and "frame_number (cr3_frame before) \<in> kernel_pages bi secs" and "serial_ready hw COM1"
  obtains p' where "paging_report hw bi before after p = Inr p'" "printed p p'"
proof -
  let ?r = "cr3_frame before"
  have "low_frame ?r" using assms(1,3) by (auto simp: boot_ok_def kernel_pages_def low_frame_def)
  then have n: "frame_number ?r < 0x800000000" "unat (frame_number ?r) < 2 ^ 52" by (simp_all add: low_frame_def word_less_nat_alt)
  then have start: "page_start_address (identity_page ?r) = Inr (VirtualAddress (push_bit 12 (frame_number ?r)))"
    by (simp add: page_start_address_def identity_page_def mult_PAGE_SIZE)
  note ln = println_printed [OF assms(4)]
  obtain p1 where p1: "println hw ''[ vmm ] Initialising paging.'' p = Inr p1" "printed p p1" by (rule ln)
  have "\<exists>p'. println hw (section_message sec) q = Inr p' \<and> printed q p'" for sec and q :: "'a io_scheme" using ln by metis
  from rfold_printed [of _ "\<lambda>sec. println hw (section_message sec)", OF this] obtain p2
    where p2: "rfold (\<lambda>sec. println hw (section_message sec)) (filter sec_allocated secs) p1 = Inr p2" "printed p1 p2" by blast
  obtain p3 where p3: "println hw ''[ vmm ] Identity mapping the VGA text buffer.'' p2 = Inr p3" "printed p2 p3" by (rule ln)
  obtain p4 where p4: "println hw ''[ vmm ] Identity mapping multiboot structures.'' p3 = Inr p4" "printed p3 p4" by (rule ln)
  obtain p5 where p5: "println hw (''[ vmm ] Switched to new page table. PML4 at '' @ fmt_alternate_hex (active_table_address after)) p4 = Inr p5"
      "printed p4 p5" by (rule ln)
  obtain p6 where p6: "println hw (''[ vmm ] Guard page at '' @ fmt_alternate_hex (push_bit 12 (frame_number ?r)) @ ''.'') p5 = Inr p6"
      "printed p5 p6" by (rule ln)
  have "paging_report hw bi before after p = Inr p6"
    using p1(1) p2(1) p3(1) p4(1) p5(1) p6(1) start identity_page_containing [OF \<open>low_frame ?r\<close>] assms(1) cr3_ok_frame [OF assms(2)]
    by (auto simp: paging_report_def boot_ok_def res_simps)
  moreover have "printed p p6" using p1(2) p2(2) p3(2) p4(2) p5(2) p6(2) printed_trans by metis
  ultimately show ?thesis by (rule that)
qed

lemma memory_init_ok:
  assumes d: "boot_data_ok bi secs ms" and t: "boot_tables_ok bi secs ms (pvm p)" and f: "boot_firmware_ok env bi secs ms fw (pvm p)"
    and free: "boot_cost env bi secs fw \<le> card (boot_frames bi secs ms)" and sr: "serial_ready hw COM1"
  shows "\<exists>p'. memory_init hw env bi p = Inr (\<lparr>stack_allocator = stack_range 0x4007d 0x400e1\<rparr>, (HEAP_START, HEAP_SIZE), p')
     \<and> memory_up env bi secs fw (cr3_frame (pvm p)) (pvm p') \<and> APIC_MANAGER p' = apic_after fw (APIC_MANAGER p)
     \<and> mappable (pvm p') (cr3_frame (pvm p')) (Page 0x4007e) \<and> 4 \<le> card (free_now (pvm p'))"
proof -
  let ?r = "cr3_frame (pvm p)"
  obtain a s1 s2 T where s2: "area_frame_allocator_new (fst (kernel_bounds secs)) (snd (kernel_bounds secs)) (bi_start_address bi) (bi_end_address bi) ms = Inr a"
      "paging_init bi ((pvm p)\<lparr>ALLOCATOR := Some a\<rparr>) = Inr s1" "map_heap s1 = Inr (Page 0x4007c, s2)"
      "pt_wf s2 T" "cr3_frame s2 = T" "kernel_mapped s2 T ?r bi secs" "heap_mapped s2 T"
      "card (boot_frames bi secs ms) \<le> card (free_now s2) + 4 * length (boot_maps secs bi) + 507"
      "\<forall>n < 0x800000000. n \<notin> kernel_pages bi secs \<longrightarrow> Page n \<notin> set heap_pages \<longrightarrow> mappable s2 T (Page n)"
      "\<forall>h. h \<notin> boot_frames bi secs ms \<longrightarrow> h \<notin> table_frames (pmem (pvm p)) ?r \<longrightarrow> pmem s2 h = pmem (pvm p) h \<and> idle s2 {T} h"
    using boot_paging [OF d t] free by (auto simp: boot_cost_def)
  note fw = boot_firmware_ready [OF f s2(10,9)] and out = fw_touched_out [OF f]
  have c: "controllers_ok env fw" using f by (simp add: boot_firmware_ok_def)
  have "fw_cost env fw \<le> card (free_now s2)" using s2(8) free by (simp add: boot_cost_def)
  moreover obtain p1 where p1: "println hw (''[ pmm ] Kernel start: '' @ fmt_alternate_hex (fst (kernel_bounds secs)) @ '', kernel end: ''
      @ fmt_alternate_hex (snd (kernel_bounds secs))) p = Inr p1" "printed p p1" by (rule println_printed [OF sr])
  moreover obtain p2 where p2: "println hw (''[ pmm ] Multiboot data structure start: '' @ fmt_alternate_hex (bi_start_address bi)
      @ '', end: '' @ fmt_alternate_hex (bi_end_address bi)) p1 = Inr p2" "printed p1 p2" by (rule println_printed [OF sr])
  have v2: "pvm p2 = pvm p" "APIC_MANAGER p2 = APIC_MANAGER p" using printed_platform [OF printed_trans [OF p1(2) p2(2)]] by simp_all
  let ?v = "(pvm p)\<lparr>ALLOCATOR := Some a\<rparr>"
  have "cr3_ok ?v" "cr3_frame ?v = ?r" "frame_number ?r \<in> kernel_pages bi secs" "boot_ok bi secs"
    using t d by (auto simp: boot_tables_ok_def boot_data_ok_def cr3_ok_def cr3_frame_def Let_def)
  then obtain q where q: "paging_report hw bi ?v s1 p2 = Inr q" "printed p2 q" using paging_report_ok [OF _ _ _ sr, of bi secs ?v] by metis
  moreover obtain p3 where p3: "println hw ''[ vmm ] Mapping heap pages ...'' (q\<lparr>pvm := s1\<rparr>) = Inr p3" "printed (q\<lparr>pvm := s1\<rparr>) p3"
    by (rule println_printed [OF sr])
  have vq: "APIC_MANAGER q = APIC_MANAGER p" using printed_platform [OF q(2)] v2 by simp
  have v3: "pvm p3 = s1" "APIC_MANAGER p3 = APIC_MANAGER p" using printed_platform [OF p3(2)] vq by simp_all
  ultimately obtain p' where p': "acpi_init hw env (p3\<lparr>pvm := s2\<rparr>) = Inr p'" "extended s2 T (fw_touched env fw) (fw_cost env fw) (pvm p')"
      "\<forall>n \<in> fw_pages fw. direct (pvm p') T n" "registers_mapped (pvm p') T (fw_registers env fw)"
      "APIC_MANAGER p' = apic_after fw (APIC_MANAGER p)"
    using acpi_init_ok [of "p3\<lparr>pvm := s2\<rparr>" T fw env hw] s2(4,5) fw c sr v3 by (auto simp: apic_after_def split: option.splits)
  have k: "kept s2 T (pvm p')" "pt_wf (pvm p') T" using p'(2) by (simp_all add: extended_def)
  have T: "cr3_frame (pvm p') = T" using kept_cr3 [OF k(1)] s2(5) by simp
  have kern: "boot_ok bi secs" "frame_number ?r \<in> kernel_pages bi secs" "kernel_pages bi secs \<inter> dynamic_pages = {}"
    using d t by (simp_all add: boot_data_ok_def boot_tables_ok_def Let_def)
  have "memory_up env bi secs fw ?r (pvm p')"
    using kernel_mapped_extended [OF s2(6) p'(2) kern(1,2) out(1,2)] heap_mapped_extended [OF s2(7) p'(2) out(1,3)] k(2) p'(3,4)
    by (simp add: memory_up_def T)
  moreover have "mappable (pvm p') T (Page 0x4007e)"
  proof (rule extended_other(2) [OF p'(2) _ out(1)])
    have "0x4007e \<notin> kernel_pages bi secs" using kern(3) by (auto simp: dynamic_pages_def)
    moreover have "Page 0x4007e \<notin> set heap_pages" by (auto simp: heap_pages_def)
    ultimately show "mappable s2 T (Page 0x4007e)" using s2(9) [rule_format, of "0x4007e"] by simp
    show "Page 0x4007e \<notin> fw_touched env fw" using out(3) by (simp add: dynamic_pages_def)
  qed simp
  moreover have "4 \<le> card (free_now (pvm p'))" using p'(2) s2(8) free by (simp add: extended_def boot_cost_def)
  moreover have "stack_allocator_after (Page 0x4007c) = Inr (stack_range 0x4007d 0x400e1)"
    by (simp add: stack_allocator_after_def page_add_def checked_add_def stack_allocator_new_def stack_range_def)
  then have "memory_init hw env bi p = Inr (\<lparr>stack_allocator = stack_range 0x4007d 0x400e1\<rparr>, (HEAP_START, HEAP_SIZE), p')"
    using d s2(1-3) p'(1) kernel_range_ok [of secs] p1(1) p2(1) q(1) p3(1) v2 v3
    by (simp add: memory_init_def boot_data_ok_def boot_ok_def case_prod_beta Let_def)
  ultimately show ?thesis using p'(5) T by blast
qed

section \<open>Interrupt tables\<close>

lemma double_fault_stack:
  assumes "pt_wf s T" and "mappable s T (Page 0x4007e)" and "4 \<le> card (free_now s)"
  shows "\<exists>s'. alloc_stack (stack_range 0x4007d 0x400e1) 1 s
      = Inr (Some \<lparr>stack_top = 0x4007f000, stack_bottom = 0x4007e000\<rparr>, stack_range 0x4007f 0x400e1, s')
     \<and> extended s T {Page 0x4007e} 4 s'"
proof -
  have pages: "stack_pages 0x4007d 1 = [Page 0x4007e]" by (simp add: stack_pages_def word_range_def)
  have m: "\<forall>p \<in> set (stack_pages 0x4007d 1). mappable s T p" using assms(2) by (simp add: pages)
  have free: "4 * unat (1 :: usize) \<le> card (free_now s)" using assms(3) by simp
  have e: "(0x400e1 :: usize) < 0x800000000" and fit: "unat (0x4007d :: usize) + unat (1 :: usize) \<le> unat (0x400e1 :: usize)" by simp_all
  obtain s' where s': "alloc_stack (stack_range 0x4007d 0x400e1) 1 s
      = Inr (Some \<lparr>stack_top = 0x4007f000, stack_bottom = 0x4007e000\<rparr>, stack_range 0x4007f 0x400e1, s')"
      "stack_loop.loop_done s T (stack_pages 0x4007d 1) s'"
    using alloc_stack_ok [OF assms(1) e _ fit m free] by (auto simp: PAGE_SIZE_def)
  from stack_loop.loop_extended [OF stack_pages_ready(1) [OF e fit m free] s'(2)] s'(1) show ?thesis by (auto simp: pages)
qed

definition gdt_up :: "u64 \<Rightarrow> cpu_tables \<Rightarrow> bool" where
  "gdt_up ptr t \<longleftrightarrow> ist0 t = 0x4007f000 \<and> code_selector t = SegmentSelector 1 \<and> tss_selector t = SegmentSelector 2
     \<and> gdtr t = \<lparr>dtp_base = ptr, dtp_limit = 63\<rparr>"

lemma interrupts_init_ok:
  assumes "pt_wf (pvm p) T" and "mappable (pvm p) T (Page 0x4007e)" and "4 \<le> card (free_now (pvm p))" and "sz \<noteq> 0"
    and sr: "serial_ready hw COM1"
  shows "\<exists>t p'. interrupts_init hw gb sb sz ptr gptr \<lparr>stack_allocator = stack_range 0x4007d 0x400e1\<rparr> p
      = Inr (t, \<lparr>stack_allocator = stack_range 0x4007f 0x400e1\<rparr>, p') \<and> gdt_up gptr t \<and> extended (pvm p) T {Page 0x4007e} 4 (pvm p')
     \<and> APIC_MANAGER p' = APIC_MANAGER p"
proof -
  obtain s' where s': "alloc_stack (stack_range 0x4007d 0x400e1) 1 (pvm p)
      = Inr (Some \<lparr>stack_top = 0x4007f000, stack_bottom = 0x4007e000\<rparr>, stack_range 0x4007f 0x400e1, s')"
      "extended (pvm p) T {Page 0x4007e} 4 s'"
    using double_fault_stack [OF assms(1-3)] by blast
  have "1 \<le> sz" using assms(4) by (simp add: word_le_nat_alt Suc_le_eq unat_gt_0)
  then obtain low high where d: "tss_segment gb sb sz ptr = Inr (SystemSegment low high)"
    by (simp add: tss_segment_def checked_sub_def Let_def)
  obtain p1 where p1: "println hw ''[ tables ] Loading GDT entries.'' (p\<lparr>pvm := s'\<rparr>) = Inr p1" "printed (p\<lparr>pvm := s'\<rparr>) p1"
    by (rule println_printed [OF sr])
  obtain p2 where p2: "println hw ''[ tables ] Successfully loaded GDT.'' p1 = Inr p2" "printed p1 p2" by (rule println_printed [OF sr])
  obtain p3 where p3: "println hw ''[ tables ] Reloading CS.'' p2 = Inr p3" "printed p2 p3" by (rule println_printed [OF sr])
  obtain p4 where p4: "println hw ''[ tables ] Loading TSS.'' p3 = Inr p4" "printed p3 p4" by (rule println_printed [OF sr])
  obtain p5 where p5: "println hw ''[ interrupts ] Installing exception handlers.'' p4 = Inr p5" "printed p4 p5"
    by (rule println_printed [OF sr])
  obtain p6 where p6: "println hw ''[ interrupts ] Installing IRQs.'' p5 = Inr p6" "printed p5 p6" by (rule println_printed [OF sr])
  obtain p7 where p7: "println hw ''[ tables ] Successfully loaded IDT.'' p6 = Inr p7" "printed p6 p7" by (rule println_printed [OF sr])
  have "printed (p\<lparr>pvm := s'\<rparr>) p7" using p1(2) p2(2) p3(2) p4(2) p5(2) p6(2) p7(2) printed_trans by metis
  from printed_platform [OF this] have "pvm p7 = s'" "APIC_MANAGER p7 = APIC_MANAGER p" by simp_all
  with s' d p1(1) p2(1) p3(1) p4(1) p5(1) p6(1) p7(1) show ?thesis
    by (auto simp: interrupts_init_def controller_alloc_stack_def gdt_add_entry_def gdt_push_def gdt_new_def kernel_code_segment_def
        gdt_up_def gdt_load_def load_idt_def Let_def)
qed

lemma memory_up_extended:
  assumes m: "memory_up env bi secs fw r s" and e: "extended s (cr3_frame s) {Page 0x4007e} c s'"
    and d: "boot_data_ok bi secs ms" and f: "boot_firmware_ok env bi secs ms fw s0" and r: "frame_number r \<in> kernel_pages bi secs"
  shows "memory_up env bi secs fw r s'"
proof -
  let ?T = "cr3_frame s"
  have T: "cr3_frame s' = ?T" using e kept_cr3 [of s ?T s'] by (simp add: extended_def)
  note m = m [unfolded memory_up_def Let_def]
  have dyn: "0x4007e \<in> dynamic_pages" by (simp add: dynamic_pages_def)
  have low: "\<forall>p \<in> {Page 0x4007e}. page_number p < 0x800000000" by simp
  have "kernel_mapped s' ?T r bi secs"
    using kernel_mapped_extended [OF _ e _ r low] m d dyn by (auto simp: boot_data_ok_def)
  moreover have "page_map s' ?T p = page_map s ?T p" if p: "p \<in> set heap_pages" for p
  proof -
    have "Page 0x4007e \<notin> set heap_pages" by (auto simp: heap_pages_def)
    with p have "p \<noteq> Page 0x4007e" by metis
    then show ?thesis using extended_other(1) [OF e _ low, of "page_number p"] heap_page_low [OF p] by (cases p) simp
  qed
  then have "heap_mapped s' ?T" using m by (simp add: heap_mapped_def cong: map_cong)
  moreover have "page_map s' ?T (Page (register_page a)) = page_map s ?T (Page (register_page a))" if "a \<in> set (fw_registers env fw)" for a
  proof -
    have "register_page a \<notin> dynamic_pages" using f that by (auto simp: boot_firmware_ok_def)
    with dyn have "register_page a \<noteq> 0x4007e" by metis
    then show ?thesis using extended_other(1) [OF e register_page_low low] by simp
  qed
  then have "registers_mapped s' ?T (fw_registers env fw)" using m by (simp add: registers_mapped_def)
  ultimately show ?thesis using m e by (simp add: memory_up_def T extended_def)
qed

section \<open>All of start-up\<close>

text \<open>What runs before memory is set up: the console is cleared and the processor's flags are set.\<close>

definition early :: "hw \<Rightarrow> machine \<Rightarrow> machine res" where
  "early hw m = rbind (serial_init (disable_8259_pic PICS m)) (\<lambda>m. rbind (clear_screen (emit Cli m))
     (\<lambda>m. rbind (println hw ''[ INFO ] lambdaOS: Begin init.'' m) (\<lambda>m. Inr (enable_write_protect_bit (enable_nxe_bit m)))))"

lemma early_ok:
  assumes "console_wf m" and "com1 m = COM1" and "serial_ready hw COM1"
  shows "\<exists>m'. early hw m = Inr m' \<and> memory m' = memory m \<and> apic m' = apic m \<and> devices m' = devices m
     \<and> EFER m' = EFER m OR push_bit 11 1 \<and> CR0 m' = CR0 m OR push_bit 16 1"
proof -
  let ?m1 = "disable_8259_pic PICS m"
  have m1: "io.more ?m1 = io.more m" by (simp add: disable_8259_pic_def port_defs emit_def Let_def)
  have "com1 ?m1 = COM1" using assms(2) by (simp add: disable_8259_pic_def port_defs emit_def Let_def)
  from serial_init_returns [OF this] obtain m2 where m2: "serial_init ?m1 = Inr m2" "SCREEN m2 = SCREEN ?m1" "frame m2 = frame ?m1"
    "memory m2 = memory ?m1" "apic m2 = apic ?m1" "devices m2 = devices ?m1" "EFER m2 = EFER ?m1" "CR0 m2 = CR0 ?m1"
    by simp
  have "console_wf (emit Cli m2)"
    using assms(1) m2(2,3) by (simp add: console_wf_def emit_def disable_8259_pic_def port_defs Let_def)
  from clear_screen_returns [OF this] obtain m3 where
    m3: "clear_screen (emit Cli m2) = Inr m3" "console.more m3 = console.more (emit Cli m2)" by blast
  from m3(2) have "memory m3 = memory m2" "apic m3 = apic m2" "devices m3 = devices m2" "EFER m3 = EFER m2" "CR0 m3 = CR0 m2"
    by (cases m3, cases m2, simp add: emit_def)+
  moreover obtain m4 where m4: "println hw ''[ INFO ] lambdaOS: Begin init.'' m3 = Inr m4" "printed m3 m4"
    by (rule println_printed [OF assms(3)])
  ultimately show ?thesis using m2 m3(1) machine_more [OF m1] printed_machine [OF m4(2)]
    by (simp add: early_def enable_write_protect_bit_def enable_nxe_bit_def WRITE_PROTECT_def Let_def)
qed

lemma arch_init_early:
  "arch_init hw env mbi m = rbind (early hw m) (\<lambda>m.
     rbind (memory_init hw (acpi env) (load env mbi) (as_platform m)) (\<lambda>(mc, _, p).
     let m = put_platform p m in
     rbind (interrupts_init hw (get_bits env) (set_bits env) (tss_size env) (tss_ptr env) (gdt_ptr env) mc (as_platform m)) (\<lambda>(t, mc, p).
     rbind (device_init hw ((put_platform p m)\<lparr>tables := Some t\<rparr>)) (\<lambda>m.
     println hw ''[ OK ] Init successful, you may now type.'' (emit Sti m)))))"
  by (simp add: arch_init_def early_def Let_def rbind_assoc case_prod_beta)

section \<open>An example machine\<close>

definition full_areas :: "MemoryArea list" where
  "full_areas = [\<lparr>area_start = 0x1000000, area_size = 0x1000000\<rparr>]"

definition full_boot :: BootInformation where
  "full_boot = big_boot\<lparr>bi_memory_areas := Some full_areas\<rparr>"

definition full_env :: boot_env where
  "full_env = (example_boot_env full_boot)\<lparr>acpi := fw_env\<rparr>"

definition full_machine :: machine where
  "full_machine = example_machine\<lparr>memory := fw_vm\<rparr>"

lemma full_maps: "boot_maps [big_section] full_boot = boot_maps [big_section] big_boot"
  by (simp add: boot_maps_def full_boot_def)

lemma full_kernel_pages: "kernel_pages full_boot [big_section] = {9, 0xb8, 0x120}"
  by (simp add: kernel_pages_def full_maps big_maps)

lemma full_usable: "usable_frames 0x9000 0xa000 0x120000 0x120400 full_areas = {f. 0x1000 \<le> unat (frame_number f) \<and> unat (frame_number f) < 0x2000}"
proof -
  have "f \<in> usable_frames 0x9000 0xa000 0x120000 0x120400 full_areas \<longleftrightarrow> 0x1000 \<le> unat (frame_number f) \<and> unat (frame_number f) < 0x2000" for f
    by (cases f) (auto simp: usable_frames_def full_areas_def in_area_def last_frame_def area_first_frame_def reserved_def
        frame_containing_address_def PAGE_SIZE_def word_le_nat_alt)
  then show ?thesis by blast
qed

lemma full_frames:
  "boot_frames full_boot [big_section] full_areas \<subseteq> {f. 0x1000 \<le> unat (frame_number f) \<and> unat (frame_number f) < 0x2000}"
  "4095 \<le> card (boot_frames full_boot [big_section] full_areas)"
proof -
  let ?u = "usable_frames 0x9000 0xa000 0x120000 0x120400 full_areas"
  have b: "boot_frames full_boot [big_section] full_areas = ?u - {Min ?u}"
    by (simp add: boot_frames_def kernel_bounds_def loaded_def big_section_def full_boot_def big_boot_def Let_def)
  then show "boot_frames full_boot [big_section] full_areas \<subseteq> {f. 0x1000 \<le> unat (frame_number f) \<and> unat (frame_number f) < 0x2000}"
    using full_usable by auto
  have "?u = free_now big_vm" by (simp add: full_usable free_now_def big_vm_def big_allocator_free)
  then have "4096 \<le> card ?u" using big_vm_card by simp
  moreover from this have "finite ?u" by (intro card_ge_0_finite) simp
  ultimately show "4095 \<le> card (boot_frames full_boot [big_section] full_areas)"
    using diff_card_le_card_Diff [of "{Min ?u}" ?u] by (simp add: b)
qed

lemma full_boot_ok: "boot_data_ok full_boot [big_section] full_areas"
proof -
  have "boot_ok full_boot [big_section]"
    using big_boot_ready full_maps by (simp add: boot_ready_def boot_ok_def) (simp add: full_boot_def)
  moreover have "sections_ok [big_section]" by (simp add: sections_ok_def loaded_def big_section_def)
  ultimately show ?thesis
    by (simp add: boot_data_ok_def full_kernel_pages dynamic_pages_def) (simp add: full_boot_def full_areas_def area_ok_def)
qed

lemma full_tables_ok: "boot_tables_ok full_boot [big_section] full_areas fw_vm"
proof -
  have "mappable fw_vm (Frame 9) (tp_page TEMPORARY_PAGE)" using fw_vm_mappable [OF temporary_page_indices(2)] .
  moreover have "cr3_ok fw_vm" by (simp add: cr3_ok_def fw_vm_simps)
  moreover have "recursive (pmem fw_vm) (Frame 9) (Frame 9)" "tables_ok (pmem fw_vm) (Frame 9)"
    using pt_wf_recursive [OF fw_vm_wf(1)] pt_wf_tables_ok [OF fw_vm_wf(1)] by (simp_all add: fw_vm_simps)
  moreover have "frame_ok f \<and> f \<noteq> Frame 9" if "f \<in> boot_frames full_boot [big_section] full_areas" for f
    using full_frames(1) that by (auto simp: frame_ok_bound)
  ultimately show ?thesis
    by (simp add: boot_tables_ok_def fw_vm_simps(1) fw_vm_wf(2) full_kernel_pages Let_def)
qed

lemma full_firmware_ok: "boot_firmware_ok fw_env full_boot [big_section] full_areas example_fw fw_vm"
proof -
  have "Frame n \<notin> boot_frames full_boot [big_section] full_areas \<and> n \<noteq> 9" if "0xe0 \<le> n" "n \<le> 0xff" for n
    using full_frames(1) that by (auto simp: word_le_nat_alt)
  moreover have "(fw_pages example_fw \<union> register_page ` set (fw_registers fw_env example_fw)) \<inter>
      (kernel_pages full_boot [big_section] \<union> dynamic_pages) = {}"
    by (auto simp: example_fw_simps fw_registers_example full_kernel_pages dynamic_pages_def register_page_def PAGE_SIZE_def word_le_nat_alt)
  moreover have "fw_pages example_fw \<inter> register_page ` set (fw_registers fw_env example_fw) = {}"
    "distinct (map register_page (fw_registers fw_env example_fw))"
    by (auto simp: example_fw_simps fw_registers_example register_page_def PAGE_SIZE_def)
  ultimately show ?thesis
    using example_firmware [of "pmem fw_vm"] fw_controllers
    by (simp add: boot_firmware_ok_def fw_vm_simps fw_vm_wf(2)) (simp add: example_fw_simps)
qed

lemma full_cost: "boot_cost fw_env full_boot [big_section] example_fw \<le> card (boot_frames full_boot [big_section] full_areas)"
  using full_frames(2) by (simp add: boot_cost_def full_maps big_maps fw_cost_example)

section \<open>Properties\<close>

text \<open>
  C9. \<^verbatim>\<open>memory::init\<close> as a whole: with boot data in order (sections loaded on pages, areas that do not
  overflow, a kernel outside the pages of the heap and the stacks), boot tables with their recursive entry,
  a firmware whose tables lie in frames that are neither free nor page tables, enough free
  frames and a serial port that is ready, it returns: the processor uses a new table in which the kernel is mapped to itself but for
  the guard page, the heap is mapped writable to frames that are all different, the firmware's
  tables and the interrupt controllers' registers are mapped, and the stacks' range starts behind the heap.
\<close>

theorem memory_init_sets_up:
  assumes "boot_data_ok bi secs ms" and "boot_tables_ok bi secs ms (pvm p)" and "boot_firmware_ok env bi secs ms fw (pvm p)"
    and "boot_cost env bi secs fw \<le> card (boot_frames bi secs ms)" and "serial_ready hw COM1"
  shows "\<exists>p'. memory_init hw env bi p = Inr (\<lparr>stack_allocator = stack_range 0x4007d 0x400e1\<rparr>, (HEAP_START, HEAP_SIZE), p')
     \<and> memory_up env bi secs fw (cr3_frame (pvm p)) (pvm p') \<and> APIC_MANAGER p' = apic_after fw (APIC_MANAGER p)"
  using memory_init_ok [OF assms] by blast

theorem memory_init_sets_up_witness:
  "\<exists>p'. memory_init (\<lambda>tr p. 0x20) fw_env full_boot \<lparr>trace = [], pvm = fw_vm, APIC_MANAGER = None, CPUS = 0\<rparr>
       = Inr (\<lparr>stack_allocator = stack_range 0x4007d 0x400e1\<rparr>, (HEAP_START, HEAP_SIZE), p')
     \<and> APIC_MANAGER p' = Some (manager_of fw_madt_image)"
  using memory_init_sets_up [of full_boot "[big_section]" full_areas "\<lparr>trace = [], pvm = fw_vm, APIC_MANAGER = None, CPUS = 0\<rparr>" fw_env example_fw
      "\<lambda>tr p. 0x20"] example_serial_ready full_boot_ok full_tables_ok full_firmware_ok full_cost
  by (auto simp: apic_after_def example_fw_def)

text \<open>
  C6. Start-up completes: on such a machine, with a keyboard controller that works, a serial port that is
  ready and hardware that answers as a configuration space, \<^verbatim>\<open>arch::init\<close> returns with interrupts on, and the last
  line it sent says so. Memory is as \<^verbatim>\<open>memory::init\<close>
  leaves it, the stack for double faults is set, the no-execute and write protect flags are on, the interrupt
  controllers of the firmware's table are known, the terminals exist and the PCI functions of the scan
  are listed. \<^verbatim>\<open>kmain\<close> then never returns.
\<close>

theorem kernel_boots:
  assumes "console_wf m" and "com1 m = COM1" and "boot_data_ok (load env mbi) secs ms"
    and "boot_tables_ok (load env mbi) secs ms (memory m)" and "boot_firmware_ok (acpi env) (load env mbi) secs ms fw (memory m)"
    and "boot_cost (acpi env) (load env mbi) secs fw \<le> card (boot_frames (load env mbi) secs ms)" and "tss_size env \<noteq> 0"
    and "ps2_works hw" and "config_space hw cfg" and "sizes_bars hw" and sr: "serial_ready hw COM1"
  shows "\<exists>m' t. arch_init hw env mbi m = Inr m' \<and> interrupts_on b (trace m')
     \<and> memory_up (acpi env) (load env mbi) secs fw (cr3_frame (memory m)) (memory m')
     \<and> (\<exists>m1. logged [''[ OK ] Init successful, you may now type.''] m1 m')
     \<and> tables m' = Some t \<and> gdt_up (gdt_ptr env) t \<and> bit (EFER m') 11 \<and> bit (CR0 m') 16 \<and> apic m' = apic_after fw (apic m)
     \<and> TTYS m' = Some ttys_start
     \<and> map no_bars (devices m') = map no_bars (devices m) @ concat (map (found_on cfg) [0 ..< 255])
     \<and> kmain hw env mbi m = Inl NoReturn"
proof -
  let ?bi = "load env mbi" and ?e = "acpi env"
  obtain m1 where m1: "early hw m = Inr m1" "memory m1 = memory m" "apic m1 = apic m" "devices m1 = devices m"
      "EFER m1 = EFER m OR push_bit 11 1" "CR0 m1 = CR0 m OR push_bit 16 1"
    using early_ok [OF assms(1,2) sr] by blast
  have p1: "pvm (as_platform m1) = memory m" "APIC_MANAGER (as_platform m1) = apic m" using m1(2,3) by (simp_all add: as_platform_def)
  obtain p where p: "memory_init hw ?e ?bi (as_platform m1) = Inr (\<lparr>stack_allocator = stack_range 0x4007d 0x400e1\<rparr>, (HEAP_START, HEAP_SIZE), p)"
      "memory_up ?e ?bi secs fw (cr3_frame (memory m)) (pvm p)" "APIC_MANAGER p = apic_after fw (apic m)"
      "mappable (pvm p) (cr3_frame (pvm p)) (Page 0x4007e)" "4 \<le> card (free_now (pvm p))"
    using memory_init_ok [of ?bi secs ms "as_platform m1" ?e fw hw] assms(3-6) p1 sr by auto
  have "pt_wf (pvm p) (cr3_frame (pvm p))" using p(2) by (simp add: memory_up_def Let_def)
  moreover have up: "pvm (as_platform (put_platform p m1)) = pvm p" "APIC_MANAGER (as_platform (put_platform p m1)) = APIC_MANAGER p"
    by (simp_all add: as_platform_def put_platform_def)
  ultimately obtain t q where
    t: "interrupts_init hw (get_bits env) (set_bits env) (tss_size env) (tss_ptr env) (gdt_ptr env)
          \<lparr>stack_allocator = stack_range 0x4007d 0x400e1\<rparr> (as_platform (put_platform p m1))
        = Inr (t, \<lparr>stack_allocator = stack_range 0x4007f 0x400e1\<rparr>, q)" "gdt_up (gdt_ptr env) t"
      "extended (pvm p) (cr3_frame (pvm p)) {Page 0x4007e} 4 (pvm q)" "APIC_MANAGER q = APIC_MANAGER p"
    using interrupts_init_ok [where p = "as_platform (put_platform p m1)" and T = "cr3_frame (pvm p)" and gb = "get_bits env"
        and sb = "set_bits env" and ptr = "tss_ptr env" and gptr = "gdt_ptr env", OF _ _ _ assms(7) sr] p(4,5) by auto
  let ?m2 = "(put_platform q (put_platform p m1))\<lparr>tables := Some t\<rparr>"
  obtain m3 where m3: "device_init hw ?m2 = Inr m3" "TTYS m3 = Some ttys_start"
      "map no_bars (devices m3) = map no_bars (devices m1) @ concat (map (found_on cfg) [0 ..< 255])"
      "memory m3 = pvm q" "apic m3 = APIC_MANAGER q" "EFER m3 = EFER m1" "CR0 m3 = CR0 m1" "tables m3 = Some t"
    using device_init_ok [OF assms(8-10) sr, of ?m2] by (auto simp: put_platform_def simp del: upt_rec_numeral)
  let ?ok = "''[ OK ] Init successful, you may now type.''"
  obtain m4 where m4: "println hw ?ok (emit Sti m3) = Inr m4" "logged [?ok] (emit Sti m3) m4" by (rule println_ok [OF sr])
  have run: "arch_init hw env mbi m = Inr m4"
    using m1(1) p(1) t(1) m3(1) m4(1) by (simp add: arch_init_early Let_def)
  have mem: "memory_up ?e ?bi secs fw (cr3_frame (memory m)) (pvm q)"
    using memory_up_extended [OF p(2) t(3) assms(3,5)] assms(4) by (simp add: boot_tables_ok_def Let_def)
  have "io.more m4 = io.more m3" using logged_more [OF m4(2)] by simp
  note m34 = machine_more [OF this]
  have "interrupts_on b (trace m4)"
    using m4(2) by (auto simp: logged_def interrupts_on_append interrupts_on_serial)
  moreover have "bit (EFER m3) 11" "bit (CR0 m3) 16" using m3(6,7) m1(5,6) by (simp_all add: bit_simps)
  ultimately show ?thesis
    using run mem m3 m1(4) t(2,4) p(3) m34 m4(2)
    by (intro exI [of _ m4] exI [of _ t]) (auto simp: kmain_def simp del: upt_rec_numeral)
qed

theorem kernel_boots_witness:
  "\<exists>m'. arch_init example_hw full_env 0x120000 full_machine = Inr m' \<and> interrupts_on False (trace m')
     \<and> page_map (memory m') (cr3_frame (memory m')) (Page 0xb8) = Some (Frame 0xb8, True)
     \<and> apic m' = Some (manager_of fw_madt_image)"
proof -
  have c: "console_wf full_machine" "com1 full_machine = COM1" and mem: "memory full_machine = fw_vm"
    using example_console_wf(1)
    by (simp_all add: full_machine_def example_machine_def keyboard.defs console_wf_def example_keyboard_def example_console_def)
  have e: "load full_env 0x120000 = full_boot" "acpi full_env = fw_env" "tss_size full_env \<noteq> 0"
    by (simp_all add: full_env_def example_boot_env_def)
  obtain m' t where m': "arch_init example_hw full_env 0x120000 full_machine = Inr m'" "interrupts_on False (trace m')"
      "memory_up fw_env full_boot [big_section] example_fw (Frame 9) (memory m')" "apic m' = apic_after example_fw (apic full_machine)"
    using kernel_boots [OF c, of full_env "0x120000" "[big_section]" full_areas example_fw example_hw example_cfg False] e mem
      full_boot_ok full_tables_ok full_firmware_ok full_cost example_hw_ok fw_vm_simps(1) by auto
  have "(Frame 0xb8, WRITABLE) \<in> set (boot_maps [big_section] full_boot)" by (simp add: full_maps big_maps)
  with m'(3) have "page_map (memory m') (cr3_frame (memory m')) (Page 0xb8) = Some (Frame 0xb8, True)"
    by (fastforce simp: memory_up_def kernel_mapped_def identity_page_def bit_flag_consts Let_def)
  with m' show ?thesis by (auto simp: apic_after_def example_fw_def)
qed

end
