(* ===== verification/Ahci.thy ===== *)
theory Ahci
  imports Io
begin

text \<open>
  The frame information structures of the disk controller (\<^verbatim>\<open>device/ahci/fis.rs\<close>): packed structures
  of memory-mapped cells, one record per structure with the fields of the source. They are declarations only: no
  code makes, reads or writes one. An array of cells is a list.
\<close>

section \<open>Types\<close>

datatype FisType = RegH2D | RegD2H | DmaAct | DmaSetup | FisTypeData | Bist | PioSetup | DevBits

fun fis_type_number :: "FisType \<Rightarrow> u8" where
  "fis_type_number RegH2D = 0x27"
| "fis_type_number RegD2H = 0x34"
| "fis_type_number DmaAct = 0x39"
| "fis_type_number DmaSetup = 0x41"
| "fis_type_number FisTypeData = 0x46"
| "fis_type_number Bist = 0x58"
| "fis_type_number PioSetup = 0x5F"
| "fis_type_number DevBits = 0xA1"

section \<open>The structures\<close>

record FisRegH2D =
  fis_type :: "u8 Mmio"
  pm :: "u8 Mmio"
  command :: "u8 Mmio"
  featurel :: "u8 Mmio"
  lba0 :: "u8 Mmio"
  lba1 :: "u8 Mmio"
  lba2 :: "u8 Mmio"
  device :: "u8 Mmio"
  lba3 :: "u8 Mmio"
  lba4 :: "u8 Mmio"
  lba5 :: "u8 Mmio"
  featureh :: "u8 Mmio"
  countl :: "u8 Mmio"
  counth :: "u8 Mmio"
  icc :: "u8 Mmio"
  control :: "u8 Mmio"
  rsv1 :: "u8 Mmio list"

record FisRegD2H =
  fis_type :: "u8 Mmio"
  pm :: "u8 Mmio"
  status :: "u8 Mmio"
  error :: "u8 Mmio"
  lba0 :: "u8 Mmio"
  lba1 :: "u8 Mmio"
  lba2 :: "u8 Mmio"
  device :: "u8 Mmio"
  lba3 :: "u8 Mmio"
  lba4 :: "u8 Mmio"
  lba5 :: "u8 Mmio"
  rsv2 :: "u8 Mmio"
  countl :: "u8 Mmio"
  counth :: "u8 Mmio"
  rsv3 :: "u8 Mmio list"
  rsv4 :: "u8 Mmio list"

record FisData =
  fis_type :: "u8 Mmio"
  pm :: "u8 Mmio"
  rsv1 :: "u8 Mmio list"
  data :: "u8 Mmio list"

record FisPioSetup =
  fis_type :: "u8 Mmio"
  pm :: "u8 Mmio"
  status :: "u8 Mmio"
  error :: "u8 Mmio"
  lba0 :: "u8 Mmio"
  lba1 :: "u8 Mmio"
  lba2 :: "u8 Mmio"
  device :: "u8 Mmio"
  lba3 :: "u8 Mmio"
  lba4 :: "u8 Mmio"
  lba5 :: "u8 Mmio"
  rsv2 :: "u8 Mmio"
  countl :: "u8 Mmio"
  counth :: "u8 Mmio"
  rsv3 :: "u8 Mmio"
  e_status :: "u8 Mmio"
  tc :: "u16 Mmio"
  rsv4 :: "u8 Mmio list"

record FisDmaSetup =
  fis_type :: "u8 Mmio"
  pm :: "u8 Mmio"
  rsv1 :: "u8 Mmio list"
  dma_buffer_id :: "u64 Mmio"
  rsv3 :: "u32 Mmio"
  dma_buffer_offset :: "u32 Mmio"
  transfer_count :: "u32 Mmio"
  rsv6 :: "u32 Mmio"

end
