(* ===== verification/Syscall_Stubs.thy ===== *)
theory Syscall_Stubs
  imports Interrupts
begin

text \<open>
  The user side of a system call (\<^verbatim>\<open>arch/x86_64/interrupts/syscall/x86_64.rs\<close>): each stub loads its
  arguments into registers, executes \<^verbatim>\<open>int 0x80\<close> and returns \<^verbatim>\<open>rax\<close>. The instruction is a parameter
  of the stubs; \<open>int_instr\<close> is what the processor does with an interrupt table.
\<close>

section \<open>The stubs\<close>

record Regs =
  rax :: usize
  rbx :: usize
  rcx :: usize
  rdx :: usize
  rsi :: usize
  rdi :: usize

type_synonym 's instr = "Regs \<Rightarrow> 's \<Rightarrow> (Regs \<times> 's) res"

definition syscall0 :: "'s instr \<Rightarrow> usize \<Rightarrow> Regs \<Rightarrow> 's \<Rightarrow> (usize \<times> 's) res" where
  "syscall0 int80 a r s = rbind (int80 (r\<lparr>rax := a\<rparr>) s) (\<lambda>(r, s). Inr (rax r, s))"

definition syscall1 :: "'s instr \<Rightarrow> usize \<Rightarrow> usize \<Rightarrow> Regs \<Rightarrow> 's \<Rightarrow> (usize \<times> 's) res" where
  "syscall1 int80 a b r s = rbind (int80 (r\<lparr>rax := a, rbx := b\<rparr>) s) (\<lambda>(r, s). Inr (rax r, s))"

text \<open>The clobber list only tells the compiler which registers to save.\<close>

definition syscall1_clobber :: "'s instr \<Rightarrow> usize \<Rightarrow> usize \<Rightarrow> Regs \<Rightarrow> 's \<Rightarrow> (usize \<times> 's) res" where
  "syscall1_clobber int80 a b r s = rbind (int80 (r\<lparr>rax := a, rbx := b\<rparr>) s) (\<lambda>(r, s). Inr (rax r, s))"

definition syscall2 :: "'s instr \<Rightarrow> usize \<Rightarrow> usize \<Rightarrow> usize \<Rightarrow> Regs \<Rightarrow> 's \<Rightarrow> (usize \<times> 's) res" where
  "syscall2 int80 a b c r s = rbind (int80 (r\<lparr>rax := a, rbx := b, rcx := c\<rparr>) s) (\<lambda>(r, s). Inr (rax r, s))"

definition syscall3 :: "'s instr \<Rightarrow> usize \<Rightarrow> usize \<Rightarrow> usize \<Rightarrow> usize \<Rightarrow> Regs \<Rightarrow> 's \<Rightarrow> (usize \<times> 's) res" where
  "syscall3 int80 a b c d r s =
     rbind (int80 (r\<lparr>rax := a, rbx := b, rcx := c, rdx := d\<rparr>) s) (\<lambda>(r, s). Inr (rax r, s))"

definition syscall4 :: "'s instr \<Rightarrow> usize \<Rightarrow> usize \<Rightarrow> usize \<Rightarrow> usize \<Rightarrow> usize \<Rightarrow> Regs \<Rightarrow> 's \<Rightarrow> (usize \<times> 's) res" where
  "syscall4 int80 a b c d e r s =
     rbind (int80 (r\<lparr>rax := a, rbx := b, rcx := c, rdx := d, rsi := e\<rparr>) s) (\<lambda>(r, s). Inr (rax r, s))"

definition syscall5 ::
  "'s instr \<Rightarrow> usize \<Rightarrow> usize \<Rightarrow> usize \<Rightarrow> usize \<Rightarrow> usize \<Rightarrow> usize \<Rightarrow> Regs \<Rightarrow> 's \<Rightarrow> (usize \<times> 's) res" where
  "syscall5 int80 a b c d e f r s =
     rbind (int80 (r\<lparr>rax := a, rbx := b, rcx := c, rdx := d, rsi := e, rdi := f\<rparr>) s) (\<lambda>(r, s). Inr (rax r, s))"

section \<open>The instruction\<close>

text \<open>
  A gate that is not present raises the fault of vector 11. A handler of that fault that returns
  makes the processor execute the instruction again, with the same fault, for ever; without such
  a handler the machine stops.
\<close>

definition int_instr ::
  "(nat \<rightharpoonup> 'a handler) \<Rightarrow> nat \<Rightarrow> hw \<Rightarrow> fault \<Rightarrow> 'a io_scheme instr" where
  "int_instr table n hw f r s =
     (case table n of
        Some h \<Rightarrow> rbind (h hw f s) (\<lambda>(_, s). Inr (r, s))
      | None \<Rightarrow>
          (case table 11 of
             Some h \<Rightarrow> rbind (h hw f s) (\<lambda>_. Inl NoReturn)
           | None \<Rightarrow> Inl NoReturn))"

lemma idt_0x80: "idt tm 0x80 = None" "idt tm 11 = Some seg_not_present_handler"
  by (simp_all add: idt_def idt_entries_def upt_rec)

lemma int_0x80_stops: "int_instr (idt tm) 0x80 hw fl r s = Inl NoReturn"
  using exception_stops [OF idt_0x80(2), of hw fl s] by (simp add: int_instr_def idt_0x80)

section \<open>Properties\<close>

text \<open>
  No system call through the stubs returns: the interrupt table has no gate for vector \<open>0x80\<close>, the
  processor raises the fault of a missing gate instead, and its handler stops the machine.
\<close>

theorem syscall_stubs_never_return:
  "syscall0 (int_instr (idt tm) 0x80 hw fl) a r s = Inl NoReturn
   \<and> syscall1 (int_instr (idt tm) 0x80 hw fl) a b r s = Inl NoReturn
   \<and> syscall1_clobber (int_instr (idt tm) 0x80 hw fl) a b r s = Inl NoReturn
   \<and> syscall2 (int_instr (idt tm) 0x80 hw fl) a b c r s = Inl NoReturn
   \<and> syscall3 (int_instr (idt tm) 0x80 hw fl) a b c d r s = Inl NoReturn
   \<and> syscall4 (int_instr (idt tm) 0x80 hw fl) a b c d e r s = Inl NoReturn
   \<and> syscall5 (int_instr (idt tm) 0x80 hw fl) a b c d e f r s = Inl NoReturn"
  by (simp add: syscall0_def syscall1_def syscall1_clobber_def syscall2_def syscall3_def syscall4_def syscall5_def int_0x80_stops)

end
