(* ===== verification/Locks.thy ===== *)
theory Locks
  imports Boot
begin

text \<open>
  Locks and interrupts. The other theories run one operation at a time; here the operations are
  interleaved. An operation is the list of its actions that matter to others: the spin locks it takes
  and releases (\<^verbatim>\<open>spin::Mutex\<close>, \<^verbatim>\<open>spin::RwLock\<close>, \<^verbatim>\<open>spin::Once\<close>, in the order in which the guards are made and
  dropped), the instructions that reach the devices or the interrupt flag, and the switch to another
  process. The one processor the kernel starts runs a list action by action. Between two actions, when
  interrupts are on and the source of the interrupt is not masked, a handler may start, which the
  processor enters with interrupts off and leaves with the flag restored. A lock that is held is spun on.

  How often the standard library calls the heap allocator is not fixed here: such a place has a
  parameter, the number of these calls.
\<close>

section \<open>Actions\<close>

datatype lock = SERIAL | PIC_LOCK | APIC | HEAP | TASK_TABLE | READY_LIST | SCHEDULER_ONCE | PROCESS ProcessId

text \<open>The two interrupt controllers, and the masks they hold.\<close>

datatype chip = Master | Slave

type_synonym masks = "u8 \<times> u8"

abbreviation all_masked :: masks where "all_masked \<equiv> (0xff, 0xff)"

text \<open>
  \<open>SaveMask\<close> reads the mask of a controller into the caller's \<^verbatim>\<open>saved_masks\<close>, \<open>RestoreMask\<close> writes it back from
  there; \<open>Event\<close> is an instruction whose data do not depend on the state, \<open>Work\<close> what concerns nobody else.
\<close>

datatype act =
    Lock lock
  | Unlock lock
  | Read lock
  | Unread lock
  | Event io_event
  | SaveMask chip
  | RestoreMask chip
  | Work
  | Switch

text \<open>\<^verbatim>\<open>print!\<close>: the port is locked while the bytes are sent; \<open>es\<close> is what that does to the port.\<close>

definition print_acts :: "io_event list \<Rightarrow> act list" where
  "print_acts es = Lock SERIAL # map Event es @ [Unlock SERIAL]"

definition pic_access :: "act \<Rightarrow> act list" where
  "pic_access a = [Lock PIC_LOCK, a, Unlock PIC_LOCK]"

definition disable_acts :: "act list" where
  "disable_acts =
     Event Cli # pic_access (SaveMask Master) @ pic_access (SaveMask Slave)
       @ pic_access (Event (Out8 0x21 0xff)) @ pic_access (Event (Out8 0xA1 0xff))"

definition restore_acts :: "act list" where
  "restore_acts =
     Event Cli # pic_access (RestoreMask Master) @ pic_access (RestoreMask Slave) @ [Event Sti]"

definition masked_acts :: "act list \<Rightarrow> act list" where
  "masked_acts f = disable_acts @ f @ restore_acts"

text \<open>\<^verbatim>\<open>alloc\<close> and \<^verbatim>\<open>dealloc\<close> of the heap allocator, which lock alike.\<close>

definition heap_acts :: "act list" where
  "heap_acts = masked_acts [Lock HEAP, Work, Unlock HEAP]"

definition heap_calls :: "nat \<Rightarrow> act list" where
  "heap_calls n = concat (replicate n heap_acts)"

definition eoi_acts :: "act list" where
  "eoi_acts = [Lock APIC, Work, Unlock APIC]"

text \<open>
  The scheduler. Its static is made by its first use, which others spin on (\<^verbatim>\<open>lazy_static!\<close>): \<open>None\<close> for a later
  use, \<open>Some n\<close> for the first, with the heap calls of \<^verbatim>\<open>CoopScheduler::new\<close>. \<open>grow\<close> are the heap calls of a
  \<^verbatim>\<open>push_back\<close> onto the ready list, none when it has room; the counts of \<open>create_acts\<close> are those of the stack, the
  box and the initial values, of \<^verbatim>\<open>add\<close>, of dropping the name the process was made with, and of dropping
  the initial values. A list is that of a run that does not panic.
\<close>

fun deref_acts :: "nat option \<Rightarrow> act list" where
  "deref_acts None = []"
| "deref_acts (Some n) = Lock SCHEDULER_ONCE # heap_calls n @ [Unlock SCHEDULER_ONCE]"

definition push_back_list :: "CoopScheduler \<Rightarrow> ProcessId list" where
  "push_back_list self =
     (case proc_get (task_table self) (get_id self) of
        Some prev \<Rightarrow> if state prev = Current then ready_list self @ [get_id self] else ready_list self
      | None \<Rightarrow> [])"

definition next_process :: "CoopScheduler \<Rightarrow> ProcessId option" where
  "next_process self =
     (case push_back_list self of [] \<Rightarrow> None | nid # _ \<Rightarrow> if nid \<noteq> get_id self then Some nid else None)"

definition resched_acts :: "nat \<Rightarrow> CoopScheduler \<Rightarrow> act list" where
  "resched_acts grow self =
     [Read READY_LIST, Work, Unread READY_LIST]
     @ (if ready_list self = [] then []
        else
          [Read TASK_TABLE, Lock READY_LIST, Lock (PROCESS (get_id self))]
          @ (if push_back_list self = ready_list self then [] else heap_calls grow)
          @ (case next_process self of
               Some nid \<Rightarrow> [Lock (PROCESS nid), Work, Unlock (PROCESS nid)]
             | None \<Rightarrow> [])
          @ [Unlock (PROCESS (get_id self)), Unlock READY_LIST, Unread TASK_TABLE]
          @ (if next_process self = None then [] else [Switch]))"

definition ready_acts :: "nat \<Rightarrow> act list" where
  "ready_acts grow = Lock READY_LIST # heap_calls grow @ [Unlock READY_LIST]"

record create_calls =
  stack_calls :: nat
  add_calls :: nat
  name_calls :: nat
  drop_calls :: nat

definition create_acts :: "16 word + ProcessId \<Rightarrow> create_calls \<Rightarrow> act list" where
  "create_acts r calls =
     heap_calls (stack_calls calls) @ [Lock TASK_TABLE] @ heap_calls (add_calls calls)
     @ (case r of
          Inl e \<Rightarrow> []
        | Inr i \<Rightarrow> [Lock (PROCESS i)] @ heap_calls (name_calls calls) @ [Unlock (PROCESS i)])
     @ [Unlock TASK_TABLE] @ heap_calls (drop_calls calls)"

definition kill_acts :: "ProcessId \<Rightarrow> nat \<Rightarrow> nat \<Rightarrow> CoopScheduler \<Rightarrow> act list" where
  "kill_acts i free grow self =
     [Read TASK_TABLE]
     @ (case proc_get (task_table self) i of
          None \<Rightarrow> []
        | Some p \<Rightarrow>
            [Lock (PROCESS i)] @ heap_calls free @ [Unlock (PROCESS i), Unread TASK_TABLE]
            @ resched_acts grow (put_proc i ((set_state Free p)\<lparr>stack := None\<rparr>) self))"

definition sys_create_acts :: "nat option \<Rightarrow> ProcessId \<Rightarrow> create_calls \<Rightarrow> nat \<Rightarrow> act list" where
  "sys_create_acts first i calls grow =
     masked_acts (deref_acts first @ create_acts (Inr i) calls @ ready_acts grow)"

text \<open>The handlers of maskable interrupts.\<close>

definition timer_acts :: "io_event list \<Rightarrow> nat option \<Rightarrow> nat \<Rightarrow> kernel \<Rightarrow> act list" where
  "timer_acts es first grow k =
     print_acts es @ eoi_acts @ [Work]
     @ (if PIT_TICKS k \<ge> 10 then masked_acts (deref_acts first @ resched_acts grow (SCHEDULER k)) else [])"

definition spurious_acts :: "io_event list \<Rightarrow> act list" where
  "spurious_acts es = print_acts es"

text \<open>The end of \<^verbatim>\<open>arch::init\<close>.\<close>

definition init_end_acts :: "io_event list \<Rightarrow> act list" where
  "init_end_acts es = Event Sti # print_acts es"

text \<open>
  The report of a panic, and a message whose arguments panic: \<^verbatim>\<open>write!\<close> evaluates its writer, which locks the
  port, before the arguments of the text.
\<close>

definition panic_acts :: "io_event list \<Rightarrow> io_event list \<Rightarrow> act list" where
  "panic_acts es es' = print_acts es @ print_acts es'"

definition panic_in_print_acts :: "io_event list \<Rightarrow> io_event list \<Rightarrow> act list" where
  "panic_in_print_acts es es' = Lock SERIAL # panic_acts es es'"

section \<open>The machine\<close>

text \<open>Locks held: for writing, and by each reader.\<close>

type_synonym locks = "lock list \<times> lock list"

abbreviation no_locks :: locks where "no_locks \<equiv> ([], [])"

fun available :: "act \<Rightarrow> locks \<Rightarrow> bool" where
  "available (Lock l) (w, r) \<longleftrightarrow> l \<notin> set w \<and> l \<notin> set r"
| "available (Read l) (w, r) \<longleftrightarrow> l \<notin> set w"
| "available a L \<longleftrightarrow> True"

text \<open>
  What the actions of the running thread work on: the interrupt flag, the masks of the controllers
  (\<open>imr\<close>), the masks its calls of \<^verbatim>\<open>disable_interrupts\<close> have saved, the innermost first, and the locks.
\<close>

record core =
  flag :: bool
  imr :: masks
  saved :: "masks list"
  held :: locks

fun perform_event :: "io_event \<Rightarrow> core \<Rightarrow> core" where
  "perform_event Cli c = c\<lparr>flag := False\<rparr>"
| "perform_event Sti c = c\<lparr>flag := True\<rparr>"
| "perform_event (Out8 p v) c =
     (if p = 0x21 then c\<lparr>imr := (v, snd (imr c))\<rparr>
      else if p = 0xA1 then c\<lparr>imr := (fst (imr c), v)\<rparr> else c)"
| "perform_event e c = c"

fun perform :: "act \<Rightarrow> core \<Rightarrow> core" where
  "perform (Lock l) c = c\<lparr>held := (l # fst (held c), snd (held c))\<rparr>"
| "perform (Unlock l) c = c\<lparr>held := (remove1 l (fst (held c)), snd (held c))\<rparr>"
| "perform (Read l) c = c\<lparr>held := (fst (held c), l # snd (held c))\<rparr>"
| "perform (Unread l) c = c\<lparr>held := (fst (held c), remove1 l (snd (held c)))\<rparr>"
| "perform (Event e) c = perform_event e c"
| "perform (SaveMask Master) c = c\<lparr>saved := (fst (imr c), 0) # saved c\<rparr>"
| "perform (SaveMask Slave) c = c\<lparr>saved := (fst (hd (saved c)), snd (imr c)) # tl (saved c)\<rparr>"
| "perform (RestoreMask Master) c = c\<lparr>imr := (fst (hd (saved c)), snd (imr c))\<rparr>"
| "perform (RestoreMask Slave) c = c\<lparr>imr := (fst (imr c), snd (hd (saved c))), saved := tl (saved c)\<rparr>"
| "perform Work c = c"
| "perform Switch c = c"

text \<open>
  The source of an interrupt: a line of the 8259 pair, the slave behind line 2 of the master, or the APIC, which
  the masks do not stop.
\<close>

datatype irq = Legacy nat | Local

fun unmasked :: "irq \<Rightarrow> masks \<Rightarrow> bool" where
  "unmasked (Legacy n) m \<longleftrightarrow>
     (if n < 8 then \<not> bit (fst m) n else \<not> bit (fst m) 2 \<and> \<not> bit (snd m) (n - 8))"
| "unmasked Local m \<longleftrightarrow> True"

text \<open>
  A thread that does not run: what it still has to do, the lists that handlers interrupted, its flag
  and saved masks. A handler interrupts only when the flag is on, so that is the flag it returns to.
\<close>

record thread =
  rest :: "act list"
  below :: "act list list"
  thread_flag :: bool
  thread_saved :: "masks list"

record processor =
  todo :: "act list"
  interrupted :: "act list list"
  core :: core
  parked :: "thread list"

abbreviation park :: "act list \<Rightarrow> act list list \<Rightarrow> core \<Rightarrow> thread" where
  "park as fs c \<equiv> \<lparr>rest = as, below = fs, thread_flag = flag c, thread_saved = saved c\<rparr>"

abbreviation resume :: "thread \<Rightarrow> core \<Rightarrow> core" where
  "resume u c \<equiv> c\<lparr>flag := thread_flag u, saved := thread_saved u\<rparr>"

inductive run_step :: "(irq \<times> act list) set \<Rightarrow> processor \<Rightarrow> processor \<Rightarrow> bool" for handlers where
  act: "a \<noteq> Switch \<Longrightarrow> available a (held c) \<Longrightarrow>
     run_step handlers \<lparr>todo = a # as, interrupted = fs, core = c, parked = ts\<rparr>
       \<lparr>todo = as, interrupted = fs, core = perform a c, parked = ts\<rparr>"
| spin: "\<not> available a (held c) \<Longrightarrow>
     run_step handlers \<lparr>todo = a # as, interrupted = fs, core = c, parked = ts\<rparr>
       \<lparr>todo = a # as, interrupted = fs, core = c, parked = ts\<rparr>"
| switch: "run_step handlers \<lparr>todo = Switch # as, interrupted = fs, core = c, parked = ts @ u # us\<rparr>
       \<lparr>todo = rest u, interrupted = below u, core = resume u c, parked = park as fs c # ts @ us\<rparr>"
| alone: "run_step handlers \<lparr>todo = Switch # as, interrupted = fs, core = c, parked = []\<rparr>
       \<lparr>todo = as, interrupted = fs, core = c, parked = []\<rparr>"
| interrupt: "flag c \<Longrightarrow> (src, h) \<in> handlers \<Longrightarrow> unmasked src (imr c) \<Longrightarrow>
     run_step handlers \<lparr>todo = as, interrupted = fs, core = c, parked = ts\<rparr>
       \<lparr>todo = h, interrupted = as # fs, core = c\<lparr>flag := False\<rparr>, parked = ts\<rparr>"
| return: "run_step handlers \<lparr>todo = [], interrupted = as # fs, core = c, parked = ts\<rparr>
       \<lparr>todo = as, interrupted = fs, core = c\<lparr>flag := True\<rparr>, parked = ts\<rparr>"

inductive_cases run_stepE: "run_step handlers s s'"

abbreviation run_steps :: "(irq \<times> act list) set \<Rightarrow> processor \<Rightarrow> processor \<Rightarrow> bool" where
  "run_steps handlers \<equiv> (run_step handlers)\<^sup>*\<^sup>*"

definition spinning :: "processor \<Rightarrow> bool" where
  "spinning s \<longleftrightarrow> (\<exists>a as. todo s = a # as \<and> \<not> available a (held (core s)))"

text \<open>Spinning for ever: whatever happens, nothing changes.\<close>

definition deadlocked :: "(irq \<times> act list) set \<Rightarrow> processor \<Rightarrow> bool" where
  "deadlocked handlers s \<longleftrightarrow> spinning s \<and> (\<forall>s'. run_step handlers s s' \<longrightarrow> s' = s)"

text \<open>At its end, with no handler to return from.\<close>

definition finished :: "processor \<Rightarrow> bool" where
  "finished s \<longleftrightarrow> todo s = [] \<and> interrupted s = []"

definition core_at :: "bool \<Rightarrow> masks \<Rightarrow> core" where
  "core_at b m = \<lparr>flag = b, imr = m, saved = [], held = no_locks\<rparr>"

definition start :: "bool \<Rightarrow> masks \<Rightarrow> act list \<Rightarrow> processor" where
  "start b m as = \<lparr>todo = as, interrupted = [], core = core_at b m, parked = []\<rparr>"

section \<open>Discipline\<close>

text \<open>
  Code is disciplined when, run alone, it holds no lock while an interrupt may come, takes no lock it
  has, restores no masks it has not saved, and switches with no lock held and every line masked. \<open>quiet m\<close> says of the
  masks \<open>m\<close> that they stop every interrupt. \<open>check\<close> runs code so and gives where it ends; \<open>None\<close> is a breach.
\<close>

definition exposed :: "(masks \<Rightarrow> bool) \<Rightarrow> core \<Rightarrow> bool" where
  "exposed quiet c \<longleftrightarrow> flag c \<and> \<not> quiet (imr c)"

definition allowed :: "(masks \<Rightarrow> bool) \<Rightarrow> act \<Rightarrow> core \<Rightarrow> bool" where
  "allowed quiet a c \<longleftrightarrow>
     (exposed quiet c \<or> a = Switch \<longrightarrow> held c = no_locks) \<and> available a (held c)
     \<and> (a = Switch \<longrightarrow> imr c = all_masked)
     \<and> (a = SaveMask Slave \<or> a = RestoreMask Master \<or> a = RestoreMask Slave \<longrightarrow> saved c \<noteq> [])"

fun check :: "(masks \<Rightarrow> bool) \<Rightarrow> core \<Rightarrow> act list \<Rightarrow> core option" where
  "check quiet c [] = Some c"
| "check quiet c (a # as) = (if allowed quiet a c then check quiet (perform a c) as else None)"

lemma check_append: "check quiet c (as @ as') = Option.bind (check quiet c as) (\<lambda>c. check quiet c as')"
  by (induction as arbitrary: c) auto

lemma check_appendI: "check quiet c as = Some c' \<Longrightarrow> check quiet c (as @ as') = check quiet c' as'"
  by (simp add: check_append)

lemma serial_only_Cons: "serial_only p (e # es) \<longleftrightarrow> (\<exists>v. e = In8 (p + 5) v \<or> e = Out8 p v) \<and> serial_only p es"
  by (auto simp: serial_only_def)

lemma check_serial:
  assumes "serial_only 0x3f8 es" and "\<not> exposed quiet c"
  shows "check quiet c (map Event es) = Some c"
  using assms by (induction es) (auto simp: serial_only_Cons allowed_def)

lemmas acts_defs = masked_acts_def disable_acts_def restore_acts_def pic_access_def heap_acts_def

text \<open>A masked section whose closure is checked with interrupts off and every line masked.\<close>

lemma check_disable:
  assumes "exposed quiet c \<longrightarrow> held c = no_locks" and "PIC_LOCK \<notin> set (fst (held c)) \<union> set (snd (held c))"
  shows "check quiet c disable_acts = Some (c\<lparr>flag := False, imr := all_masked, saved := imr c # saved c\<rparr>)"
  using assms by (cases c, cases "held c") (auto simp: acts_defs allowed_def exposed_def)

lemma check_restore:
  assumes "exposed quiet c \<longrightarrow> held c = no_locks" and "PIC_LOCK \<notin> set (fst (held c)) \<union> set (snd (held c))" and "saved c \<noteq> []"
  shows "check quiet c restore_acts = Some (c\<lparr>flag := True, imr := hd (saved c), saved := tl (saved c)\<rparr>)"
  using assms by (cases c, cases "held c") (auto simp: acts_defs allowed_def exposed_def)

lemma check_masked:
  assumes "exposed quiet c \<longrightarrow> held c = no_locks" and "PIC_LOCK \<notin> set (fst (held c)) \<union> set (snd (held c))"
    and "check quiet (c\<lparr>flag := False, imr := all_masked, saved := imr c # saved c\<rparr>) f
      = Some (c\<lparr>flag := b, imr := all_masked, saved := imr c # saved c\<rparr>)"
    and "b \<and> \<not> quiet all_masked \<longrightarrow> held c = no_locks"
  shows "check quiet c (masked_acts f) = Some (c\<lparr>flag := True\<rparr>)"
proof -
  have "check quiet (c\<lparr>flag := b, imr := all_masked, saved := imr c # saved c\<rparr>) restore_acts = Some (c\<lparr>flag := True\<rparr>)"
    using check_restore [of quiet "c\<lparr>flag := b, imr := all_masked, saved := imr c # saved c\<rparr>"] assms(2,4)
    by (simp add: exposed_def)
  then show ?thesis
    using check_disable [OF assms(1,2)] assms(3) by (simp add: masked_acts_def check_append)
qed

text \<open>Heap calls, from where no interrupt may come or no lock is held.\<close>

definition heap_free :: "locks \<Rightarrow> bool" where
  "heap_free L \<longleftrightarrow> {PIC_LOCK, HEAP} \<inter> (set (fst L) \<union> set (snd L)) = {}"

lemma check_heap:
  assumes "exposed quiet c \<longrightarrow> held c = no_locks" and "heap_free (held c)"
  shows "check quiet c heap_acts = Some (c\<lparr>flag := True\<rparr>)"
  unfolding heap_acts_def
proof (rule check_masked)
  show "check quiet (c\<lparr>flag := False, imr := all_masked, saved := imr c # saved c\<rparr>) [Lock HEAP, Work, Unlock HEAP]
      = Some (c\<lparr>flag := False, imr := all_masked, saved := imr c # saved c\<rparr>)"
    using assms(2) by (cases c, cases "held c") (auto simp: allowed_def exposed_def heap_free_def)
qed (use assms in \<open>auto simp: heap_free_def\<close>)

lemma check_heap_calls:
  assumes "held c = no_locks \<or> quiet (imr c)" and "heap_free (held c)"
  shows "check quiet c (heap_calls n) = Some (c\<lparr>flag := flag c \<or> 0 < n\<rparr>)"
  using assms
proof (induction n arbitrary: c)
  case (Suc n)
  have "check quiet c heap_acts = Some (c\<lparr>flag := True\<rparr>)" using Suc.prems by (intro check_heap) (auto simp: exposed_def)
  with Suc.IH [of "c\<lparr>flag := True\<rparr>"] Suc.prems show ?case by (simp add: heap_calls_def check_append)
qed (simp add: heap_calls_def)

text \<open>
  A stretch of code that no interrupt may reach, that leaves everything but the flag as it was, and
  that ends where again no interrupt may come. Such stretches are put together by sequence and by brackets of a lock.
\<close>

definition keeps :: "(masks \<Rightarrow> bool) \<Rightarrow> core \<Rightarrow> act list \<Rightarrow> bool" where
  "keeps quiet c as \<longleftrightarrow> \<not> exposed quiet c
     \<and> (\<exists>b. check quiet c as = Some (c\<lparr>flag := b\<rparr>) \<and> \<not> exposed quiet (c\<lparr>flag := b\<rparr>))"

definition unheld :: "lock \<Rightarrow> core \<Rightarrow> bool" where
  "unheld l c \<longleftrightarrow> l \<notin> set (fst (held c)) \<and> l \<notin> set (snd (held c))"

lemma keeps_Nil: "keeps quiet c [] \<longleftrightarrow> \<not> exposed quiet c"
  by (auto simp: keeps_def intro: exI [of _ "flag c"])

lemma keeps_append:
  assumes "keeps quiet c as" and "\<And>b. \<not> exposed quiet (c\<lparr>flag := b\<rparr>) \<Longrightarrow> keeps quiet (c\<lparr>flag := b\<rparr>) as'"
  shows "keeps quiet c (as @ as')"
  using assms by (fastforce simp: keeps_def check_append)

lemma keeps_Work: "keeps quiet c as \<Longrightarrow> keeps quiet c (Work # as)"
  by (auto simp: keeps_def allowed_def)

lemma exposed_held [simp]: "exposed quiet (c\<lparr>held := L\<rparr>) = exposed quiet c"
  by (simp add: exposed_def)

lemma keeps_Lock:
  assumes "unheld l c" and "keeps quiet (c\<lparr>held := (l # fst (held c), snd (held c))\<rparr>) as"
  shows "keeps quiet c (Lock l # as @ [Unlock l])"
proof -
  obtain w r where L: "held c = (w, r)" by (cases "held c")
  from assms(2) obtain b where b: "\<not> exposed quiet c" "check quiet (c\<lparr>held := (l # w, r)\<rparr>) as = Some (c\<lparr>held := (l # w, r), flag := b\<rparr>)"
    "\<not> exposed quiet (c\<lparr>flag := b\<rparr>)" by (auto simp: keeps_def L exposed_def)
  have "c\<lparr>flag := b, held := (w, r)\<rparr> = c\<lparr>flag := b\<rparr>" using L by (cases c) simp
  with b assms(1) show ?thesis unfolding keeps_def
    by (intro conjI exI [of _ b]) (simp_all add: check_append allowed_def L unheld_def, simp_all add: exposed_def)
qed

lemma keeps_Read:
  assumes "unheld l c" and "keeps quiet (c\<lparr>held := (fst (held c), l # snd (held c))\<rparr>) as"
  shows "keeps quiet c (Read l # as @ [Unread l])"
proof -
  obtain w r where L: "held c = (w, r)" by (cases "held c")
  from assms(2) obtain b where b: "\<not> exposed quiet c" "check quiet (c\<lparr>held := (w, l # r)\<rparr>) as = Some (c\<lparr>held := (w, l # r), flag := b\<rparr>)"
    "\<not> exposed quiet (c\<lparr>flag := b\<rparr>)" by (auto simp: keeps_def L exposed_def)
  have "c\<lparr>flag := b, held := (w, r)\<rparr> = c\<lparr>flag := b\<rparr>" using L by (cases c) simp
  with b assms(1) show ?thesis unfolding keeps_def
    by (intro conjI exI [of _ b]) (simp_all add: check_append allowed_def L unheld_def, simp_all add: exposed_def)
qed

lemma keeps_Switch: "\<not> exposed quiet c \<Longrightarrow> held c = no_locks \<Longrightarrow> imr c = all_masked \<Longrightarrow> keeps quiet c [Switch]"
  by (auto simp: keeps_def allowed_def exposed_def intro: exI [of _ "flag c"])

lemma keeps_serial: "serial_only 0x3f8 es \<Longrightarrow> \<not> exposed quiet c \<Longrightarrow> keeps quiet c (map Event es)"
  using check_serial [of es quiet c] by (auto simp: keeps_def intro: exI [of _ "flag c"])

text \<open>Inside a masked section heap calls are allowed only when the masks alone stop every interrupt.\<close>

lemma keeps_heap_calls:
  assumes "\<not> exposed quiet c" and "imr c = all_masked" and "heap_free (held c)" and "n = 0 \<or> quiet all_masked"
  shows "keeps quiet c (heap_calls n)"
proof (cases "n = 0")
  case True
  with assms(1) show ?thesis by (simp add: heap_calls_def keeps_Nil)
next
  case False
  with assms(2-4) have "check quiet c (heap_calls n) = Some (c\<lparr>flag := flag c \<or> 0 < n\<rparr>)" by (intro check_heap_calls) auto
  with False assms show ?thesis by (auto simp: keeps_def exposed_def)
qed

lemma keeps_print: "serial_only 0x3f8 es \<Longrightarrow> \<not> exposed quiet c \<Longrightarrow> unheld SERIAL c \<Longrightarrow> keeps quiet c (print_acts es)"
  unfolding print_acts_def by (intro keeps_Lock keeps_serial) simp_all

lemma unheld_simps [simp]:
  "unheld l (c\<lparr>flag := b\<rparr>) = unheld l c" "unheld l (c\<lparr>held := (w, r)\<rparr>) \<longleftrightarrow> l \<notin> set w \<and> l \<notin> set r"
  by (simp_all add: unheld_def)

lemma heap_free_unheld: "heap_free (held c) \<longleftrightarrow> unheld PIC_LOCK c \<and> unheld HEAP c"
  by (auto simp: heap_free_def unheld_def)

text \<open>A section that is entered with interrupts off and every line masked, with no lock.\<close>

definition sheltered :: "(masks \<Rightarrow> bool) \<Rightarrow> core \<Rightarrow> bool" where
  "sheltered quiet c \<longleftrightarrow> \<not> exposed quiet c \<and> imr c = all_masked \<and> held c = no_locks"

lemma sheltered_flag: "sheltered quiet c \<Longrightarrow> \<not> exposed quiet (c\<lparr>flag := b\<rparr>) \<Longrightarrow> sheltered quiet (c\<lparr>flag := b\<rparr>)"
  by (simp add: sheltered_def)

lemma keeps_seq:
  assumes "sheltered quiet c" and "\<And>c. sheltered quiet c \<Longrightarrow> keeps quiet c as" and "\<And>c. sheltered quiet c \<Longrightarrow> keeps quiet c as'"
  shows "keeps quiet c (as @ as')"
  using assms by (blast intro: keeps_append sheltered_flag)

lemma keeps_ready:
  assumes "sheltered quiet c" and "n = 0 \<or> quiet all_masked"
  shows "keeps quiet c (ready_acts n)"
  unfolding ready_acts_def
  using assms by (intro keeps_Lock keeps_heap_calls) (auto simp: sheltered_def unheld_def heap_free_def)

lemma keeps_deref:
  assumes "sheltered quiet c" and "first \<noteq> None \<longrightarrow> quiet all_masked"
  shows "keeps quiet c (deref_acts first)"
proof (cases first)
  case None
  with assms(1) show ?thesis by (simp add: keeps_Nil sheltered_def)
next
  case (Some n)
  show ?thesis unfolding Some deref_acts.simps
    using assms Some by (intro keeps_Lock keeps_heap_calls) (auto simp: sheltered_def unheld_def heap_free_def)
qed

lemma keeps_create:
  assumes "sheltered quiet c" and "quiet all_masked"
  shows "keeps quiet c (create_acts r calls)"
proof -
  have h: "keeps quiet c (heap_calls n)" if "imr c = all_masked" "heap_free (held c)" "\<not> exposed quiet c" for c n
    using that assms(2) by (intro keeps_heap_calls) auto
  have s: "keeps quiet c (heap_calls n)" if "sheltered quiet c" for c n
    using that by (intro h) (auto simp: sheltered_def heap_free_def)
  have p: "keeps quiet c (case r of Inl e \<Rightarrow> [] | Inr i \<Rightarrow> Lock (PROCESS i) # heap_calls (name_calls calls) @ [Unlock (PROCESS i)])"
    if "imr c = all_masked" "\<not> exposed quiet c" "held c = ([TASK_TABLE], [])" for c
    using that by (cases r) (auto simp: keeps_Nil unheld_def heap_free_def intro!: keeps_Lock h)
  have t: "keeps quiet c (Lock TASK_TABLE # (heap_calls (add_calls calls)
      @ (case r of Inl e \<Rightarrow> [] | Inr i \<Rightarrow> Lock (PROCESS i) # heap_calls (name_calls calls) @ [Unlock (PROCESS i)])) @ [Unlock TASK_TABLE])"
    if "sheltered quiet c" for c
    using that by (intro keeps_Lock keeps_append h p) (auto simp: sheltered_def unheld_def heap_free_def exposed_def)
  have "keeps quiet c (heap_calls (stack_calls calls) @ (Lock TASK_TABLE # (heap_calls (add_calls calls)
      @ (case r of Inl e \<Rightarrow> [] | Inr i \<Rightarrow> Lock (PROCESS i) # heap_calls (name_calls calls) @ [Unlock (PROCESS i)])) @ [Unlock TASK_TABLE])
      @ heap_calls (drop_calls calls))"
    by (rule keeps_seq [OF assms(1) s keeps_seq [OF _ t s]])
  then show ?thesis by (cases r) (simp_all add: create_acts_def)
qed

lemma keeps_resched:
  assumes "sheltered quiet c" and "n = 0 \<or> quiet all_masked"
  shows "keeps quiet c (resched_acts n sch)"
proof -
  let ?p = "PROCESS (get_id sch)"
  let ?next = "case next_process sch of Some nid \<Rightarrow> Lock (PROCESS nid) # [Work] @ [Unlock (PROCESS nid)] | None \<Rightarrow> []"
  let ?push = "if push_back_list sch = ready_list sch then [] else heap_calls n"
  have ne: "nid \<noteq> get_id sch" if "next_process sch = Some nid" for nid
    using that by (auto simp: next_process_def split: list.splits if_splits)
  have look: "keeps quiet c (Read READY_LIST # [Work] @ [Unread READY_LIST])" if "sheltered quiet c" for c
    using that by (intro keeps_Read keeps_Work) (auto simp: sheltered_def unheld_def keeps_Nil)
  have inner: "keeps quiet c (?push @ ?next)" if "imr c = all_masked" "\<not> exposed quiet c" "held c = ([?p, READY_LIST], [TASK_TABLE])" for c
  proof (rule keeps_append)
    show "keeps quiet c ?push"
      using that assms(2) by (auto simp: keeps_Nil heap_free_def intro!: keeps_heap_calls)
    show "keeps quiet (c\<lparr>flag := b\<rparr>) ?next" if "\<not> exposed quiet (c\<lparr>flag := b\<rparr>)" for b
      using that ne \<open>held c = _\<close>
      by (cases "next_process sch") (auto simp: keeps_Nil unheld_def intro!: keeps_Lock [where as = "[Work]", simplified] keeps_Work)
  qed
  have switch: "keeps quiet c (if next_process sch = None then [] else [Switch])" if "sheltered quiet c" for c
    using that by (auto simp: keeps_Nil sheltered_def intro: keeps_Switch)
  have "keeps quiet c (Read TASK_TABLE # (Lock READY_LIST # (Lock ?p # (?push @ ?next) @ [Unlock ?p]) @ [Unlock READY_LIST]) @ [Unread TASK_TABLE])"
    if "sheltered quiet c" for c
    using that by (intro keeps_Read keeps_Lock inner) (auto simp: sheltered_def unheld_def)
  then have body: "keeps quiet c ((Read TASK_TABLE # (Lock READY_LIST # (Lock ?p # (?push @ ?next) @ [Unlock ?p]) @ [Unlock READY_LIST]) @ [Unread TASK_TABLE])
      @ (if next_process sch = None then [] else [Switch]))" if "sheltered quiet c" for c
    using keeps_seq [OF that _ switch] by blast
  show ?thesis
  proof (cases "ready_list sch = []")
    case True
    with look [OF assms(1)] show ?thesis by (simp add: resched_acts_def)
  next
    case False
    with keeps_seq [OF assms(1) look body] show ?thesis
      by (cases "next_process sch") (simp_all add: resched_acts_def)
  qed
qed

section \<open>Checked code never spins\<close>

text \<open>
  The thread invariant: what is left to do is checked from where the processor is, and then each
  interrupted list from where its handler leaves off, with interrupts on again.
\<close>

fun checked_frames :: "(masks \<Rightarrow> bool) \<Rightarrow> core \<Rightarrow> act list list \<Rightarrow> bool" where
  "checked_frames quiet c [] \<longleftrightarrow> held c = no_locks"
| "checked_frames quiet c (as # fs) \<longleftrightarrow> held c = no_locks
     \<and> (\<exists>c'. check quiet (c\<lparr>flag := True\<rparr>) as = Some c' \<and> checked_frames quiet c' fs)"

definition checked_thread :: "(masks \<Rightarrow> bool) \<Rightarrow> core \<Rightarrow> act list \<Rightarrow> act list list \<Rightarrow> bool" where
  "checked_thread quiet c as fs \<longleftrightarrow> (\<exists>c'. check quiet c as = Some c' \<and> checked_frames quiet c' fs)"

text \<open>A parked thread is switched to with every line masked.\<close>

definition parked_core :: "thread \<Rightarrow> core" where
  "parked_core t = \<lparr>flag = thread_flag t, imr = all_masked, saved = thread_saved t, held = no_locks\<rparr>"

definition checked_processor :: "(masks \<Rightarrow> bool) \<Rightarrow> processor \<Rightarrow> bool" where
  "checked_processor quiet s \<longleftrightarrow> checked_thread quiet (core s) (todo s) (interrupted s)
     \<and> (\<forall>t \<in> set (parked s). checked_thread quiet (parked_core t) (rest t) (below t))"

text \<open>What is left to do, in all threads.\<close>

definition frames_left :: "act list \<Rightarrow> act list list \<Rightarrow> nat" where
  "frames_left as fs = length as + sum_list (map (\<lambda>as. Suc (length as)) fs)"

definition work_left :: "processor \<Rightarrow> nat" where
  "work_left s = frames_left (todo s) (interrupted s) + sum_list (map (\<lambda>t. frames_left (rest t) (below t)) (parked s))"

lemma checked_frames_held: "checked_frames quiet c fs \<Longrightarrow> held c = no_locks"
  by (cases fs) auto

lemma checked_exposed:
  assumes "checked_thread quiet c as fs" and "exposed quiet c"
  shows "held c = no_locks"
proof (cases as)
  case Nil
  with assms(1) show ?thesis by (auto simp: checked_thread_def dest: checked_frames_held)
next
  case (Cons a as)
  with assms show ?thesis by (auto simp: checked_thread_def allowed_def split: if_splits)
qed

lemma core_flag_True: "flag c \<Longrightarrow> c\<lparr>flag := True\<rparr> = c"
  by (cases c) simp

locale checked_handlers =
  fixes handlers :: "(irq \<times> act list) set" and quiet :: "masks \<Rightarrow> bool"
  assumes masked: "(src, h) \<in> handlers \<Longrightarrow> quiet m \<Longrightarrow> \<not> unmasked src m"
    and handler: "(src, h) \<in> handlers \<Longrightarrow> held c = no_locks \<Longrightarrow> \<not> flag c \<Longrightarrow> \<exists>b. check quiet c h = Some (c\<lparr>flag := b\<rparr>)"
begin

lemma step_checked:
  assumes "run_step handlers s s'" and "checked_processor quiet s"
  shows "checked_processor quiet s'"
  using assms
proof (induction rule: run_step.induct)
  case (switch as fs c ts u us)
  then have c: "allowed quiet Switch c" "checked_thread quiet c as fs"
    by (auto simp: checked_processor_def checked_thread_def split: if_splits)
  then have "parked_core (park as fs c) = c" "resume u c = parked_core u"
    by (cases c, auto simp: allowed_def parked_core_def)+
  with switch c show ?case by (auto simp: checked_processor_def)
next
  case (interrupt c src h as fs ts)
  have "exposed quiet c" using interrupt masked [OF interrupt.hyps(2), of "imr c"] by (auto simp: exposed_def)
  then have held: "held c = no_locks" using interrupt by (auto simp: checked_processor_def dest: checked_exposed)
  obtain b where "check quiet (c\<lparr>flag := False\<rparr>) h = Some (c\<lparr>flag := b\<rparr>)"
    using handler [OF interrupt.hyps(2), of "c\<lparr>flag := False\<rparr>"] held by auto
  with interrupt held show ?case
    by (auto simp: checked_processor_def checked_thread_def core_flag_True)
qed (auto simp: checked_processor_def checked_thread_def split: if_splits)

lemma steps_checked: "run_steps handlers s s' \<Longrightarrow> checked_processor quiet s \<Longrightarrow> checked_processor quiet s'"
  by (induction rule: rtranclp_induct) (auto dest: step_checked)

lemma not_spinning: "checked_processor quiet s \<Longrightarrow> \<not> spinning s"
  by (auto simp: checked_processor_def checked_thread_def spinning_def allowed_def split: if_splits)

lemma moves_on:
  assumes "checked_processor quiet s" and "\<not> finished s"
  shows "\<exists>s'. run_step handlers s s' \<and> work_left s' < work_left s"
proof -
  obtain as fs c ts where s: "s = \<lparr>todo = as, interrupted = fs, core = c, parked = ts\<rparr>" by (cases s)
  show ?thesis
  proof (cases as)
    case Nil
    then obtain bs gs where "fs = bs # gs" using assms(2) by (auto simp: s finished_def neq_Nil_conv)
    with Nil show ?thesis unfolding s
      by (intro exI conjI) (auto intro: run_step.return simp: work_left_def frames_left_def)
  next
    case (Cons a bs)
    have av: "available a (held c)" using not_spinning [OF assms(1)] Cons by (simp add: s spinning_def)
    show ?thesis
    proof (cases "a = Switch")
      case False
      then show ?thesis unfolding s Cons
        by (intro exI conjI) (rule run_step.act [OF _ av], simp_all add: work_left_def frames_left_def)
    next
      case True
      then show ?thesis
      proof (cases ts)
        case Nil
        then show ?thesis unfolding s Cons True
          by (intro exI conjI) (auto intro: run_step.alone simp: work_left_def frames_left_def)
      next
        case ts: (Cons u us)
        show ?thesis unfolding s Cons True ts
          by (intro exI conjI, rule run_step.switch [where ts = "[]", simplified]) (simp add: work_left_def frames_left_def)
      qed
    qed
  qed
qed

lemma finishes:
  assumes "checked_processor quiet s"
  shows "\<exists>s'. run_steps handlers s s' \<and> finished s' \<and> held (core s') = no_locks"
  using assms
proof (induction s rule: measure_induct_rule [of work_left])
  case (less s)
  show ?case
  proof (cases "finished s")
    case True
    with less.prems show ?thesis
      by (intro exI [of _ s]) (auto simp: finished_def checked_processor_def checked_thread_def)
  next
    case False
    from moves_on [OF less.prems this] obtain s1 where "run_step handlers s s1" "work_left s1 < work_left s" by blast
    with less step_checked show ?thesis by (meson converse_rtranclp_into_rtranclp)
  qed
qed

lemma never_deadlocks:
  assumes "checked_processor quiet s" and "run_steps handlers s s'"
  shows "\<not> spinning s' \<and> (\<exists>s''. run_steps handlers s' s'' \<and> finished s'' \<and> held (core s'') = no_locks)"
  using assms not_spinning finishes steps_checked by blast

end

section \<open>The handlers of the kernel\<close>

text \<open>
  The timer's handler is installed for line 0 of the 8259 pair (vector 0x20) and for the interrupt an I/O APIC redirects
  it to (vector 0x30), the spurious handler for the local APIC. In \<open>kernel_handlers\<close> the timer finds the scheduler
  made and room in the ready list; in \<open>legacy_handlers\<close> only the 8259 delivers, and the timer may find what it will.
\<close>

definition kernel_handlers :: "(irq \<times> act list) set" where
  "kernel_handlers =
     {(src, timer_acts es None 0 k) |src es k. src \<in> {Legacy 0, Local} \<and> serial_only 0x3f8 es}
     \<union> {(Local, spurious_acts es) |es. serial_only 0x3f8 es}"

definition legacy_handlers :: "(irq \<times> act list) set" where
  "legacy_handlers = {(Legacy 0, timer_acts es first grow k) |es first grow k. serial_only 0x3f8 es}"

lemma check_masked_keeps:
  assumes "held c = no_locks" and "keeps quiet (c\<lparr>flag := False, imr := all_masked, saved := imr c # saved c\<rparr>) f"
  shows "check quiet c (masked_acts f) = Some (c\<lparr>flag := True\<rparr>)"
proof -
  let ?c = "\<lambda>b. c\<lparr>flag := b, imr := all_masked, saved := imr c # saved c\<rparr>"
  from assms(2) obtain b where b: "check quiet (?c False) f = Some ((?c False)\<lparr>flag := b\<rparr>)" by (auto simp: keeps_def)
  have "(?c False)\<lparr>flag := b\<rparr> = ?c b" by (cases c) simp
  with b assms(1) show ?thesis by (intro check_masked [of _ _ _ b]) auto
qed

lemma sheltered_inside: "held c = no_locks \<Longrightarrow> sheltered quiet (c\<lparr>flag := False, imr := all_masked, saved := ms\<rparr>)"
  by (simp add: sheltered_def exposed_def)

lemma check_timer_begin:
  assumes "serial_only 0x3f8 es" and "\<not> flag c" and "held c = no_locks"
  shows "check quiet c (print_acts es @ eoi_acts @ [Work]) = Some c"
  using assms check_serial [of es quiet "c\<lparr>held := ([SERIAL], [])\<rparr>"]
  by (cases c) (simp add: print_acts_def eoi_acts_def check_append allowed_def exposed_def)

lemma check_timer:
  assumes "serial_only 0x3f8 es" and "\<not> flag c" and "held c = no_locks" and "first = None \<and> grow = 0 \<or> quiet all_masked"
  shows "\<exists>b. check quiet c (timer_acts es first grow k) = Some (c\<lparr>flag := b\<rparr>)"
proof -
  have "keeps quiet (c\<lparr>flag := False, imr := all_masked, saved := imr c # saved c\<rparr>) (deref_acts first @ resched_acts grow (SCHEDULER k))"
    using assms(3,4) by (intro keeps_seq [OF sheltered_inside] keeps_deref keeps_resched) auto
  note m = check_masked_keeps [OF assms(3) this]
  have "timer_acts es first grow k = (print_acts es @ eoi_acts @ [Work])
      @ (if PIT_TICKS k \<ge> 10 then masked_acts (deref_acts first @ resched_acts grow (SCHEDULER k)) else [])"
    by (simp add: timer_acts_def)
  then have "check quiet c (timer_acts es first grow k)
      = check quiet c (if PIT_TICKS k \<ge> 10 then masked_acts (deref_acts first @ resched_acts grow (SCHEDULER k)) else [])"
    by (simp only: check_appendI [OF check_timer_begin [OF assms(1-3)]])
  with m show ?thesis using exI [of _ "flag c"] by (auto split: if_splits)
qed

lemma check_kernel_handler:
  assumes "(src, h) \<in> kernel_handlers" and "held c = no_locks" and "\<not> flag c"
  shows "\<exists>b. check quiet c h = Some (c\<lparr>flag := b\<rparr>)"
proof -
  from assms(1) consider es k where "h = timer_acts es None 0 k" "serial_only 0x3f8 es" | es where "h = print_acts es" "serial_only 0x3f8 es"
    by (auto simp: kernel_handlers_def spurious_acts_def)
  then show ?thesis
  proof cases
    case 1
    with assms(2,3) show ?thesis using check_timer by blast
  next
    case 2
    with assms(2,3) keeps_print [of es quiet c] show ?thesis by (auto simp: keeps_def exposed_def unheld_def)
  qed
qed

text \<open>Some of the handlers, with the masks that stop them all.\<close>

definition all_stopped :: "(irq \<times> act list) set \<Rightarrow> masks \<Rightarrow> bool" where
  "all_stopped H m \<longleftrightarrow> (\<forall>(src, h) \<in> H. \<not> unmasked src m)"

lemma kernel_subset: "H \<subseteq> kernel_handlers \<Longrightarrow> checked_handlers H (all_stopped H)"
  by standard (auto simp: all_stopped_def intro: check_kernel_handler)

interpretation kernel_handlers: checked_handlers kernel_handlers "all_stopped kernel_handlers"
  by (rule kernel_subset) simp

interpretation legacy_handlers: checked_handlers legacy_handlers "\<lambda>m. m = all_masked"
  by standard (auto simp: legacy_handlers_def intro: check_timer)

section \<open>Code that keeps the rules\<close>

text \<open>
  Calls of the kernel: of the heap allocator; of printing, readying a process and rescheduling
  inside \<^verbatim>\<open>disable_interrupts_and_then\<close>; and of the system call. With any source of interrupts, the lists that
  are pushed to must have room and the system call is out; with the 8259 alone, all are in.
\<close>

datatype call =
    HeapCall
  | MaskedPrint "io_event list"
  | MaskedReady nat
  | MaskedResched nat CoopScheduler
  | SysCreate "nat option" ProcessId create_calls nat

fun call_acts :: "call \<Rightarrow> act list" where
  "call_acts HeapCall = heap_acts"
| "call_acts (MaskedPrint es) = masked_acts (print_acts es)"
| "call_acts (MaskedReady grow) = masked_acts (ready_acts grow)"
| "call_acts (MaskedResched grow sch) = masked_acts (resched_acts grow sch)"
| "call_acts (SysCreate first i calls grow) = sys_create_acts first i calls grow"

fun call_prints :: "call \<Rightarrow> bool" where
  "call_prints (MaskedPrint es) \<longleftrightarrow> serial_only 0x3f8 es"
| "call_prints c \<longleftrightarrow> True"

fun call_plain :: "call \<Rightarrow> bool" where
  "call_plain (MaskedReady grow) \<longleftrightarrow> grow = 0"
| "call_plain (MaskedResched grow sch) \<longleftrightarrow> grow = 0"
| "call_plain (SysCreate first i calls grow) \<longleftrightarrow> False"
| "call_plain c \<longleftrightarrow> True"

lemma check_call:
  assumes "held c = no_locks" and "call_prints x" and "call_plain x \<or> quiet all_masked"
  shows "check quiet c (call_acts x) = Some (c\<lparr>flag := True\<rparr>)"
proof (cases x)
  case HeapCall
  with assms(1) show ?thesis by (simp add: check_heap heap_free_def)
next
  case (MaskedPrint es)
  with assms(1,2) show ?thesis
    by (auto simp: exposed_def unheld_def intro!: check_masked_keeps keeps_print)
next
  case (MaskedReady grow)
  with assms(1,3) show ?thesis by (auto intro!: check_masked_keeps keeps_ready sheltered_inside)
next
  case (MaskedResched grow sch)
  with assms(1,3) show ?thesis by (auto intro!: check_masked_keeps keeps_resched sheltered_inside)
next
  case (SysCreate first i calls grow)
  with assms(3) have q: "quiet all_masked" by simp
  have "keeps quiet (c\<lparr>flag := False, imr := all_masked, saved := imr c # saved c\<rparr>)
      (deref_acts first @ create_acts (Inr i) calls @ ready_acts grow)"
    using assms(1) q by (intro keeps_seq [OF sheltered_inside] keeps_seq keeps_deref keeps_create keeps_ready) auto
  from check_masked_keeps [OF assms(1) this] show ?thesis by (simp add: SysCreate sys_create_acts_def)
qed

lemma check_calls:
  assumes "held c = no_locks" and "\<forall>x \<in> set xs. call_prints x \<and> (call_plain x \<or> quiet all_masked)"
  shows "check quiet c (concat (map call_acts xs)) = Some (c\<lparr>flag := flag c \<or> xs \<noteq> []\<rparr>)"
  using assms by (induction xs arbitrary: c) (simp_all add: check_append check_call)

text \<open>A thread is the flag it starts with and its calls; the first one runs, the others are switched to.\<close>

type_synonym program = "bool \<times> call list"

definition program_thread :: "program \<Rightarrow> thread" where
  "program_thread t = \<lparr>rest = concat (map call_acts (snd t)), below = [], thread_flag = fst t, thread_saved = []\<rparr>"

definition programs :: "masks \<Rightarrow> program \<Rightarrow> program list \<Rightarrow> processor" where
  "programs m t ts =
     \<lparr>todo = concat (map call_acts (snd t)), interrupted = [], core = core_at (fst t) m, parked = map program_thread ts\<rparr>"

lemma programs_checked:
  assumes "\<forall>u \<in> set (t # ts). \<forall>x \<in> set (snd u). call_prints x \<and> (call_plain x \<or> quiet all_masked)"
  shows "checked_processor quiet (programs m t ts)"
proof -
  have "checked_thread quiet c (concat (map call_acts (snd u))) []" if "u \<in> set (t # ts)" "held c = no_locks" for u c
    using check_calls [OF that(2), of "snd u" quiet] assms that by (auto simp: checked_thread_def)
  then show ?thesis by (auto simp: checked_processor_def programs_def program_thread_def parked_core_def core_at_def)
qed

section \<open>Properties\<close>

text \<open>
  C11. Masked code is free of deadlocks, wherever interrupts come from. Take any number of threads, each any sequence
  of heap calls and of printing, readying and rescheduling inside \<^verbatim>\<open>disable_interrupts_and_then\<close> with room in the ready list,
  with interrupts on or off and any masks at the start; let timer interrupts of the 8259 and of the APIC and
  spurious ones arrive whenever they can, also nested, and let the timer switch between the threads. Then in no
  state that is reached does the processor spin on a lock, and from every one it can go on to where the running
  thread is at its end and no lock is held.
\<close>

theorem masked_code_never_deadlocks:
  assumes "\<forall>u \<in> set (t # ts). \<forall>x \<in> set (snd u). call_prints x \<and> call_plain x"
    and "run_steps kernel_handlers (programs m t ts) s"
  shows "\<not> spinning s \<and> (\<exists>s'. run_steps kernel_handlers s s' \<and> finished s' \<and> held (core s') = no_locks)"
  by (rule kernel_handlers.never_deadlocks [OF programs_checked assms(2)]) (use assms(1) in auto)

theorem masked_code_never_deadlocks_witness:
  "\<not> spinning \<lparr>todo = spurious_acts [], interrupted = [heap_acts @ masked_acts (print_acts [Out8 0x3f8 65])],
      core = core_at False (0, 0), parked = [program_thread (False, [HeapCall])]\<rparr>"
proof -
  let ?t = "(True, [HeapCall, MaskedPrint [Out8 0x3f8 65]])" and ?ts = "[(False, [HeapCall])]"
  have "(Local, spurious_acts []) \<in> kernel_handlers" by (auto simp: kernel_handlers_def)
  from run_step.interrupt [OF _ this, of "core_at True (0, 0)" "concat (map call_acts (snd ?t))" "[]" "map program_thread ?ts"]
  have "run_steps kernel_handlers (programs (0, 0) ?t ?ts)
      \<lparr>todo = spurious_acts [], interrupted = [heap_acts @ masked_acts (print_acts [Out8 0x3f8 65])],
       core = core_at False (0, 0), parked = [program_thread (False, [HeapCall])]\<rparr>"
    by (simp add: programs_def core_at_def r_into_rtranclp)
  then show ?thesis using masked_code_never_deadlocks [of ?t ?ts "(0, 0)"] by simp
qed

text \<open>
  C12. With the 8259 as the only source of interrupts, the masks make up for what the interrupt flag does not
  do: also the system call that creates a process, whose allocations switch the flag on in the middle of its
  masked section, the first use of the scheduler and a ready list that has to grow run without ever spinning on
  a lock, in threads and in the timer's handler, and every reached state can go on to the end.
\<close>

theorem legacy_interrupts_never_deadlock:
  assumes "\<forall>u \<in> set (t # ts). \<forall>x \<in> set (snd u). call_prints x"
    and "run_steps legacy_handlers (programs m t ts) s"
  shows "\<not> spinning s \<and> (\<exists>s'. run_steps legacy_handlers s s' \<and> finished s' \<and> held (core s') = no_locks)"
  by (rule legacy_handlers.never_deadlocks [OF programs_checked assms(2)]) (use assms(1) in auto)

theorem legacy_interrupts_never_deadlock_witness:
  "\<exists>s'. run_steps legacy_handlers
        (programs (0, 0) (True, [SysCreate (Some 2) (ProcessId 2) \<lparr>stack_calls = 3, add_calls = 3, name_calls = 1, drop_calls = 1\<rparr> 2]) []) s'
     \<and> finished s'"
  using legacy_interrupts_never_deadlock
    [of "(True, [SysCreate (Some 2) (ProcessId 2) \<lparr>stack_calls = 3, add_calls = 3, name_calls = 1, drop_calls = 1\<rparr> 2])" "[]" "(0, 0)"]
  by auto

end
