(* ===== verification/Deadlocks.thy ===== *)
theory Deadlocks
  imports Locks
begin

text \<open>
  Code that breaks the rules of Locks, run into its deadlocks: messages printed with interrupts on, the
  system call and rescheduling when the APIC delivers the timer's interrupt, the end of a process whatever delivers
  it, a panic in the arguments of a message. And the tie of the lists of actions to the operations of the
  other theories: what they execute is what the operations execute.
\<close>

section \<open>Running into a deadlock\<close>

text \<open>A stretch that is available action by action is run to its end; \<open>lone\<close> asks for no more than that.\<close>

abbreviation lone :: "core \<Rightarrow> act list \<Rightarrow> core option" where
  "lone \<equiv> check (\<lambda>_. True)"

lemma lone_exposed [simp]: "\<not> exposed (\<lambda>_. True) c"
  by (simp add: exposed_def)

abbreviation at :: "core \<Rightarrow> act list list \<Rightarrow> act list \<Rightarrow> processor" where
  "at c fs as \<equiv> \<lparr>todo = as, interrupted = fs, core = c, parked = []\<rparr>"

lemma lone_steps:
  assumes "lone c as = Some c'" and "Switch \<notin> set as"
  shows "run_steps H (at c fs (as @ as')) (at c' fs as')"
  using assms
proof (induction as arbitrary: c)
  case (Cons a as)
  then have "run_step H (at c fs ((a # as) @ as')) (at (perform a c) fs (as @ as'))"
    using run_step.act [of a c H "as @ as'" fs "[]"] by (auto simp: allowed_def split: if_splits)
  with Cons show ?case by (auto split: if_splits intro: converse_rtranclp_into_rtranclp)
qed simp

text \<open>With interrupts off, a thread that meets a taken lock stays there.\<close>

lemma deadlockedI: "\<not> available a (held c) \<Longrightarrow> \<not> flag c \<Longrightarrow> deadlocked H (at c fs (a # as))"
  by (fastforce simp: deadlocked_def spinning_def elim!: run_stepE)

text \<open>A handler that needs a lock of what it interrupts never returns.\<close>

lemma interrupt_deadlocks:
  assumes "lone (core_at b m) as = Some c" and "Switch \<notin> set as" and "flag c" and "unmasked src (imr c)"
    and "(src, h @ a # h') \<in> H" and "lone (c\<lparr>flag := False\<rparr>) h = Some c'" and "Switch \<notin> set h"
    and "\<not> flag c'" and "\<not> available a (held c')"
  shows "\<exists>s. run_steps H (start b m (as @ as')) s \<and> deadlocked H s"
proof -
  have "run_steps H (start b m (as @ as')) (at c [] as')"
    using lone_steps [OF assms(1,2)] by (simp add: start_def)
  also have "run_step H (at c [] as') (at (c\<lparr>flag := False\<rparr>) [as'] (h @ a # h'))"
    by (rule run_step.interrupt [OF assms(3,5,4)])
  also have "run_steps H (at (c\<lparr>flag := False\<rparr>) [as'] (h @ a # h')) (at c' [as'] (a # h'))"
    by (rule lone_steps [OF assms(6,7)])
  finally show ?thesis using deadlockedI [OF assms(9,8)] by blast
qed

text \<open>A tick that calls the scheduler, up to the scheduler and up to where that has looked at the ready list.\<close>

definition tick_begin :: "io_event list \<Rightarrow> act list" where
  "tick_begin es = (print_acts es @ eoi_acts @ [Work]) @ disable_acts"

definition tick_look :: "io_event list \<Rightarrow> act list" where
  "tick_look es = tick_begin es @ [Read READY_LIST, Work, Unread READY_LIST]"

lemma no_Switch [simp]:
  "Switch \<notin> set (print_acts es)" "Switch \<notin> set eoi_acts" "Switch \<notin> set disable_acts" "Switch \<notin> set restore_acts"
  "Switch \<notin> set (heap_calls n)" "Switch \<notin> set (tick_begin es)" "Switch \<notin> set (tick_look es)"
  by (auto simp: print_acts_def eoi_acts_def acts_defs heap_calls_def tick_begin_def tick_look_def)

lemma lone_tick_begin:
  assumes "serial_only 0x3f8 es" and "\<not> flag c" and "unheld SERIAL c" and "unheld APIC c" and "unheld PIC_LOCK c"
  shows "lone c (tick_begin es) = Some (c\<lparr>imr := all_masked, saved := imr c # saved c\<rparr>)"
proof -
  obtain w r where L: "held c = (w, r)" by (cases "held c")
  have "lone (c\<lparr>held := (SERIAL # w, r)\<rparr>) (map Event es) = Some (c\<lparr>held := (SERIAL # w, r)\<rparr>)"
    using check_serial [OF assms(1)] by simp
  moreover have "c\<lparr>held := (w, r)\<rparr> = c" using L by (cases c) simp
  ultimately have "lone c (print_acts es @ eoi_acts @ [Work]) = Some c"
    using assms(3,4) L by (simp add: print_acts_def eoi_acts_def check_append allowed_def unheld_def)
  moreover have "lone c disable_acts = Some (c\<lparr>imr := all_masked, saved := imr c # saved c\<rparr>)"
    using check_disable [of "\<lambda>_. True" c] assms(2,5) by (cases c) (simp add: unheld_def)
  ultimately show ?thesis by (simp only: tick_begin_def check_appendI)
qed

lemma lone_tick_look:
  assumes "serial_only 0x3f8 es" and "\<not> flag c" and "unheld SERIAL c" and "unheld APIC c" and "unheld PIC_LOCK c" and "unheld READY_LIST c"
  shows "lone c (tick_look es) = Some (c\<lparr>imr := all_masked, saved := imr c # saved c\<rparr>)"
proof -
  obtain w r where L: "held c = (w, r)" by (cases "held c")
  have "c\<lparr>imr := all_masked, saved := imr c # saved c, held := (w, r)\<rparr> = c\<lparr>imr := all_masked, saved := imr c # saved c\<rparr>"
    using L by (cases c) simp
  then show ?thesis
    using lone_tick_begin [OF assms(1-5)] assms(6) L by (simp add: tick_look_def check_append allowed_def unheld_def)
qed

lemma tick_acts:
  assumes "10 \<le> PIT_TICKS k"
  obtains as where "timer_acts es None grow k = tick_begin es @ Read READY_LIST # as"
    and "ready_list (SCHEDULER k) \<noteq> [] \<Longrightarrow>
      \<exists>as'. timer_acts es None grow k = tick_look es @ Read TASK_TABLE # Lock READY_LIST # Lock (PROCESS (get_id (SCHEDULER k))) # as'"
  using assms by (simp add: timer_acts_def masked_acts_def tick_begin_def tick_look_def resched_acts_def)

lemma tick_deadlocks:
  assumes tick: "10 \<le> PIT_TICKS k" "ready_list (SCHEDULER k) \<noteq> []" "serial_only 0x3f8 es"
    and code: "lone (core_at b m) as = Some c" "Switch \<notin> set as" "flag c" "unmasked src (imr c)"
    and free: "unheld SERIAL c" "unheld APIC c" "unheld PIC_LOCK c" "unheld READY_LIST c"
    and taken: "TASK_TABLE \<in> set (fst (held c)) \<or> PROCESS (get_id (SCHEDULER k)) \<in> set (fst (held c))"
  shows "\<exists>s. run_steps {(src, timer_acts es None grow k)} (start b m (as @ as')) s \<and> deadlocked {(src, timer_acts es None grow k)} s"
proof -
  obtain w r where L: "held c = (w, r)" by (cases "held c")
  let ?c = "c\<lparr>flag := False, imr := all_masked, saved := imr c # saved c\<rparr>"
  have look: "lone (c\<lparr>flag := False\<rparr>) (tick_look es) = Some ?c"
    using lone_tick_look [OF tick(3), of "c\<lparr>flag := False\<rparr>"] free by simp
  obtain more where t: "timer_acts es None grow k =
      tick_look es @ Read TASK_TABLE # Lock READY_LIST # Lock (PROCESS (get_id (SCHEDULER k))) # more"
    using tick_acts [OF tick(1)] tick(2) by metis
  show ?thesis
  proof (cases "TASK_TABLE \<in> set w")
    case True
    show ?thesis
      by (rule interrupt_deadlocks [OF code, of "tick_look es" "Read TASK_TABLE"]) (use t look True in \<open>auto simp: L\<close>)
  next
    case False
    then have "lone (c\<lparr>flag := False\<rparr>) (tick_look es @ [Read TASK_TABLE, Lock READY_LIST])
        = Some (?c\<lparr>held := (READY_LIST # w, TASK_TABLE # r)\<rparr>)"
      using look free(4) by (simp add: check_appendI L allowed_def unheld_def)
    with False t taken show ?thesis
      by (intro interrupt_deadlocks [OF code, of "tick_look es @ [Read TASK_TABLE, Lock READY_LIST]"
            "Lock (PROCESS (get_id (SCHEDULER k)))"]) (auto simp: L)
  qed
qed

text \<open>Every handler prints first.\<close>

lemma handlers_print: "(src, h) \<in> kernel_handlers \<Longrightarrow> \<exists>as. h = Lock SERIAL # as"
  by (auto simp: kernel_handlers_def timer_acts_def spurious_acts_def print_acts_def)

section \<open>The actions are those of the operations\<close>

text \<open>The instruction an action executes, and those of a list.\<close>

fun instruction :: "core \<Rightarrow> act \<Rightarrow> io_event list" where
  "instruction c (Event e) = [e]"
| "instruction c (SaveMask Master) = [In8 0x21 (fst (imr c))]"
| "instruction c (SaveMask Slave) = [In8 0xA1 (snd (imr c))]"
| "instruction c (RestoreMask Master) = [Out8 0x21 (fst (hd (saved c)))]"
| "instruction c (RestoreMask Slave) = [Out8 0xA1 (snd (hd (saved c)))]"
| "instruction c a = []"

fun instructions :: "core \<Rightarrow> act list \<Rightarrow> io_event list" where
  "instructions c [] = []"
| "instructions c (a # as) = instruction c a @ instructions (perform a c) as"

lemma instructions_append:
  "instructions c (as @ as') = instructions c as @ instructions (fold perform as c) as'"
  by (induction as arbitrary: c) auto

lemma instructions_Event: "instructions c (map Event es) = es"
  by (induction es arbitrary: c) auto

lemma perform_serial: "serial_only 0x3f8 es \<Longrightarrow> fold perform (map Event es) c = c"
  by (induction es) (auto simp: serial_only_Cons)

text \<open>The instructions of a masked section, around those of its closure.\<close>

lemma masked_trace:
  assumes "disable_interrupts_and_then hw f s = Inr (r, s')"
  obtains m s1 s2 where "f s1 = Inr (r, s2)" "io.more s1 = io.more s" "io.more s' = io.more s2"
    "\<And>c. imr c = m \<Longrightarrow> trace s1 = trace s @ instructions c disable_acts"
    "\<And>c. saved c \<noteq> [] \<Longrightarrow> hd (saved c) = m \<Longrightarrow> trace s' = trace s2 @ instructions c restore_acts"
proof -
  obtain m s1 where d: "disable_interrupts hw s = (m, s1)" by (cases "disable_interrupts hw s")
  with assms obtain s2 where f: "f s1 = Inr (r, s2)" "s' = restore_interrupts m s2"
    by (auto simp: disable_interrupts_and_then_def res_simps)
  show ?thesis
  proof (rule that [OF f(1), of m])
    show "io.more s1 = io.more s" and "io.more s' = io.more s2"
      using d f(2) by (auto simp: disable_interrupts_def restore_interrupts_def disable_def enable_def port8_read_def inb_def Let_def
          split: prod.splits)
    show "trace s1 = trace s @ instructions c disable_acts" if "imr c = m" for c
      using d that
      by (cases "imr c") (auto simp: disable_interrupts_def disable_def port8_read_def inb_def pics_data Let_def acts_defs)
    show "trace s' = trace s2 @ instructions c restore_acts" if "saved c \<noteq> []" "hd (saved c) = m" for c
      using that by (auto simp: f(2) restore_interrupts_def disable_def enable_def pics_data Let_def acts_defs split: prod.split)
  qed
qed

text \<open>Actions on locks alone execute nothing and leave the masks.\<close>

fun silent :: "act \<Rightarrow> bool" where
  "silent (Event e) \<longleftrightarrow> False"
| "silent (SaveMask x) \<longleftrightarrow> False"
| "silent (RestoreMask x) \<longleftrightarrow> False"
| "silent a \<longleftrightarrow> True"

lemma silent_acts: "\<forall>a \<in> set as. silent a \<Longrightarrow> instructions c as = [] \<and> saved (fold perform as c) = saved c"
proof (induction as arbitrary: c)
  case (Cons a as)
  moreover from Cons.prems have "instruction c a = []" "saved (perform a c) = saved c" by (cases a; simp)+
  ultimately show ?case by simp
qed simp

lemma silent_resched: "\<forall>a \<in> set (resched_acts 0 sch). silent a"
  by (auto simp: resched_acts_def heap_calls_def split: option.splits)

lemma instructions_masked:
  assumes "\<forall>a \<in> set f. silent a"
  shows "\<exists>c'. saved c' \<noteq> [] \<and> hd (saved c') = imr c
     \<and> instructions c (masked_acts f) = instructions c disable_acts @ instructions c' restore_acts"
proof -
  let ?c = "fold perform disable_acts c"
  have "saved ?c = imr c # saved c" by (simp add: acts_defs)
  then have "saved (fold perform f ?c) = imr c # saved c" using silent_acts [OF assms, of ?c] by simp
  then show ?thesis using silent_acts [OF assms, of ?c]
    by (intro exI [of _ "fold perform f ?c"]) (simp add: masked_acts_def instructions_append)
qed

text \<open>So an operation whose closure accesses nothing executes what the list of a masked section says.\<close>

lemma masked_silent_trace:
  assumes "disable_interrupts_and_then hw f s = Inr (r, s')" and "\<forall>s r s'. f s = Inr (r, s') \<longrightarrow> trace s' = trace s"
    and "\<forall>a \<in> set as. silent a"
  shows "\<exists>m s1 s2. f s1 = Inr (r, s2) \<and> io.more s1 = io.more s \<and> io.more s' = io.more s2
    \<and> (\<forall>c. imr c = m \<longrightarrow> trace s' = trace s @ instructions c (masked_acts as))"
  using assms(1)
proof (rule masked_trace)
  fix m s1 s2
  assume t: "f s1 = Inr (r, s2)" "io.more s1 = io.more s" "io.more s' = io.more s2"
    "\<And>c. imr c = m \<Longrightarrow> trace s1 = trace s @ instructions c disable_acts"
    "\<And>c. saved c \<noteq> [] \<Longrightarrow> hd (saved c) = m \<Longrightarrow> trace s' = trace s2 @ instructions c restore_acts"
  have "trace s' = trace s @ instructions c (masked_acts as)" if c: "imr c = m" for c
  proof -
    obtain c' where c': "saved c' \<noteq> []" "hd (saved c') = m"
      "instructions c (masked_acts as) = instructions c disable_acts @ instructions c' restore_acts"
      using instructions_masked [OF assms(3), of c] c by blast
    have "trace s2 = trace s1" using assms(2) t(1) by blast
    with t(4) [OF c] t(5) [OF c'(1,2)] c'(3) show ?thesis by simp
  qed
  with t(1-3) show ?thesis by blast
qed

text \<open>The scheduler switches exactly when its list says so.\<close>

lemma resched_switches:
  assumes "sched_wf sch" and "resched sch c = Inr (sch', c')"
  shows "Switch \<in> set (resched_acts 0 sch) \<longleftrightarrow> get_id sch' \<noteq> get_id sch"
  using assms
proof (cases rule: resched_cases)
  case 1
  then show ?thesis by (simp add: resched_acts_def)
next
  case (2 i rest p p' q)
  then have "next_process sch = Some i" by (simp add: next_process_def push_back_list_def)
  with 2 show ?thesis by (simp add: resched_acts_def)
qed

text \<open>The timer's handler executes the instructions of its list, and switches when that says so.\<close>

lemma timer_trace:
  assumes "serial_ready hw COM1" and "timer_handler hw k = Inr ((), k')" and "sched_wf (SCHEDULER k)"
  shows "\<exists>es m. serial_only 0x3f8 es \<and> trace k' = trace k @ instructions (core_at b m) (timer_acts es None 0 k)
     \<and> (Switch \<in> set (timer_acts es None 0 k) \<longleftrightarrow> get_id (SCHEDULER k') \<noteq> get_id (SCHEDULER k))"
proof -
  obtain k1 where k1: "println hw ''timer interrupt.'' k = Inr k1" "logged [''timer interrupt.''] k k1"
    by (rule println_ok [OF assms(1)])
  then obtain es where es: "serial_only 0x3f8 es" "trace k1 = trace k @ es" by (auto simp: logged_def)
  note same = logged_kernel [OF k1(2)]
  let ?prologue = "print_acts es @ eoi_acts @ [Work]"
  have prologue: "instructions (core_at b m) ?prologue = es" "fold perform ?prologue (core_at b m) = core_at b m" for m
    using es(1) by (simp_all add: print_acts_def eoi_acts_def instructions_append instructions_Event perform_serial core_at_def)
  show ?thesis
  proof (cases "10 \<le> PIT_TICKS k")
    case False
    with assms(2) k1(1) same have "k' = k1\<lparr>PIT_TICKS := PIT_TICKS k1 + 1\<rparr>" by (auto simp: timer_handler_def res_simps)
    with False es prologue same show ?thesis by (intro exI [of _ es]) (simp add: timer_acts_def)
  next
    case True
    let ?f = "\<lambda>k. rbind (resched (SCHEDULER k) (cpu k)) (\<lambda>(sch, c). Inr ((), k\<lparr>SCHEDULER := sch, cpu := c\<rparr>)) :: (unit \<times> kernel) res"
    let ?as = "resched_acts 0 (SCHEDULER k)"
    from True assms(2) k1(1) same have d: "disable_interrupts_and_then hw ?f (k1\<lparr>PIT_TICKS := 0\<rparr>) = Inr ((), k')"
      by (auto simp: timer_handler_def res_simps)
    have q: "\<forall>s r s'. ?f s = Inr (r, s') \<longrightarrow> trace s' = trace s" by (auto simp: res_simps)
    obtain m k2 k3 where m: "?f k2 = Inr ((), k3)" "io.more k2 = io.more (k1\<lparr>PIT_TICKS := 0\<rparr>)" "io.more k' = io.more k3"
      "\<forall>c. imr c = m \<longrightarrow> trace k' = trace (k1\<lparr>PIT_TICKS := 0\<rparr>) @ instructions c (masked_acts ?as)"
      using masked_silent_trace [OF d q silent_resched [of "SCHEDULER k"]] by blast
    from m(1) obtain sch c where r: "resched (SCHEDULER k2) (cpu k2) = Inr (sch, c)" "k3 = k2\<lparr>SCHEDULER := sch, cpu := c\<rparr>"
      by (auto simp: res_simps)
    have "SCHEDULER k2 = SCHEDULER k" "SCHEDULER k' = sch" using kernel_more [OF m(2)] kernel_more [OF m(3)] same r(2) by simp_all
    then have "Switch \<in> set ?as \<longleftrightarrow> get_id (SCHEDULER k') \<noteq> get_id (SCHEDULER k)"
      using resched_switches [OF _ r(1)] assms(3) by simp
    moreover have acts: "timer_acts es None 0 k = ?prologue @ masked_acts ?as" using True by (simp add: timer_acts_def)
    moreover have "trace k' = trace k @ instructions (core_at b m) (timer_acts es None 0 k)"
      unfolding acts instructions_append [of _ ?prologue] prologue using m(4) es(2) by (simp add: core_at_def)
    ultimately show ?thesis using es(1) by (intro exI [of _ es] exI [of _ m]) (simp add: masked_acts_def)
  qed
qed

section \<open>Properties\<close>

text \<open>
  C29. Printing deadlocks exactly when it can be interrupted: with interrupts on and a source of interrupts that is not
  masked, \<^verbatim>\<open>println!\<close> can be interrupted while it holds the serial port, and the handler, whichever of the kernel's
  it is, prints first and spins for ever on the port; with interrupts off or every source masked it cannot. The
  last message of \<^verbatim>\<open>arch::init\<close>, printed after \<^verbatim>\<open>sti\<close>, runs that risk.
\<close>

theorem println_deadlocks_iff_interruptible:
  assumes "serial_only 0x3f8 es" and "H \<subseteq> kernel_handlers"
  shows "((\<exists>s. run_steps H (start b m (print_acts es)) s \<and> deadlocked H s) \<longleftrightarrow> b \<and> (\<exists>(src, h) \<in> H. unmasked src m))
     \<and> ((\<exists>(src, h) \<in> H. unmasked src m) \<longrightarrow> (\<exists>s. run_steps H (start b m (init_end_acts es)) s \<and> deadlocked H s))"
proof -
  have dead: "\<exists>s. run_steps H (start b m ((as @ [Lock SERIAL]) @ as')) s \<and> deadlocked H s"
    if h: "(src, h) \<in> H" "unmasked src m" and as: "lone (core_at b m) as = Some (core_at True m)" "Switch \<notin> set as" for src h as as' b
  proof -
    obtain h' where h': "h = [] @ Lock SERIAL # h'" using handlers_print [of src h] h(1) assms(2) by auto
    have "lone (core_at b m) (as @ [Lock SERIAL]) = Some ((core_at True m)\<lparr>held := ([SERIAL], [])\<rparr>)"
      using as(1) by (simp add: check_append allowed_def core_at_def)
    then show ?thesis
      by (rule interrupt_deadlocks [where h = "[]" and h' = h' and a = "Lock SERIAL"])
        (use h h' as(2) in \<open>simp_all add: core_at_def\<close>, simp_all)
  qed
  have "\<not> deadlocked H s" if stop: "b \<longrightarrow> all_stopped H m" and "run_steps H (start b m (print_acts es)) s" for s
  proof -
    have "keeps (all_stopped H) (core_at b m) (print_acts es)"
      using stop assms(1) by (intro keeps_print) (auto simp: exposed_def unheld_def core_at_def)
    then have "checked_processor (all_stopped H) (start b m (print_acts es))"
      by (auto simp: keeps_def checked_processor_def checked_thread_def start_def core_at_def)
    with that(2) checked_handlers.never_deadlocks [OF kernel_subset [OF assms(2)]] show ?thesis
      by (auto simp: deadlocked_def)
  qed
  moreover have "\<exists>s. run_steps H (start b m (print_acts es)) s \<and> deadlocked H s" if "b" "(src, h) \<in> H" "unmasked src m" for src h
    using dead [OF that(2,3), of True "[]"] that(1) by (simp add: print_acts_def)
  moreover have "\<exists>s. run_steps H (start b m (init_end_acts es)) s \<and> deadlocked H s" if "(src, h) \<in> H" "unmasked src m" for src h
    using dead [OF that, of b "[Event Sti]"] by (simp add: print_acts_def init_end_acts_def allowed_def core_at_def)
  ultimately show ?thesis unfolding all_stopped_def by fast
qed

theorem println_deadlocks_iff_interruptible_witness:
  "\<exists>s. run_steps {(Local, spurious_acts [])} (start True (0, 0) (print_acts [Out8 0x3f8 65])) s
     \<and> deadlocked {(Local, spurious_acts [])} s"
proof -
  have "{(Local, spurious_acts [])} \<subseteq> kernel_handlers" by (auto simp: kernel_handlers_def)
  then show ?thesis
    using println_deadlocks_iff_interruptible [of "[Out8 0x3f8 65]" "{(Local, spurious_acts [])}" True "(0, 0)"] by simp
qed

text \<open>
  C30. Creating a process is not safe when the APIC delivers the timer's interrupt, which the masks do not stop: \<^verbatim>\<open>syscall::create\<close> runs
  inside \<^verbatim>\<open>disable_interrupts_and_then\<close>, but the allocation of the stack switches interrupts on again, and the task
  table is then locked for writing with interrupts on. A tick that ends a slice there, with a process ready, makes
  the timer's handler spin on the table for ever.
\<close>

theorem sys_create_can_deadlock:
  assumes "10 \<le> PIT_TICKS k" and "ready_list (SCHEDULER k) \<noteq> []" and "serial_only 0x3f8 es" and "0 < stack_calls calls"
  shows "\<exists>s. run_steps {(Local, timer_acts es None grow k)} (start b m (sys_create_acts None i calls grow')) s
     \<and> deadlocked {(Local, timer_acts es None grow k)} s"
proof -
  let ?c = "\<lparr>flag = True, imr = all_masked, saved = [m], held = ([TASK_TABLE], [])\<rparr>"
  let ?as = "disable_acts @ heap_calls (stack_calls calls) @ [Lock TASK_TABLE]"
  have "lone (core_at b m) ?as = Some ?c"
    using assms(4) check_disable [of "\<lambda>_. True" "core_at b m"]
    by (simp add: check_append check_heap_calls heap_free_def core_at_def allowed_def)
  from tick_deadlocks [OF assms(1-3) this] show ?thesis
    by (simp add: sys_create_acts_def masked_acts_def create_acts_def unheld_def)
qed

theorem sys_create_can_deadlock_witness:
  "\<exists>s. run_steps {(Local, timer_acts [] None 0 (example_kernel\<lparr>PIT_TICKS := 10\<rparr>))}
        (start False (0, 0) (sys_create_acts None (ProcessId 2) \<lparr>stack_calls = 3, add_calls = 3, name_calls = 1, drop_calls = 1\<rparr> 0)) s
     \<and> deadlocked {(Local, timer_acts [] None 0 (example_kernel\<lparr>PIT_TICKS := 10\<rparr>))} s"
  by (rule sys_create_can_deadlock) (simp_all add: example_kernel_def example_ready)

text \<open>
  The end of a process is not safe whatever delivers the timer's interrupt: \<^verbatim>\<open>kill\<close> drops the stack while it holds the lock
  of the process, and the release of the stack's memory switches interrupts on, with the masks as they were. A
  tick that ends a slice there, with another process ready, makes the timer's handler spin on the lock of the
  current process for ever.
\<close>

theorem kill_can_deadlock:
  assumes "10 \<le> PIT_TICKS k" and "ready_list (SCHEDULER k) \<noteq> []" and "serial_only 0x3f8 es" and "0 < free"
    and "proc_of sch (get_id (SCHEDULER k)) \<noteq> None" and "unmasked src m"
  shows "\<exists>s. run_steps {(src, timer_acts es None grow k)} (start b m (kill_acts (get_id (SCHEDULER k)) free grow' sch)) s
     \<and> deadlocked {(src, timer_acts es None grow k)} s"
proof -
  let ?i = "get_id (SCHEDULER k)"
  let ?c = "\<lparr>flag = True, imr = m, saved = [], held = ([PROCESS ?i], [TASK_TABLE])\<rparr>"
  let ?as = "[Read TASK_TABLE, Lock (PROCESS ?i)] @ heap_calls free"
  have "lone (core_at b m) ?as = Some ?c"
    using assms(4) by (simp add: check_append check_heap_calls heap_free_def core_at_def allowed_def)
  from tick_deadlocks [OF assms(1-3) this, of src] assms(5,6) show ?thesis
    by (auto simp: kill_acts_def unheld_def)
qed

theorem kill_can_deadlock_witness:
  "\<exists>s. run_steps {(Legacy 0, timer_acts [] None 0 (example_kernel\<lparr>PIT_TICKS := 10\<rparr>))}
        (start True (0, 0) (kill_acts (ProcessId 0) 1 0 example_sched)) s
     \<and> deadlocked {(Legacy 0, timer_acts [] None 0 (example_kernel\<lparr>PIT_TICKS := 10\<rparr>))} s"
proof -
  have "get_id (SCHEDULER (example_kernel\<lparr>PIT_TICKS := 10\<rparr>)) = ProcessId 0" by (simp add: example_kernel_def example_current)
  then show ?thesis
    using kill_can_deadlock [of "example_kernel\<lparr>PIT_TICKS := 10\<rparr>" "[]" 1 example_sched "Legacy 0" "(0, 0)" 0 True 0]
    by (simp add: example_kernel_def example_ready) (simp add: example_sched_def proc_of_def)
qed

text \<open>
  With the APIC, neither rescheduling is safe when the ready list has to grow, nor the first use of the scheduler: the
  allocations switch interrupts on while the ready list, or the once-cell of the static, is locked, and a tick that
  ends a slice there spins on it for ever.
\<close>

theorem allocating_scheduler_can_deadlock:
  assumes "10 \<le> PIT_TICKS k" and "serial_only 0x3f8 es" and "0 < n"
    and "ready_list sch \<noteq> []" and "push_back_list sch \<noteq> ready_list sch"
  shows "(\<exists>s. run_steps {(Local, timer_acts es None grow k)} (start b m (masked_acts (resched_acts n sch))) s
       \<and> deadlocked {(Local, timer_acts es None grow k)} s)
     \<and> (\<exists>s. run_steps {(Local, timer_acts es (Some n') grow k)} (start b m (sys_create_acts (Some n) i calls grow')) s
       \<and> deadlocked {(Local, timer_acts es (Some n') grow k)} s)"
proof
  have off: "lone (core_at b m) disable_acts = Some \<lparr>flag = False, imr = all_masked, saved = [m], held = no_locks\<rparr>"
    using check_disable [of "\<lambda>_. True" "core_at b m"] by (simp add: core_at_def)
  let ?tick = "\<lambda>L. \<lparr>flag = False, imr = all_masked, saved = [all_masked, m], held = L\<rparr>"
  have prologue: "lone \<lparr>flag = False, imr = all_masked, saved = [m], held = L\<rparr> (tick_begin es) = Some (?tick L)"
    if "{SERIAL, APIC, PIC_LOCK} \<inter> (set (fst L) \<union> set (snd L)) = {}" for L
    using lone_tick_begin [OF assms(2), of "\<lparr>flag = False, imr = all_masked, saved = [m], held = L\<rparr>"] that by (simp add: unheld_def)
  let ?L = "([PROCESS (get_id sch), READY_LIST], [TASK_TABLE])"
  let ?as = "disable_acts @ [Read READY_LIST, Work, Unread READY_LIST, Read TASK_TABLE, Lock READY_LIST,
    Lock (PROCESS (get_id sch))] @ heap_calls n"
  have "lone (core_at b m) ?as = Some \<lparr>flag = True, imr = all_masked, saved = [m], held = ?L\<rparr>"
    using assms(3) off by (simp add: check_append check_heap_calls heap_free_def allowed_def)
  moreover obtain more where "timer_acts es None grow k = tick_begin es @ Read READY_LIST # more"
    by (rule tick_acts [OF assms(1)])
  moreover obtain more' where "masked_acts (resched_acts n sch) = ?as @ more'"
    using assms(4,5) by (simp add: masked_acts_def resched_acts_def)
  ultimately show "\<exists>s. run_steps {(Local, timer_acts es None grow k)} (start b m (masked_acts (resched_acts n sch))) s
       \<and> deadlocked {(Local, timer_acts es None grow k)} s"
    using interrupt_deadlocks [of b m ?as _ Local "tick_begin es" "Read READY_LIST" more _ "?tick ?L"] prologue [of ?L] by simp
  let ?as = "disable_acts @ [Lock SCHEDULER_ONCE] @ heap_calls n"
  have "lone (core_at b m) ?as = Some \<lparr>flag = True, imr = all_masked, saved = [m], held = ([SCHEDULER_ONCE], [])\<rparr>"
    using assms(3) off by (simp add: check_append check_heap_calls heap_free_def allowed_def)
  moreover obtain more where "timer_acts es (Some n') grow k = tick_begin es @ Lock SCHEDULER_ONCE # more"
    using assms(1) by (simp add: timer_acts_def masked_acts_def tick_begin_def)
  moreover obtain more' where "sys_create_acts (Some n) i calls grow' = ?as @ more'"
    by (simp add: sys_create_acts_def masked_acts_def)
  ultimately show "\<exists>s. run_steps {(Local, timer_acts es (Some n') grow k)} (start b m (sys_create_acts (Some n) i calls grow')) s
       \<and> deadlocked {(Local, timer_acts es (Some n') grow k)} s"
    using interrupt_deadlocks [of b m ?as _ Local "tick_begin es" "Lock SCHEDULER_ONCE" more _ "?tick ([SCHEDULER_ONCE], [])"]
      prologue [of "([SCHEDULER_ONCE], [])"] by simp
qed

theorem allocating_scheduler_can_deadlock_witness:
  "\<exists>s. run_steps {(Local, timer_acts [] None 0 (example_kernel\<lparr>PIT_TICKS := 10\<rparr>))}
        (start False (0, 0) (masked_acts (resched_acts 2 example_sched))) s
     \<and> deadlocked {(Local, timer_acts [] None 0 (example_kernel\<lparr>PIT_TICKS := 10\<rparr>))} s"
proof -
  have "push_back_list example_sched \<noteq> ready_list example_sched"
    by (simp add: example_ready push_back_list_def) (simp add: example_sched_def proc_of_def get_id_def)
  then show ?thesis
    using allocating_scheduler_can_deadlock [of "example_kernel\<lparr>PIT_TICKS := 10\<rparr>" "[]" 2 example_sched]
    by (simp add: example_ready)
qed

text \<open>
  A panic in an argument of a message is never reported: the macro locks the port before it evaluates its
  arguments, and the report of the panic spins on the port. No byte of it is sent: once the port is locked, no
  other state is reached.
\<close>

theorem panic_in_message_is_lost:
  "run_steps H (start False m (panic_in_print_acts es es')) s \<Longrightarrow>
     s = start False m (panic_in_print_acts es es') \<or> deadlocked H s \<and> todo s = panic_acts es es'"
proof (induction rule: rtranclp_induct)
  case (step s s')
  show ?case
  proof (cases "s = start False m (panic_in_print_acts es es')")
    case True
    with step.hyps(2) have "s' = at ((core_at False m)\<lparr>held := ([SERIAL], [])\<rparr>) [] (panic_acts es es')"
      by (auto simp: start_def panic_in_print_acts_def core_at_def elim!: run_stepE)
    then show ?thesis
      using deadlockedI [of "Lock SERIAL" "(core_at False m)\<lparr>held := ([SERIAL], [])\<rparr>" H] by (simp add: panic_acts_def print_acts_def core_at_def)
  qed (use step in \<open>auto simp: deadlocked_def\<close>)
qed simp

theorem panic_in_message_is_lost_witness:
  "deadlocked {} (at ((core_at False (0, 0))\<lparr>held := ([SERIAL], [])\<rparr>) [] (panic_acts [Out8 0x3f8 65] []))"
proof -
  let ?s = "at ((core_at False (0, 0))\<lparr>held := ([SERIAL], [])\<rparr>) [] (panic_acts [Out8 0x3f8 65] [])"
  have "run_step {} (start False (0, 0) (panic_in_print_acts [Out8 0x3f8 65] [])) ?s"
    using run_step.act [of "Lock SERIAL" "core_at False (0, 0)"]
    by (simp add: panic_in_print_acts_def start_def core_at_def)
  then have "run_steps {} (start False (0, 0) (panic_in_print_acts [Out8 0x3f8 65] [])) ?s" by (rule r_into_rtranclp)
  from panic_in_message_is_lost [OF this] show ?thesis by (auto simp: start_def core_at_def)
qed

text \<open>
  C28. The lists of actions are those of the operations modelled in the other theories: a tick of the timer that
  returns has executed exactly the instructions of its list, the masks read and written back included, and has
  switched processes exactly when the list has a switch; a heap call has executed those of its list.
\<close>

theorem actions_follow_operations:
  assumes "serial_ready hw COM1" and "timer_handler hw k = Inr ((), k')" and "sched_wf (SCHEDULER k)"
    and "allocator_alloc hw c layout h = Inr (r, h')"
  shows "(\<exists>es m. serial_only 0x3f8 es \<and> trace k' = trace k @ instructions (core_at b m) (timer_acts es None 0 k)
       \<and> (Switch \<in> set (timer_acts es None 0 k) \<longleftrightarrow> get_id (SCHEDULER k') \<noteq> get_id (SCHEDULER k)))
     \<and> (\<exists>m. trace h' = trace h @ instructions (core_at b m) heap_acts)"
proof
  let ?f = "\<lambda>s. let (r, x) = heap_alloc c layout (inner_heap s) in Inr (r, s\<lparr>inner_heap := x\<rparr>)"
  have q: "\<forall>s r s'. ?f s = Inr (r, s') \<longrightarrow> trace s' = trace s" by (auto split: prod.splits)
  have "\<forall>a \<in> set [Lock HEAP, Work, Unlock HEAP]. silent a" by simp
  from masked_silent_trace [OF assms(4) [unfolded allocator_alloc_def] q this]
  obtain m where "\<forall>c. imr c = m \<longrightarrow> trace h' = trace h @ instructions c heap_acts" by (auto simp: heap_acts_def)
  then show "\<exists>m. trace h' = trace h @ instructions (core_at b m) heap_acts" by (intro exI [of _ m]) (simp add: core_at_def)
qed (rule timer_trace [OF assms(1-3)])

text \<open>A quiet machine whose serial port is always ready: the tick and the heap call return.\<close>

theorem actions_follow_operations_witness:
  "\<exists>es m k'. timer_handler (\<lambda>tr p. 0x20) example_kernel = Inr ((), k')
     \<and> trace k' = instructions (core_at False m) (timer_acts es None 0 example_kernel)"
proof -
  have "apic_ready example_kernel" "PIT_TICKS example_kernel < 10" "trace example_kernel = []" "sched_wf (SCHEDULER example_kernel)"
    using example_sched_wf by (simp_all add: apic_ready_def example_kernel_def apic_manager_new_def)
  moreover obtain k' where "timer_handler (\<lambda>tr p. 0x20) example_kernel = Inr ((), k')"
    using timer_early [OF calculation(1,2) example_serial_ready] by blast
  moreover obtain h' where "allocator_alloc (\<lambda>tr p. 0x20) \<lparr>heap_empty = (), heap_init = (\<lambda>b n h. h), heap_extend = (\<lambda>n h. h),
      heap_alloc = (\<lambda>l h. (None, h)), heap_dealloc = (\<lambda>p l h. h)\<rparr> \<lparr>layout_size = 16, layout_align = 8\<rparr>
      \<lparr>trace = [], inner_heap = ()\<rparr> = Inr (None, h')"
    by (cases "disable_interrupts (\<lambda>tr p. 0x20) \<lparr>trace = [], inner_heap = ()\<rparr>")
      (simp add: allocator_alloc_def disable_interrupts_and_then_def)
  ultimately show ?thesis using actions_follow_operations [OF example_serial_ready, of example_kernel] by fastforce
qed

end
