(* ===== verification/Tlb.thy ===== *)
theory Tlb
  imports Kernel_Map
begin

text \<open>
  The translation cache. The memory model translates by walking the tables; the processor may use a translation it
  has cached. Here the cache is made explicit: it holds translations of pages that the tables gave
  when they were cached, and loses them only by the flushes the code issues (\<^verbatim>\<open>tlb_events\<close>). The operations on
  the active table keep the cache in agreement with the tables, so the walk is what the processor uses. Filling
  is taken to happen between the operations, and for pages outside the recursive slot. Writing \<^verbatim>\<open>cr3\<close> empties the
  whole cache: the kernel does not switch global pages on.
\<close>

section \<open>Pages are told apart by their indices\<close>

lemma canonical_high: "is_canonical a \<Longrightarrow> drop_bit 47 a = 0 \<or> drop_bit 47 a = mask 17"
proof -
  assume "is_canonical a"
  moreover have "unat (drop_bit 47 a) = unat a div 2 ^ 47" by (simp add: unat_drop_bit_eq) (simp add: drop_bit_eq_div)
  moreover have "unat a < 2 ^ 64" using unsigned_less [of a] by simp
  ultimately have "unat (drop_bit 47 a) = 0 \<or> unat (drop_bit 47 a) = unat (mask 17 :: usize)"
    by (simp add: is_canonical_def word_less_nat_alt word_le_nat_alt mask_eq_exp_minus_1) linarith
  then show ?thesis by (simp only: word_unat_eq_iff) simp
qed

lemma canonical_bits:
  assumes "is_canonical a" and "47 \<le> b" and "b < 64"
  shows "bit a b = bit a 47"
proof -
  have b: "bit a (47 + k) = bit (drop_bit 47 a) k" for k by (simp add: bit_simps)
  have "bit (drop_bit 47 a) k = bit (drop_bit 47 a) 0" if "k < 17" for k
    using canonical_high [OF assms(1)] that by (auto simp only: bit_mask_iff bit_0_eq) (simp_all add: bit_simps)
  from this [of "b - 47"] b [of "b - 47"] b [of 0] assms(2,3) show ?thesis by simp
qed

lemma page_path_inj:
  assumes "page_path p = page_path q" and "page_ok p" and "page_ok q"
  shows "p = q"
proof -
  have high: "bit (page_number p) b = (bit (page_number p) 35 \<and> b < 52)" if "page_ok p" "35 \<le> b" for p b
  proof (cases "b < 52")
    case True
    have "bit (push_bit 12 (page_number p)) (b + 12) = bit (push_bit 12 (page_number p)) 47"
      using that True by (intro canonical_bits) (auto simp: page_ok_def)
    with True show ?thesis by (simp add: bit_simps)
  next
    case False
    have "take_bit 52 (page_number p) = page_number p"
      using that(1) by (simp add: page_ok_def word_unat_eq_iff unsigned_take_bit_eq take_bit_nat_eq_self_iff)
    with False show ?thesis by (metis bit_take_bit_iff)
  qed
  obtain n m where pq: "p = Page n" "q = Page m" by (cases p, cases q)
  have "bit n b = bit m b" for b
  proof (cases "b < 36")
    case True
    then show ?thesis using page_path_bits [OF assms(1) [unfolded pq]] by simp
  next
    case False
    then have "35 \<le> b" by simp
    with high [OF assms(2), of b] high [OF assms(3), of b] page_path_bits [of n m 35] assms(1) show ?thesis by (simp add: pq)
  qed
  then show ?thesis by (simp add: pq bit_word_eqI)
qed

section \<open>The cache\<close>

type_synonym tlb = "(Page \<times> Frame \<times> bool) set"

fun tlb_after :: "tlb_event list \<Rightarrow> tlb \<Rightarrow> tlb" where
  "tlb_after [] c = c"
| "tlb_after (Invlpg a # es) c = tlb_after es {x \<in> c. push_bit 12 (page_number (fst x)) \<noteq> a}"
| "tlb_after (FlushAll # es) c = tlb_after es {}"

definition flushes :: "vm \<Rightarrow> vm \<Rightarrow> tlb_event list" where
  "flushes s s' = drop (length (tlb_events s)) (tlb_events s')"

text \<open>
  Mapping a page to a frame, or to a new one, unmapping a page, each with the flush of the page, and switching
  the active table; and the processor filling its cache.
\<close>

inductive tlb_step :: "vm \<times> tlb \<Rightarrow> vm \<times> tlb \<Rightarrow> bool" where
  fill: "page_ok q \<Longrightarrow> p4_index q \<noteq> 511 \<Longrightarrow> page_map s (cr3_frame s) q = Some x \<Longrightarrow> tlb_step (s, c) (s, insert (q, x) c)"
| map: "mappable s (cr3_frame s) p \<Longrightarrow> page_ok p \<Longrightarrow> p4_index p \<noteq> 511 \<Longrightarrow> 3 \<le> card (free_now s) \<Longrightarrow> frame_ok frame \<Longrightarrow>
    flags_ok flags \<Longrightarrow> rbind (map_to p frame flags s) (\<lambda>(r, s). mapper_flush r s) = Inr s' \<Longrightarrow>
    tlb_step (s, c) (s', tlb_after (flushes s s') c)"
| map_new: "mappable s (cr3_frame s) p \<Longrightarrow> page_ok p \<Longrightarrow> p4_index p \<noteq> 511 \<Longrightarrow> 4 \<le> card (free_now s) \<Longrightarrow>
    flags_ok flags \<Longrightarrow> map_and_flush flags p s = Inr s' \<Longrightarrow> tlb_step (s, c) (s', tlb_after (flushes s s') c)"
| unmap: "small_mapped s (cr3_frame s) p \<Longrightarrow> page_ok p \<Longrightarrow> p4_index p \<noteq> 511 \<Longrightarrow>
    rbind (unmap p s) (\<lambda>(r, s). mapper_flush r s) = Inr s' \<Longrightarrow> tlb_step (s, c) (s', tlb_after (flushes s s') c)"
| switch: "inactive_ok s T \<Longrightarrow> active_table_switch (InactivePageTable T) s = Inr (old, s') \<Longrightarrow>
    tlb_step (s, c) (s', tlb_after (flushes s s') c)"

definition coherent :: "vm \<Rightarrow> tlb \<Rightarrow> bool" where
  "coherent s c \<longleftrightarrow> pt_wf s (cr3_frame s)
     \<and> (\<forall>(q, x) \<in> c. page_ok q \<and> p4_index q \<noteq> 511 \<and> page_map s (cr3_frame s) q = Some x)"

lemma flushes_snoc: "tlb_events s' = tlb_events s @ es \<Longrightarrow> flushes s s' = es"
  by (simp add: flushes_def)

text \<open>An operation that keeps the translations of all pages but those it flushes keeps the agreement.\<close>

lemma coherent_flushed:
  assumes "coherent s c" and "pt_wf s' (cr3_frame s)" and "cr3_frame s' = cr3_frame s"
    and "\<And>q. p4_index q \<noteq> 511 \<Longrightarrow> page_path q \<noteq> page_path p \<Longrightarrow> page_map s' (cr3_frame s) q = page_map s (cr3_frame s) q"
    and "page_ok p" and "flushes s s' = es @ [Invlpg (push_bit 12 (page_number p))]"
  shows "coherent s' (tlb_after (flushes s s') c)"
proof -
  have keep: "x \<in> tlb_after es c \<Longrightarrow> x \<in> c" for x es c
    by (induction es c rule: tlb_after.induct) auto
  have snoc: "tlb_after (es @ [Invlpg a]) c = {x \<in> tlb_after es c. push_bit 12 (page_number (fst x)) \<noteq> a}" for es a c
    by (induction es c rule: tlb_after.induct) auto
  have "page_map s' (cr3_frame s) q = Some x" if "(q, x) \<in> tlb_after (flushes s s') c" for q x
  proof -
    have q: "(q, x) \<in> c" "push_bit 12 (page_number q) \<noteq> push_bit 12 (page_number p)"
      using that keep [of "(q, x)"] unfolding assms(6) snoc by auto
    then have "page_path q \<noteq> page_path p" using page_path_inj assms(1,5) by (fastforce simp: coherent_def)
    with q(1) assms(1,4) show ?thesis by (fastforce simp: coherent_def)
  qed
  with assms(1-3) keep show ?thesis by (fastforce simp: coherent_def)
qed

lemma map_flushed:
  assumes "coherent s c" and "mappable s (cr3_frame s) p" and "page_ok p" and "p4_index p \<noteq> 511" and "3 \<le> card (free_now s)"
    and "frame_ok frame" and "flags_ok flags" and "rbind (map_to p frame flags s) (\<lambda>(r, s). mapper_flush r s) = Inr s'"
  shows "coherent s' (tlb_after (flushes s s') c)"
proof -
  have "pt_wf s (cr3_frame s)" using assms(1) by (simp add: coherent_def)
  from map_to_ok [OF this assms(2,4-7)] obtain s1 where s1: "map_to p frame flags s = Inr (MapperFlush p, s1)"
    "pt_wf s1 (cr3_frame s)" "kept s (cr3_frame s) s1" "tlb_events s1 = tlb_events s"
    "\<And>q. p4_index q \<noteq> 511 \<Longrightarrow> page_path q \<noteq> page_path p \<Longrightarrow> page_map s1 (cr3_frame s) q = page_map s (cr3_frame s) q" by blast
  then have s': "s' = tlb_record (Invlpg (push_bit 12 (page_number p))) s1"
    using assms(8) mapper_flush_ok [OF assms(3)] by (simp del: mapper_flush.simps)
  show ?thesis
  proof (rule coherent_flushed [OF assms(1)])
    show "flushes s s' = [] @ [Invlpg (push_bit 12 (page_number p))]" using s1(4) by (simp add: s' flushes_snoc)
  qed (use s1 kept_cr3 [OF s1(3)] assms(3) in \<open>auto simp: s'\<close>)
qed

lemma unmap_flushed:
  assumes "coherent s c" and "small_mapped s (cr3_frame s) p" and "page_ok p" and "p4_index p \<noteq> 511"
    and "rbind (unmap p s) (\<lambda>(r, s). mapper_flush r s) = Inr s'"
  shows "coherent s' (tlb_after (flushes s s') c)"
proof -
  let ?i = "Invlpg (push_bit 12 (page_number p))"
  have "pt_wf s (cr3_frame s)" using assms(1) by (simp add: coherent_def)
  from unmap_ok [OF this assms(4,3,2)] obtain s1 where s1: "unmap p s = Inr (MapperFlush p, s1)"
    "pt_wf s1 (cr3_frame s)" "kept s (cr3_frame s) s1" "tlb_events s1 = tlb_events s @ [?i]"
    "\<And>q. p4_index q \<noteq> 511 \<Longrightarrow> page_path q \<noteq> page_path p \<Longrightarrow> page_map s1 (cr3_frame s) q = page_map s (cr3_frame s) q" by blast
  then have s': "s' = tlb_record ?i s1"
    using assms(5) mapper_flush_ok [OF assms(3)] by (simp del: mapper_flush.simps)
  show ?thesis
  proof (rule coherent_flushed [OF assms(1)])
    show "flushes s s' = [?i] @ [?i]" using s1(4) by (simp add: s' flushes_snoc)
  qed (use s1 kept_cr3 [OF s1(3)] assms(3) in \<open>auto simp: s'\<close>)
qed

lemma map_new_flushed:
  assumes "coherent s c" and "mappable s (cr3_frame s) p" and "page_ok p" and "p4_index p \<noteq> 511" and "4 \<le> card (free_now s)"
    and "flags_ok flags" and "map_and_flush flags p s = Inr s'"
  shows "coherent s' (tlb_after (flushes s s') c)"
proof -
  have wf: "pt_wf s (cr3_frame s)" using assms(1) by (simp add: coherent_def)
  have "free_now s \<noteq> {}" using assms(5) by auto
  then obtain g s0 where g: "allocate_frames 1 s = Inr (Some g, s0)" "pt_wf s0 (cr3_frame s)" "g \<in> free_now s"
    "free_now s0 = free_now s - {g}" "pmem s0 = pmem s" "cr3 s0 = cr3 s" "tlb_events s0 = tlb_events s"
    using allocate_frames_kept [OF wf] by metis
  have same: "cr3_frame s0 = cr3_frame s" "mappable s0 T q = mappable s T q" "page_map s0 T q = page_map s T q"
    "flushes s0 s' = flushes s s'" for T q
    by (simp_all add: cr3_frame_def mappable_def page_map_def flushes_def g(5-7))
  have "rbind (map_to p g flags s0) (\<lambda>(r, s). mapper_flush r s) = Inr s'"
    using assms(7) g(1) by (simp add: map_and_flush_def map_page_def)
  moreover have "coherent s0 c" using assms(1) g(2) by (simp add: coherent_def same)
  moreover have "frame_ok g" using pt_wf_alloc_fresh(1) [OF wf g(3)] .
  moreover have "3 \<le> card (free_now s0)" using assms(5) g(3,4) by (simp add: card_Diff_singleton)
  ultimately show ?thesis using map_flushed [of s0 c p g flags s'] assms(2-4,6) by (simp add: same)
qed

lemma switch_flushed:
  assumes "coherent s c" and "inactive_ok s T" and "active_table_switch (InactivePageTable T) s = Inr (old, s')"
  shows "coherent s' (tlb_after (flushes s s') c)"
proof -
  have "pt_wf s' T" "cr3_frame s' = T" using switch_wf [OF _ assms(2)] assms(1,3) by (auto simp: coherent_def)
  moreover have "flushes s s' = [FlushAll]"
    using assms(3) by (auto simp: active_table_switch_def cr3_write_def res_simps flushes_snoc)
  ultimately show ?thesis by (simp add: coherent_def)
qed

lemma tlb_step_coherent:
  assumes "tlb_step (s, c) (s', c')" and "coherent s c"
  shows "coherent s' c'"
  using assms(1)
proof cases
  case (fill q x)
  then show ?thesis using assms(2) by (simp add: coherent_def)
next
  case (map p frame flags)
  then show ?thesis using map_flushed [OF assms(2)] by simp
next
  case (map_new p flags)
  then show ?thesis using map_new_flushed [OF assms(2)] by simp
next
  case (unmap p)
  then show ?thesis using unmap_flushed [OF assms(2)] by simp
next
  case (switch T old)
  then show ?thesis using switch_flushed [OF assms(2)] by simp
qed

section \<open>Properties\<close>

text \<open>
  C13. No stale translation is ever used: whatever pages are mapped to given or new frames, unmapped or left behind
  by switching tables, in any order, each with the flush its code issues, and whatever translations the processor
  caches in between, every cached translation is the one the processor's walk of the active tables gives, and
  the tables stay well formed.
\<close>

theorem tlb_never_stale:
  assumes "pt_wf s (cr3_frame s)" and "tlb_step\<^sup>*\<^sup>* (s, {}) (s', c)"
  shows "pt_wf s' (cr3_frame s')
     \<and> (\<forall>q x. (q, x) \<in> c \<longrightarrow> (\<forall>j < 512. mmu s' (entry_address (push_bit 12 (page_number q)) j) = Some x))"
proof -
  have "coherent (fst y) (snd y)" if "tlb_step\<^sup>*\<^sup>* (s, {}) y" for y
    using that
  proof (induction rule: rtranclp_induct)
    case base
    then show ?case using assms(1) by (simp add: coherent_def)
  next
    case (step y z)
    then show ?case using tlb_step_coherent by (cases y, cases z) auto
  qed
  from this [OF assms(2)] show ?thesis using mmu_page by (fastforce simp: coherent_def)
qed

text \<open>A page is mapped and its translation cached: an access through the cache is one through the tables.\<close>

theorem tlb_never_stale_witness:
  "\<exists>s'. rbind (map_to (Page 0x1234) (Frame 0x42) WRITABLE example_vm) (\<lambda>(r, s). mapper_flush r s) = Inr s'
     \<and> tlb_step\<^sup>*\<^sup>* (example_vm, {}) (s', {(Page 0x1234, Frame 0x42, True)})
     \<and> mmu s' (entry_address 0x1234000 0) = Some (Frame 0x42, True)"
proof -
  let ?p = "Page 0x1234"
  have p: "p4_index ?p \<noteq> 511" "page_ok ?p" by (simp_all add: p4_index_def page_ok_def is_canonical_def)
  have f: "frame_ok (Frame 0x42)" "flags_ok WRITABLE" by (simp_all add: frame_ok_bound bit_flag_consts)
  note m = example_mappable [OF p(1)]
  obtain s1 where s1: "map_to ?p (Frame 0x42) WRITABLE example_vm = Inr (MapperFlush ?p, s1)"
    "page_map s1 (Frame 9) ?p = Some (Frame 0x42, True)" "kept example_vm (Frame 9) s1"
    using map_to_ok [OF example_pt_wf m p(1) example_card f] by (auto simp: bit_flag_consts)
  let ?s = "tlb_record (Invlpg 0x1234000) s1"
  have r: "rbind (map_to ?p (Frame 0x42) WRITABLE example_vm) (\<lambda>(r, s). mapper_flush r s) = Inr ?s"
    using s1(1) mapper_flush_ok [OF p(2)] by (simp del: mapper_flush.simps)
  have cr: "cr3_frame ?s = Frame 9" using kept_cr3 [OF s1(3)] by (simp add: example_cr3)
  have empty: "tlb_after es {} = {}" for es by (induction es "{} :: tlb" rule: tlb_after.induct) auto
  have "tlb_step (example_vm, {}) (?s, {})"
    using tlb_step.map [OF _ p(2,1) example_card f r, of "{}"] m by (simp add: example_cr3 empty)
  moreover have "tlb_step (?s, {}) (?s, {(?p, Frame 0x42, True)})"
    using tlb_step.fill [OF p(2,1), of ?s _ "{}"] s1(2) cr by simp
  ultimately have steps: "tlb_step\<^sup>*\<^sup>* (example_vm, {}) (?s, {(?p, Frame 0x42, True)})" by simp
  with tlb_never_stale [of example_vm, OF _ steps] r example_pt_wf show ?thesis by (auto simp: example_cr3)
qed

end
