(* ===== verification/Spec2Isabelle.thy ===== *)
theory Spec2Isabelle
  imports Boot_Complete Ahci Syscall_Stubs Deadlocks Tlb
begin

text \<open>
  A model of the kernel lambdaOS and proofs about it. lambdaOS is a Rust kernel for x86-64; its
  sources are under \<^verbatim>\<open>src/src\<close>, and the paths below are relative to that directory.

  \<^bold>\<open>The program.\<close> The boot loader enters \<^verbatim>\<open>kmain\<close> (\<^verbatim>\<open>lib.rs\<close>) with the address of its data.
  \<^verbatim>\<open>arch::init\<close> (\<^verbatim>\<open>arch/x86_64/init.rs\<close>) then sets up, in this order, the serial port, the screen,
  memory, interrupts and devices. Memory is a frame allocator over the areas the boot loader reports,
  four-level page tables reached through a recursive entry, a new set of tables for the kernel, a
  heap and an allocator of stacks; on the way the ACPI tables of the firmware are read. Interrupts
  are the descriptor tables, the exception handlers and the timer; the timer drives a round-robin
  scheduler of kernel processes, and a system call creates processes. Devices are the text console,
  the keyboard, the serial port, the timer, the interrupt controllers and the PCI bus.

  \<^bold>\<open>How code becomes definitions.\<close> A definition has the name of its function in the source, with a
  prefix where the source has several of that name (\<open>frame_start_address\<close>, \<open>page_start_address\<close>). A
  function that can panic has the type \<open>'a res\<close>: \<open>Inr\<close> of what it returns, \<open>Inl\<close> of the panic. The
  kernel is linked from the debug build, so arithmetic is checked and an overflow is a panic
  (\<open>checked_add\<close> and its like in \<open>Prelude\<close>). Words have the width of the source: \<open>u8\<close>, \<open>u16\<close>, \<open>u32\<close>,
  \<open>u64\<close>, \<open>usize\<close>. A structure is a record, an enumeration a datatype. State behind a static or a
  reference is passed and returned.

  \<^item> \<open>Prelude\<close>: results, checked arithmetic, loops over iterators (\<open>rfold\<close>, \<open>iter_collect\<close>), shared facts.
  \<^item> \<open>Bytes\<close>: numbers as bytes, low byte first.
  \<^item> \<open>Addresses\<close>: \<^verbatim>\<open>Frame\<close>, \<^verbatim>\<open>Page\<close> and their ranges (\<^verbatim>\<open>memory/mod.rs\<close>, \<^verbatim>\<open>memory/paging/mod.rs\<close>). The locale
    \<open>range_iterator\<close> is the contract of both range iterators. The bounds of a page's number,
    address and indices.
  \<^item> \<open>Frame_Alloc\<close>: \<^verbatim>\<open>memory/area_frame_allocator.rs\<close>. The abstract allocator is a set of free frames; a
    request for one frame takes the lowest out of it. The locale \<open>frame_allocator\<close> states the contract,
    and gives that repeated requests hand out distinct frames.
  \<^item> \<open>Entry\<close>: \<^verbatim>\<open>memory/paging/entry.rs\<close>, entries and their flags as the 64-bit words the processor reads.
  \<^item> \<open>Mmu\<close>: the machine below the page tables: physical memory, the \<^verbatim>\<open>cr3\<close> register, the page walk.
  \<^item> \<open>Tlb\<close>: the translation cache, as the relation \<open>tlb_step\<close> between the operations on the tables and what the
    processor may have cached; the flushes of the code keep it in agreement with the tables.
  \<^item> \<open>Mapper\<close>, \<open>Mapper_Correct\<close>: \<^verbatim>\<open>table.rs\<close> and \<^verbatim>\<open>mapper.rs\<close>. The code reaches the tables only through the
    recursive entry; under the invariant \<open>pt_wf\<close> each operation acts on the physical tables, \<open>map_to\<close>
    and \<open>unmap\<close> change the translation of exactly one page and \<open>translate\<close> agrees with the walk.
  \<^item> \<open>Active_Table\<close>, \<open>Active_Correct\<close>: \<^verbatim>\<open>temporary_page.rs\<close> and the active and inactive tables of
    \<^verbatim>\<open>paging/mod.rs\<close>. Inside \<^verbatim>\<open>with\<close> the mapper edits the inactive table, and the active one comes back.
  \<^item> \<open>Map_Loops\<close>: the loops that map ranges. The locale \<open>page_loop\<close> is the contract of one round and
    gives the effect of the loop; \<open>fresh_page_loop\<close> extends it to rounds that allocate their frame.
  \<^item> \<open>Kernel_Map\<close>: what \<^verbatim>\<open>paging::init\<close> builds, the identity mapping of the kernel with a guard page.
  \<^item> \<open>Stack_Alloc\<close>: \<^verbatim>\<open>memory/stack_allocator.rs\<close>.
  \<^item> \<open>Process\<close>, \<open>Sched\<close>: \<^verbatim>\<open>task/\<close>. Contexts and their switch, the task table, the scheduler. The abstract
    scheduler is the cycle of the running and the ready processes; the locale \<open>round_robin\<close> says that
    a step rotates it and gives fairness. The relation \<open>sched_step\<close> is a scheduler's life under any calls, \<open>kernel_step\<close> under those
    the kernel makes, which readies an id once, after \<^verbatim>\<open>create\<close> has returned it; the invariants \<open>sched_safe\<close> and \<open>sched_wf\<close> are
    by rule induction. \<open>away\<close> is what happens between two turns of a process. A request for memory is given or
    refused by the environment of \<^verbatim>\<open>create\<close>; a refused one panics (\<open>heap_room\<close>).
  \<^item> \<open>Io\<close>: \<^verbatim>\<open>device/io/\<close>. Ports as a trace of accesses; the locale \<open>byte_writer\<close> is the contract of writers that
    take a string byte by byte, interpreted on the serial port and on the text console.
  \<^item> \<open>Serial\<close>, \<open>Log\<close>: \<^verbatim>\<open>device/serial.rs\<close>, \<^verbatim>\<open>macros.rs\<close>, \<^verbatim>\<open>runtime_glue.rs\<close>. The serial port, and on it the messages:
    \<open>println\<close> sends a line, \<open>logged\<close> and \<open>printed\<close> say what was sent and that nothing else changed, \<open>panic_fmt\<close> reports.
  \<^item> \<open>Devices\<close>: \<^verbatim>\<open>device/pic.rs\<close>, \<^verbatim>\<open>pit.rs\<close>, \<^verbatim>\<open>ps2_8042.rs\<close> as sequences of accesses.
  \<^item> \<open>Vga\<close>, \<open>Keyboard\<close>: \<^verbatim>\<open>device/vga/\<close>, \<^verbatim>\<open>device/keyboard/\<close>. The console refines a text of which the last 25
    lines show; the driver's modifiers follow the history of the keys, up to the key that crashes it (\<open>crashes\<close>).
  \<^item> \<open>Pci\<close>, \<open>Ahci\<close>: \<^verbatim>\<open>device/pci.rs\<close>, \<^verbatim>\<open>device/ahci/\<close>. The scan, the base address registers; the
    structures of the disk controller, which are declarations only.
  \<^item> \<open>Interrupts\<close>, \<open>Syscall_Stubs\<close>: \<^verbatim>\<open>arch/x86_64/interrupts/\<close>. Masking, exception handlers, the interrupt
    table and the descriptor tables; the stubs of the user side.
  \<^item> \<open>Acpi\<close>, \<open>Madt_Correct\<close>: \<^verbatim>\<open>acpi/\<close> and \<^verbatim>\<open>device/apic.rs\<close>, over the bytes of the firmware in memory; the
    interrupt controller table is read back from its bytes.
  \<^item> \<open>Kernel\<close>: where memory, interrupts and processes meet: \<^verbatim>\<open>memory::init\<close>, \<^verbatim>\<open>interrupts::init\<close>, the system
    call, the timer interrupt.
  \<^item> \<open>Firmware\<close>: a firmware's tables as bytes of physical memory (\<open>firmware_in\<close>). The ACPI code, which maps what it
    reads, finds and reads them and maps the registers of the controllers; \<open>extended\<close> says what such a
    step leaves alone.
  \<^item> \<open>Boot\<close>: the whole machine: \<^verbatim>\<open>arch::init\<close>, \<^verbatim>\<open>device::init\<close>, \<^verbatim>\<open>kmain\<close>, the keyboard interrupt, the
    wrapper of the heap.
  \<^item> \<open>Boot_Complete\<close>: start-up returns. The hypotheses describe the boot loader's data (\<open>boot_data_ok\<close>), its page
    tables (\<open>boot_tables_ok\<close>), the firmware's tables (\<open>boot_firmware_ok\<close>) and the number of free frames (\<open>boot_cost\<close>:
    four for each page to map and some for the temporary page), the conclusion what is mapped and set
    up afterwards (\<open>memory_up\<close>). The witness is a machine of 16 MiB with all four kinds of controller entries.

  \<^item> \<open>Locks\<close>: operations interleaved. An operation is the list of the locks it takes and releases, the instructions
    it executes and its switches of processes (\<open>resched_acts\<close>, \<open>timer_acts\<close>); the relation \<open>run_step\<close> runs threads, handlers and
    switches on one processor, whose core has the interrupt flag, the masks of the 8259 controllers and the locks held;
    an interrupt comes from a line of the 8259, which its mask can stop, or from the local APIC, which it cannot. \<open>check\<close> runs a
    list alone and asks that whenever a handler could start no lock is held; the locale \<open>checked_handlers\<close> says that code which passes
    never spins, and is interpreted on the handlers of both kinds of controller and on those of the 8259 alone, where the
    masks protect what allocates in the middle of a masked section.
  \<^item> \<open>Deadlocks\<close>: the operations that do not pass are run into their deadlocks. \<open>actions_follow_operations\<close> ties the lists to the
    operations of \<open>Kernel\<close> and \<open>Boot\<close>.

  \<^bold>\<open>Loops.\<close> A loop over a list or a range is a fold or a list. A loop or recursion that need not end
  is a partial function with values in \<open>option\<close>, so that not returning is a value: the recursion
  of \<open>allocate_frame\<close>, the polling of a device (\<open>poll_while\<close>), the reading of the interrupt controller
  table (\<open>madt_loop\<close>), an iterator's loop (\<open>iter_collect\<close>). The theorems say where they return
  and, for requests of several frames, where they do not. No fuel is used.

  \<^bold>\<open>What is outside.\<close> The hardware behind a port is the parameter \<open>hw\<close>, a function of the trace so far. The
  crates are parameters: what \<^verbatim>\<open>multiboot2\<close> reads (\<open>BootInformation\<close>), the capacity of a \<^verbatim>\<open>heapless\<close> vector
  (\<open>accepts\<close>), the bit functions of \<^verbatim>\<open>bit_field\<close>, the heap of \<^verbatim>\<open>linked_list_allocator\<close> (\<open>heap_crate\<close>). What a
  theorem needs of them is a hypothesis of it, and its witness gives functions with that property.

  \<^bold>\<open>Not modelled.\<close> The message of \<^verbatim>\<open>choose_next_area\<close>, printed in the middle of an allocation; those of \<^verbatim>\<open>paging::init\<close> are
  printed together when it is done, for it runs on the page tables alone. All other messages are printed where the code
  has them. What the processor's crate makes of a stack frame or an error code in a message: the texts are parameters.
  \<^verbatim>\<open>device/io/dma.rs\<close>: no module includes it, and it calls functions that do not exist. The macro \<^verbatim>\<open>format!\<close>, which no code
  uses. The assertion that \<^verbatim>\<open>memory::init\<close> is called once. The memory that collections of the standard library ask for outside
  \<^verbatim>\<open>create\<close> and \<^verbatim>\<open>ready\<close> (the ready list in \<^verbatim>\<open>resched\<close>, the device list, the terminals, the strings) is taken to be given, and the
  masked accesses of these heap calls are not in the traces; \<open>Boot.allocation_enables_interrupts\<close> and \<open>Locks\<close> say what such a call does
  to the interrupt flag. After a switch of processes in the timer's handler the model goes on at once, on behalf of the
  process that was switched to. In \<open>Locks\<close>, exceptions and non-maskable interrupts, and the first use of the lazy statics other than the
  scheduler; outside it an operation reads and writes what it locks at once. In \<open>Tlb\<close>, what the processor caches in
  the middle of an operation or of the recursive slot. What is left of the sources beyond this is declarations: headers of
  implementations, traits, statics whose values the definitions inline, attributes and code that is commented out.
\<close>

end
